(* ===== verification/Go_Prelude.thy ===== *)
theory Go_Prelude
  imports Main "HOL-Library.Word" "HOL-Library.Monad_Syntax"
begin

unbundle bit_operations_syntax

text \<open>
  Shared vocabulary of the development: the Go types the model uses, Go's fixed-width
  arithmetic, reads of a Go map that yield the zero value, and the generic lemmas on
  options, lists, maps and words that the component theories rely on.

  \<^item> \<open>u64\<close> is Go's \<open>uint64\<close>: a 64-bit word, arithmetic wraps.
  \<^item> \<open>i64\<close> is Go's \<open>int64\<close>: an integer whose arithmetic is reduced by \<open>i64_wrap\<close>.
  \<^item> \<open>bytes\<close> is Go's \<open>[]byte\<close>, and Go's \<open>string\<close> (a byte sequence) is HOL's \<open>string\<close>;
    the two coincide, as the conversions \<open>[]byte(s)\<close> and \<open>string(b)\<close> copy bytes.
  \<^item> \<open>'a res\<close> is the Go result pair \<open>(T, error)\<close>: \<open>Inl\<close> carries the error text.
\<close>

type_synonym u64 = "64 word"
type_synonym i64 = int
type_synonym bytes = "char list"
type_synonym 'a res = "string + 'a"

named_theorems word_nat \<open>rewrite word operations to arithmetic on their unsigned value\<close>

section \<open>Go integers\<close>

definition i64_wrap :: "int \<Rightarrow> i64" where
  "i64_wrap x = (x + 2 ^ 63) mod 2 ^ 64 - 2 ^ 63"

definition i64_add :: "i64 \<Rightarrow> i64 \<Rightarrow> i64" where
  "i64_add a b = i64_wrap (a + b)"

definition i64_ok :: "int \<Rightarrow> bool" where
  "i64_ok x \<longleftrightarrow> - (2 ^ 63) \<le> x \<and> x < 2 ^ 63"

lemma i64_wrap_id [simp]: "i64_ok x \<Longrightarrow> i64_wrap x = x"
  by (simp add: i64_wrap_def i64_ok_def)

lemma i64_wrap_ok [simp]: "i64_ok (i64_wrap x)"
proof -
  have "0 \<le> (x + 2 ^ 63) mod 2 ^ 64" and "(x + 2 ^ 63) mod 2 ^ 64 < 2 ^ 64"
    by simp_all
  then show ?thesis by (simp add: i64_wrap_def i64_ok_def)
qed

lemma i64_add_ok [simp]: "i64_ok (i64_add a b)"
  by (simp add: i64_add_def)

lemma i64_add_exact: "i64_ok (a + b) \<Longrightarrow> i64_add a b = a + b"
  by (simp add: i64_add_def)

section \<open>Reads of Go maps\<close>

text \<open>\<open>m[k]\<close> of a Go map yields the zero value of the element type for a missing key.\<close>

definition get0 :: "('k \<rightharpoonup> int) \<Rightarrow> 'k \<Rightarrow> int" where
  "get0 m k = (case m k of None \<Rightarrow> 0 | Some v \<Rightarrow> v)"

definition getb :: "('k \<rightharpoonup> bool) \<Rightarrow> 'k \<Rightarrow> bool" where
  "getb m k = (case m k of None \<Rightarrow> False | Some v \<Rightarrow> v)"

lemma get0_upd [simp]: "get0 (m(k \<mapsto> v)) k' = (if k' = k then v else get0 m k')"
  by (simp add: get0_def)

lemma get0_del [simp]: "get0 (m(k := None)) k' = (if k' = k then 0 else get0 m k')"
  by (simp add: get0_def)

lemma get0_empty [simp]: "get0 Map.empty k = 0"
  by (simp add: get0_def)

lemma getb_upd [simp]: "getb (m(k \<mapsto> v)) k' = (if k' = k then v else getb m k')"
  by (simp add: getb_def)

lemma getb_empty [simp]: "getb Map.empty k = False"
  by (simp add: getb_def)

section \<open>Words as naturals\<close>

lemma u64_max: "unat (a :: u64) < 2 ^ 64"
  using unsigned_less [of a] by simp

lemma word_and_1 [word_nat]: "((b :: u64) AND 1 = 1) \<longleftrightarrow> odd (unat b)"
  by (simp add: and_one_eq) (metis even_of_nat odd_iff_mod_2_eq_one of_nat_unat ucast_id)

lemma word_shift_1 [word_nat]: "unat (drop_bit 1 (b :: u64)) = unat b div 2"
  by (simp only: unat_drop_bit_eq) (simp add: drop_bit_eq_div)

lemma word_eq_nat: "(a :: u64) = b \<longleftrightarrow> unat a = unat b"
  by (simp add: word_unat_eq_iff)

lemma word_pos_nat [word_nat]: "0 < (b :: u64) \<longleftrightarrow> 0 < unat b"
  by (simp add: word_less_nat_alt)

lemmas [word_nat] = unat_mod_distrib unat_div_distrib word_le_nat_alt word_less_nat_alt

lemma unat_sub_le [word_nat]: "unat b \<le> unat (a :: u64) \<Longrightarrow> unat (a - b) = unat a - unat b"
  by (simp add: unat_sub word_le_nat_alt)

lemma unat_add_small [word_nat]:
  "unat (a :: u64) + unat b < 2 ^ 64 \<Longrightarrow> unat (a + b) = unat a + unat b"
  by (simp add: unat_word_ariths)

lemma mod_sum_ge: "x < m \<Longrightarrow> y < m \<Longrightarrow> m \<le> x + y \<Longrightarrow> (x + y) mod m = x + y - (m::nat)"
  by (simp add: le_mod_geq)

lemma word_halve: "unat (b :: u64) = 2 * unat (drop_bit 1 b) + (if odd (unat b) then 1 else 0)"
  unfolding word_shift_1 by simp

lemma u64_of_unat: "unat (c :: u64) = x \<Longrightarrow> c = word_of_nat x"
  by auto

section \<open>Lists without repetition, with a map of what they hold\<close>

text \<open>
  The idiom \<open>if !seen[p] { seen[p] = true; xs = append(xs, p) }\<close>: the map and the list of its keys
  in the order of their first occurrence.
\<close>

definition add_unseen :: "('k \<rightharpoonup> bool) \<times> 'k list \<Rightarrow> 'k \<Rightarrow> ('k \<rightharpoonup> bool) \<times> 'k list" where
  "add_unseen mx p = (case mx of (m, xs) \<Rightarrow> if getb m p then (m, xs) else (m(p \<mapsto> True), xs @ [p]))"

definition seen_ok :: "('k \<rightharpoonup> bool) \<times> 'k list \<Rightarrow> bool" where
  "seen_ok mx \<longleftrightarrow> distinct (snd mx) \<and> (\<forall>p. getb (fst mx) p \<longleftrightarrow> p \<in> set (snd mx))"

lemma seen_ok_empty [simp]: "seen_ok (Map.empty, [])"
  by (simp add: seen_ok_def getb_def)

lemma add_unseen_ok:
  "seen_ok mx \<Longrightarrow> seen_ok (add_unseen mx p) \<and> set (snd (add_unseen mx p)) = insert p (set (snd mx))"
  by (auto simp: add_unseen_def seen_ok_def getb_def split: prod.splits)

lemma add_all_unseen:
  "seen_ok mx \<Longrightarrow> seen_ok (foldl add_unseen mx ps) \<and> set (snd (foldl add_unseen mx ps)) = set (snd mx) \<union> set ps"
proof (induction ps arbitrary: mx)
  case (Cons p ps)
  then show ?case using add_unseen_ok [of mx p] by auto
qed simp

end
