(* ===== verification/Primes.thy ===== *)
theory Primes
  imports Go_Prelude
begin

text \<open>
  The number theory behind the primality test, on natural numbers: primality by trial
  division (executable), Euclid's lemma, Fermat's little theorem, the square roots of one
  modulo a prime, and the strong probable-prime relation that one Miller-Rabin round
  decides. Nothing here models code; \<open>Miller_Rabin\<close> shows that the code computes
  \<open>strong_probable_prime\<close> on its machine words.
\<close>

section \<open>Primes\<close>

definition prime_nat :: "nat \<Rightarrow> bool" where
  "prime_nat n \<longleftrightarrow> 1 < n \<and> (\<forall>d \<in> set [2..<n]. \<not> d dvd n)"

lemma prime_nat_dvd:
  assumes "prime_nat p" "d dvd p"
  shows "d = 1 \<or> d = p"
proof -
  have "0 < p" using assms(1) by (simp add: prime_nat_def)
  then have "d \<le> p" "d \<noteq> 0" using assms(2) by (auto dest: dvd_imp_le intro: Nat.gr0I)
  then show ?thesis using assms by (force simp: prime_nat_def)
qed

lemma prime_nat_gt1: "prime_nat p \<Longrightarrow> 1 < p"
  by (simp add: prime_nat_def)

lemma prime_natI:
  "1 < p \<Longrightarrow> (\<And>d. d dvd p \<Longrightarrow> d = 1 \<or> d = p) \<Longrightarrow> prime_nat p"
  by (force simp: prime_nat_def)

lemma prime_nat_coprime:
  assumes "prime_nat p" "\<not> p dvd a"
  shows "coprime p a"
proof (rule coprimeI)
  fix d assume "d dvd p" "d dvd a"
  then show "is_unit d" using prime_nat_dvd [OF assms(1)] assms(2) by auto
qed

lemma prime_nat_dvd_mult:
  assumes "prime_nat p" "p dvd a * b"
  shows "p dvd a \<or> p dvd b"
  using assms prime_nat_coprime coprime_dvd_mult_right_iff by blast

lemma prime_nat_dvd_prod:
  assumes "prime_nat p" "finite A" "p dvd prod f A"
  shows "\<exists>x\<in>A. p dvd f x"
  using assms(2,3)
proof (induction A)
  case empty
  then show ?case using prime_nat_gt1 [OF assms(1)] by simp
next
  case (insert x A)
  then show ?case using prime_nat_dvd_mult [OF assms(1)] by auto
qed

text \<open>Every number above one has a prime divisor, and a composite one has a small one.\<close>

lemma prime_divisor_exists:
  assumes "1 < (n::nat)"
  shows "\<exists>p. prime_nat p \<and> p dvd n"
  using assms
proof (induction n rule: less_induct)
  case (less n)
  show ?case
  proof (cases "prime_nat n")
    case False
    then obtain d where "d dvd n" "1 < d" "d < n"
      using less.prems by (force simp: prime_nat_def)
    then show ?thesis using less.IH [of d] by (auto intro: dvd_trans)
  qed auto
qed

lemma composite_small_divisor:
  assumes "1 < n" "\<not> prime_nat n"
  shows "\<exists>p. prime_nat p \<and> p dvd n \<and> p * p \<le> n"
proof -
  from assms obtain d where d: "d dvd n" "1 < d" "d < n"
    by (force simp: prime_nat_def)
  then obtain e where e: "n = d * e" by auto
  have "1 < e" using d e assms(1) by (cases "e = 0 \<or> e = 1") auto
  define m where "m = min d e"
  have "m dvd n" "1 < m" "m * m \<le> n"
    using d e \<open>1 < e\<close> by (auto simp: m_def min_def)
  moreover obtain p where "prime_nat p" "p dvd m"
    using prime_divisor_exists [OF \<open>1 < m\<close>] by blast
  moreover have "p \<le> m" using \<open>p dvd m\<close> \<open>1 < m\<close> by (simp add: dvd_imp_le)
  ultimately show ?thesis
    by (meson dvd_trans le_trans mult_le_mono)
qed

section \<open>Fermat's little theorem\<close>

lemma mult_mod_inj:
  assumes "prime_nat p" "\<not> p dvd a"
  shows "inj_on (\<lambda>x. a * x mod p) {1..<p}"
proof -
  have key: "x = y" if "x \<le> y" "y < p" "a * x mod p = a * y mod p" for x y
  proof -
    have "p dvd a * y - a * x"
      using that by (metis mod_eq_dvd_iff_nat mult_le_mono2)
    then have "p dvd a * (y - x)" by (simp add: diff_mult_distrib2)
    then have "p dvd y - x" using prime_nat_dvd_mult assms by blast
    then show ?thesis using that by (auto dest: dvd_imp_le)
  qed
  show ?thesis
  proof (rule inj_onI)
    fix x y assume "x \<in> {1..<p}" "y \<in> {1..<p}" "a * x mod p = a * y mod p"
    then show "x = y" using key [of x y] key [of y x] by (cases "x \<le> y") auto
  qed
qed

lemma mult_mod_image:
  assumes "prime_nat p" "\<not> p dvd a"
  shows "(\<lambda>x. a * x mod p) ` {1..<p} = {1..<p}"
proof (rule endo_inj_surj)
  show "(\<lambda>x. a * x mod p) ` {1..<p} \<subseteq> {1..<p}"
  proof
    fix z assume "z \<in> (\<lambda>x. a * x mod p) ` {1..<p}"
    then obtain x where "x \<in> {1..<p}" "z = a * x mod p" by (rule imageE)
    then have x: "0 < x" "x < p" "z = a * x mod p" by simp_all
    have "\<not> p dvd x" using x(1,2) by (auto dest: dvd_imp_le)
    then have "\<not> p dvd a * x"
      using prime_nat_dvd_mult [OF assms(1)] assms(2) by blast
    then show "z \<in> {1..<p}"
      using x by (auto simp: dvd_eq_mod_eq_0)
  qed
qed (use mult_mod_inj [OF assms] in auto)

lemma prod_mod: "finite A \<Longrightarrow> (\<Prod>x\<in>A. f x mod (p::nat)) mod p = (\<Prod>x\<in>A. f x) mod p"
proof (induction A rule: finite_induct)
  case (insert x A)
  have "(\<Prod>y\<in>insert x A. f y mod p) mod p = (f x mod p) * ((\<Prod>y\<in>A. f y mod p) mod p) mod p"
    using insert.hyps by (simp add: mod_mult_right_eq)
  also have "\<dots> = (\<Prod>y\<in>insert x A. f y) mod p"
    using insert by (simp add: mod_mult_eq)
  finally show ?case .
qed simp

theorem fermat_little:
  assumes p: "prime_nat p" and a: "\<not> p dvd a"
  shows "a ^ (p - 1) mod p = 1"
proof -
  let ?P = "\<Prod>{1..<p}"
  have "?P mod p = (\<Prod>x\<in>{1..<p}. a * x mod p) mod p"
    using prod.reindex [OF mult_mod_inj [OF p a], of "\<lambda>x. x"]
    unfolding mult_mod_image [OF p a] by (simp add: comp_def)
  also have "\<dots> = (\<Prod>x\<in>{1..<p}. a * x) mod p"
    by (rule prod_mod) simp
  also have "\<dots> = (a ^ (p - 1) * ?P) mod p"
    by (simp add: prod.distrib)
  finally have eq: "(a ^ (p - 1) * ?P) mod p = ?P mod p" by simp
  have "1 \<le> a" using a by (cases a) auto
  then have le: "?P \<le> a ^ (p - 1) * ?P" by simp
  have "p dvd a ^ (p - 1) * ?P - ?P"
    using eq le by (metis mod_eq_dvd_iff_nat)
  then have "p dvd (a ^ (p - 1) - 1) * ?P"
    by (simp add: diff_mult_distrib)
  moreover have "\<not> p dvd ?P"
    using prime_nat_dvd_prod [OF p, of "{1..<p}" "\<lambda>x. x"] by (fastforce dest: dvd_imp_le)
  ultimately have "p dvd a ^ (p - 1) - 1" using prime_nat_dvd_mult [OF p] by blast
  then have "a ^ (p - 1) mod p = 1 mod p"
    using \<open>1 \<le> a\<close> by (metis mod_eq_dvd_iff_nat one_le_power)
  then show ?thesis using prime_nat_gt1 [OF p] by simp
qed

section \<open>Square roots of one\<close>

lemma sqrt_one_mod_prime:
  assumes p: "prime_nat p" and sq: "x * x mod p = 1"
  shows "x mod p = 1 \<or> x mod p = p - 1"
proof -
  have p1: "1 < p" using p by (rule prime_nat_gt1)
  define y where "y = x mod p"
  have y: "y < p" "y * y mod p = 1" using p1 sq by (simp_all add: y_def mod_mult_eq)
  have "1 \<le> y" using y(2) by (cases y) auto
  have "p dvd y * y - 1"
    using y(2) p1 \<open>1 \<le> y\<close> by (metis mod_eq_dvd_iff_nat mod_less nat_1_eq_mult_iff
      mult_le_mono nat_mult_1)
  then have "p dvd (y - 1) * (y + 1)"
    using \<open>1 \<le> y\<close> by (simp add: diff_mult_distrib algebra_simps)
  then consider "p dvd y - 1" | "p dvd y + 1" using prime_nat_dvd_mult [OF p] by blast
  then show ?thesis
  proof cases
    case 1
    then have "y - 1 = 0" using y(1) by (auto dest: dvd_imp_le)
    then show ?thesis using \<open>1 \<le> y\<close> by (simp add: y_def)
  next
    case 2
    then have "p \<le> y + 1" by (rule dvd_imp_le) simp
    then have "y = p - 1" using y(1) by linarith
    then show ?thesis by (simp add: y_def)
  qed
qed

section \<open>Strong probable primes\<close>

text \<open>\<open>split2 d r\<close> moves the factors two of \<open>d\<close> into the exponent \<open>r\<close>.\<close>

fun split2 :: "nat \<Rightarrow> nat \<Rightarrow> nat \<times> nat" where
  "split2 d r = (if 0 < d \<and> even d then split2 (d div 2) (Suc r) else (d, r))"

declare split2.simps [simp del]

definition mr_round :: "nat \<Rightarrow> nat \<Rightarrow> nat \<Rightarrow> nat \<Rightarrow> bool" where
  "mr_round a d r n \<longleftrightarrow> a ^ d mod n = 1 \<or> (\<exists>i \<in> set [0..<r]. a ^ (2 ^ i * d) mod n = n - 1)"

definition strong_probable_prime :: "nat \<Rightarrow> nat \<Rightarrow> bool" where
  "strong_probable_prime a n = (let (d, r) = split2 (n - 1) 0 in mr_round a d r n)"

lemma split2_correct:
  "split2 d r = (d', r') \<Longrightarrow> 0 < d \<Longrightarrow> odd d' \<and> r \<le> r' \<and> d = 2 ^ (r' - r) * d'"
proof (induction d r rule: split2.induct)
  case (1 d r)
  show ?case
  proof (cases "even d")
    case True
    moreover have "0 < d div 2" using True \<open>0 < d\<close> by auto
    ultimately have "odd d' \<and> Suc r \<le> r' \<and> d div 2 = 2 ^ (r' - Suc r) * d'"
      using 1 by (simp add: split2.simps [of d r])
    moreover from this have "2 ^ (r' - r) = 2 * (2::nat) ^ (r' - Suc r)"
      by (metis Suc_diff_le diff_Suc_Suc power_Suc)
    ultimately show ?thesis using True
      by (metis Suc_leD dvd_mult_div_cancel mult.assoc)
  next
    case False
    with 1 show ?thesis by (auto simp: split2.simps [of d r])
  qed
qed

lemma sqrt_chain:
  assumes "prime_nat p" "a ^ (2 ^ r * d) mod p = 1"
  shows "mr_round a d r p"
  using assms(2)
proof (induction r)
  case (Suc r)
  have "a ^ (2 ^ r * d) * a ^ (2 ^ r * d) mod p = 1"
    using Suc.prems by (simp add: power_add [symmetric] mult_2 algebra_simps)
  then show ?case
    using sqrt_one_mod_prime [OF assms(1)] Suc.IH by (auto simp: mr_round_def)
qed (simp add: mr_round_def)

lemma prime_strong_probable:
  assumes "prime_nat p" "\<not> p dvd a"
  shows "strong_probable_prime a p"
proof -
  obtain d r where s: "split2 (p - 1) 0 = (d, r)" by fastforce
  have "p - 1 = 2 ^ r * d"
    using split2_correct [OF s] prime_nat_gt1 [OF assms(1)] by simp
  then have "mr_round a d r p"
    using fermat_little [OF assms] by (intro sqrt_chain [OF assms(1)]) simp
  then show ?thesis by (simp add: strong_probable_prime_def s del: One_nat_def)
qed

text \<open>A proper divisor of \<open>n\<close>, used as a base, always exposes \<open>n\<close> as composite.\<close>

lemma mod_divisor_not_unit:
  assumes "1 < (q::nat)" "q dvd n" "0 < k" "1 < n"
  shows "q ^ k mod n \<noteq> 1" "q ^ k mod n \<noteq> n - 1"
proof -
  have "q dvd q ^ k" using \<open>0 < k\<close> by (cases k) simp_all
  then have q: "q dvd q ^ k mod n" using \<open>q dvd n\<close> by (simp add: dvd_mod)
  show "q ^ k mod n \<noteq> 1" using q assms by auto
  show "q ^ k mod n \<noteq> n - 1"
  proof
    assume "q ^ k mod n = n - 1"
    then have "q dvd n - (n - 1)" using q assms(2) by (metis dvd_diff_nat)
    then show False using assms by simp
  qed
qed

lemma divisor_exposes:
  assumes "1 < q" "q dvd n" "1 < n"
  shows "\<not> strong_probable_prime q n"
proof -
  obtain d r where s: "split2 (n - 1) 0 = (d, r)" by fastforce
  have "0 < d" using split2_correct [OF s] assms by (auto intro: Nat.gr0I)
  then show ?thesis
    using mod_divisor_not_unit [OF assms(1,2) _ assms(3)]
    by (simp add: strong_probable_prime_def s mr_round_def del: One_nat_def)
qed

end
