(* ===== verification/Miller_Rabin.thy ===== *)
theory Miller_Rabin
  imports Primes
begin

text \<open>
  \<open>primefinder/pkg/prime/miller_rabin.go\<close>: modular addition, multiplication and
  exponentiation on \<open>uint64\<close> and the primality test \<open>IsPrime\<close>.

  A result \<open>None\<close> means that the Go function does not return a value: the remainder by a
  zero modulus panics, and the loop that removes factors of two never ends on zero. That
  \<open>IsPrime\<close> always returns is a theorem, not an assumption of the model.
\<close>

section \<open>Definitions\<close>

definition umod :: "u64 \<Rightarrow> u64 \<Rightarrow> u64 option" where
  "umod a m = (if m = 0 then None else Some (a mod m))"

definition addmod :: "u64 \<Rightarrow> u64 \<Rightarrow> u64 \<Rightarrow> u64 option" where
  "addmod a b m = do {
     a \<leftarrow> umod a m;
     b \<leftarrow> umod b m;
     Some (if m - b \<le> a then a - (m - b) else a + b)
   }"

function mulmod_loop :: "u64 \<Rightarrow> u64 \<Rightarrow> u64 \<Rightarrow> u64 \<Rightarrow> u64 option" where
  "mulmod_loop result a b m =
     (if 0 < b then do {
        result \<leftarrow> (if b AND 1 = 1 then addmod result a m else Some result);
        a \<leftarrow> addmod a a m;
        mulmod_loop result a (drop_bit 1 b) m
      } else Some result)"
  by pat_completeness auto
termination
  by (relation "measure (\<lambda>(result, a, b, m). unat b)") (auto simp: word_nat simp del: One_nat_def)

definition mulmod :: "u64 \<Rightarrow> u64 \<Rightarrow> u64 \<Rightarrow> u64 option" where
  "mulmod a b m = do { a \<leftarrow> umod a m; mulmod_loop 0 a b m }"

function modpow_loop :: "u64 \<Rightarrow> u64 \<Rightarrow> u64 \<Rightarrow> u64 \<Rightarrow> u64 option" where
  "modpow_loop result base e m =
     (if 0 < e then do {
        result \<leftarrow> (if e AND 1 = 1 then mulmod result base m else Some result);
        base' \<leftarrow> mulmod base base m;
        modpow_loop result base' (drop_bit 1 e) m
      } else Some result)"
  by pat_completeness auto
termination
  by (relation "measure (\<lambda>(result, base, e, m). unat e)") (auto simp: word_nat simp del: One_nat_def)

definition modpow :: "u64 \<Rightarrow> u64 \<Rightarrow> u64 \<Rightarrow> u64 option" where
  "modpow base e m =
     (if m = 1 then Some 0 else do { base \<leftarrow> umod base m; modpow_loop 1 base e m })"

partial_function (option) split_loop :: "u64 \<Rightarrow> u64 \<Rightarrow> (u64 \<times> u64) option" where
  "split_loop d r = (if d mod 2 = 0 then split_loop (d div 2) (r + 1) else Some (d, r))"

function square_loop :: "u64 \<Rightarrow> u64 \<Rightarrow> u64 \<Rightarrow> u64 \<Rightarrow> bool option" where
  "square_loop x i r n =
     (if i < r - 1 then do {
        x \<leftarrow> mulmod x x n;
        if x = n - 1 then Some False else square_loop x (i + 1) r n
      } else Some True)"
  by pat_completeness auto
termination
proof (relation "measure (\<lambda>(x, i, r, n). unat (r - 1) - unat i)")
  fix x i r n x' :: u64
  assume "i < r - 1"
  then have "unat i < unat (r - 1)" "unat (i + 1) = unat i + 1"
    using u64_max [of "r - 1"] by (simp_all add: word_less_nat_alt unat_word_ariths)
  then show "((x', i + 1, r, n), x, i, r, n)
      \<in> measure (\<lambda>(x, i, r, n). unat (r - 1) - unat i)"
    by simp
qed simp

fun witness_loop :: "u64 list \<Rightarrow> u64 \<Rightarrow> u64 \<Rightarrow> u64 \<Rightarrow> bool option" where
  "witness_loop [] d r n = Some True"
| "witness_loop (a # as) d r n =
     (if n \<le> a then witness_loop as d r n
      else do {
        x \<leftarrow> modpow a d n;
        if x = 1 \<or> x = n - 1 then witness_loop as d r n
        else do {
          composite \<leftarrow> square_loop x 0 r n;
          if composite then Some False else witness_loop as d r n
        }
      })"

definition witnesses :: "u64 list" where
  "witnesses = [2, 3, 5, 7, 11, 13, 17, 19, 23, 29, 31, 37]"

definition IsPrime :: "u64 \<Rightarrow> bool option" where
  "IsPrime n =
     (if n < 2 then Some False
      else if n = 2 \<or> n = 3 \<or> n = 5 \<or> n = 7 then Some True
      else if n mod 2 = 0 \<or> n mod 3 = 0 \<or> n mod 5 = 0 then Some False
      else do {
        (d, r) \<leftarrow> split_loop (n - 1) 0;
        witness_loop witnesses d r n
      })"

declare mulmod_loop.simps [simp del] modpow_loop.simps [simp del] square_loop.simps [simp del]

section \<open>Modular arithmetic is exact\<close>

text \<open>
  Each routine returns the mathematical value, for every pair of operands and every
  non-zero modulus: no intermediate sum leaves the 64 bits.
\<close>

lemma addmod_correct:
  assumes "m \<noteq> 0"
  shows "\<exists>c. addmod a b m = Some c \<and> unat c = (unat a + unat b) mod unat m"
proof -
  have m: "0 < unat m" using assms by (simp add: unat_gt_0)
  let ?a = "unat a mod unat m" and ?b = "unat b mod unat m"
  have lt: "?a < unat m" "?b < unat m" using m by simp_all
  have mb: "unat (m - b mod m) = unat m - ?b"
    using unat_sub_le [of "b mod m" m] lt by (simp add: unat_mod_distrib)
  have sum: "(unat a + unat b) mod unat m = (?a + ?b) mod unat m" by (simp add: mod_add_eq)
  show ?thesis
  proof (cases "unat m - ?b \<le> ?a")
    case True
    then have "unat (a mod m - (m - b mod m)) = ?a + ?b - unat m"
      using unat_sub_le [of "m - b mod m" "a mod m"] mb lt by (simp add: unat_mod_distrib)
    moreover have "(?a + ?b) mod unat m = ?a + ?b - unat m"
      by (rule mod_sum_ge) (use True lt in simp_all)
    ultimately show ?thesis using True mb assms sum
      by (simp add: addmod_def umod_def word_le_nat_alt unat_mod_distrib)
  next
    case False
    then have "?a + ?b < unat m" by linarith
    then have "unat (a mod m + b mod m) = ?a + ?b"
      using unat_add_small [of "a mod m" "b mod m"] u64_max [of m] by (simp add: unat_mod_distrib)
    then show ?thesis using False mb assms sum \<open>?a + ?b < unat m\<close>
      by (simp add: addmod_def umod_def word_le_nat_alt unat_mod_distrib)
  qed
qed

lemma mulmod_loop_correct:
  assumes "m \<noteq> 0"
  shows "\<exists>c. mulmod_loop result a b m = Some c
    \<and> unat c mod unat m = (unat result + unat a * unat b) mod unat m
    \<and> (unat result < unat m \<longrightarrow> unat c < unat m)"
  using assms
proof (induction result a b m rule: mulmod_loop.induct)
  case (1 result a b m)
  show ?case
  proof (cases "0 < b")
    case False
    then have "b = 0" by (simp add: word_gt_0)
    then show ?thesis by (simp add: mulmod_loop.simps [of result a 0 m])
  next
    case True
    define b' where "b' = drop_bit 1 b"
    have b': "unat b = 2 * unat b' + (if odd (unat b) then 1 else 0)"
      unfolding b'_def by (rule word_halve)
    obtain a' where a': "addmod a a m = Some a'" "unat a' = (unat a + unat a) mod unat m"
      using addmod_correct [OF 1(2)] by blast
    obtain s where s: "addmod result a m = Some s" "unat s = (unat result + unat a) mod unat m"
      using addmod_correct [OF 1(2)] by blast
    define res where "res = (if b AND 1 = 1 then s else result)"
    have rs: "(if b AND 1 = 1 then addmod result a m else Some result) = Some res"
      using s(1) by (simp add: res_def)
    have step: "mulmod_loop result a b m = mulmod_loop res a' b' m"
      using True a'(1) rs by (simp add: mulmod_loop.simps [of result a b m] b'_def)
    obtain c where c: "mulmod_loop res a' b' m = Some c"
      "unat c mod unat m = (unat res + unat a' * unat b') mod unat m"
      "unat res < unat m \<longrightarrow> unat c < unat m"
      using 1(1) [OF True rs a'(1) 1(2)] unfolding b'_def by blast
    have "(unat res + unat a' * unat b') mod unat m =
        (unat res + (unat a + unat a) * unat b') mod unat m"
      by (metis a'(2) mod_add_right_eq mod_mult_left_eq)
    also have "\<dots> = (unat result + unat a * unat b) mod unat m"
    proof (cases "odd (unat b)")
      case True
      then have "res = s" "unat b = Suc (2 * unat b')"
        using b' by (simp_all add: res_def word_and_1)
      moreover have "(unat s + (unat a + unat a) * unat b') mod unat m =
          (unat result + unat a + (unat a + unat a) * unat b') mod unat m"
        by (simp only: s(2) mod_add_left_eq)
      ultimately show ?thesis by (simp add: algebra_simps mult_2_right)
    next
      case False
      then have "res = result" "unat b = 2 * unat b'"
        using b' by (simp_all add: res_def word_and_1)
      then show ?thesis by (simp add: algebra_simps mult_2_right)
    qed
    finally have "unat c mod unat m = (unat result + unat a * unat b) mod unat m"
      using c(2) by simp
    moreover have "unat res < unat m" if "unat result < unat m"
      using that s(2) by (simp add: res_def)
    ultimately show ?thesis using step c by simp
  qed
qed

lemma mulmod_correct:
  assumes "m \<noteq> 0"
  shows "\<exists>c. mulmod a b m = Some c \<and> unat c = unat a * unat b mod unat m"
proof -
  have m: "0 < unat m" using assms by (simp add: unat_gt_0)
  obtain c where c: "mulmod_loop 0 (a mod m) b m = Some c"
    "unat c mod unat m = (unat (a mod m) * unat b) mod unat m" "unat c < unat m"
    using mulmod_loop_correct [OF assms, of 0 "a mod m" b] m by auto
  then show ?thesis using assms
    by (auto simp: mulmod_def umod_def unat_mod_distrib mod_mult_left_eq)
qed

lemma modpow_loop_correct:
  assumes "1 < unat m"
  shows "\<exists>c. modpow_loop result base e m = Some c
    \<and> unat c mod unat m = unat result * unat base ^ unat e mod unat m
    \<and> (unat result < unat m \<longrightarrow> unat c < unat m)"
  using assms
proof (induction result base e m rule: modpow_loop.induct)
  case (1 result base e m)
  have m0: "m \<noteq> 0" using 1(2) by auto
  show ?case
  proof (cases "0 < e")
    case False
    then have "e = 0" by (simp add: word_gt_0)
    then show ?thesis by (simp add: modpow_loop.simps [of result base 0 m])
  next
    case True
    define e' where "e' = drop_bit 1 e"
    have e': "unat e = 2 * unat e' + (if odd (unat e) then 1 else 0)"
      unfolding e'_def by (rule word_halve)
    obtain b' where b': "mulmod base base m = Some b'" "unat b' = unat base * unat base mod unat m"
      using mulmod_correct [OF m0] by blast
    obtain s where s: "mulmod result base m = Some s" "unat s = unat result * unat base mod unat m"
      using mulmod_correct [OF m0] by blast
    define res where "res = (if e AND 1 = 1 then s else result)"
    have rs: "(if e AND 1 = 1 then mulmod result base m else Some result) = Some res"
      using s(1) by (simp add: res_def)
    have step: "modpow_loop result base e m = modpow_loop res b' e' m"
      using True b'(1) rs by (simp add: modpow_loop.simps [of result base e m] e'_def)
    obtain c where c: "modpow_loop res b' e' m = Some c"
      "unat c mod unat m = unat res * unat b' ^ unat e' mod unat m"
      "unat res < unat m \<longrightarrow> unat c < unat m"
      using 1(1) [OF True rs b'(1) 1(2)] unfolding e'_def by blast
    have "unat res * unat b' ^ unat e' mod unat m =
        unat res * (unat base * unat base) ^ unat e' mod unat m"
      by (metis b'(2) mod_mult_right_eq power_mod)
    also have "(unat base * unat base) ^ unat e' = unat base ^ (2 * unat e')"
      by (simp add: power_mult power2_eq_square)
    also have "unat res * unat base ^ (2 * unat e') mod unat m =
        unat result * unat base ^ unat e mod unat m"
    proof (cases "odd (unat e)")
      case True
      then have "res = s" "unat e = Suc (2 * unat e')"
        using e' by (simp_all add: res_def word_and_1)
      then show ?thesis by (simp add: s(2) mod_mult_left_eq mult.assoc)
    next
      case False
      then have "res = result" "unat e = 2 * unat e'"
        using e' by (simp_all add: res_def word_and_1)
      then show ?thesis by simp
    qed
    finally have "unat c mod unat m = unat result * unat base ^ unat e mod unat m"
      using c(2) by simp
    moreover have "unat res < unat m" if "unat result < unat m"
      using that s(2) by (simp add: res_def)
    ultimately show ?thesis using step c by simp
  qed
qed

lemma modpow_correct:
  assumes "m \<noteq> 0"
  shows "\<exists>c. modpow base e m = Some c \<and> unat c = unat base ^ unat e mod unat m"
proof (cases "m = 1")
  case True
  then show ?thesis by (simp add: modpow_def)
next
  case False
  then have m: "1 < unat m"
    using assms by (simp add: word_eq_nat nat_neq_iff)
  obtain c where "modpow_loop 1 (base mod m) e m = Some c"
    "unat c mod unat m = unat (base mod m) ^ unat e mod unat m" "unat c < unat m"
    using modpow_loop_correct [OF m, of 1 "base mod m" e] m by auto
  then show ?thesis using False assms
    by (auto simp: modpow_def umod_def unat_mod_distrib power_mod)
qed

section \<open>The loops of the test\<close>

lemma split_loop_correct:
  assumes "0 < unat d" "unat d * 2 ^ unat r < 2 ^ 64"
  shows "\<exists>d' r'. split_loop d r = Some (d', r') \<and> split2 (unat d) (unat r) = (unat d', unat r')"
  using assms
proof (induction "unat d" arbitrary: d r rule: less_induct)
  case less
  have "unat r < 64"
  proof (rule ccontr)
    assume "\<not> unat r < 64"
    then have "(2::nat) ^ 64 \<le> 2 ^ unat r" by (intro power_increasing) auto
    also have "\<dots> \<le> unat d * 2 ^ unat r" using less.prems(1) by simp
    finally show False using less.prems(2) by simp
  qed
  then have r1: "unat (r + 1) = Suc (unat r)" by (simp add: unat_word_ariths)
  have even: "d mod 2 = 0 \<longleftrightarrow> even (unat d)"
    by (simp add: word_eq_nat unat_mod_distrib even_iff_mod_2_eq_zero)
  show ?case
  proof (cases "even (unat d)")
    case True
    then have half: "unat (d div 2) = unat d div 2" "unat d div 2 < unat d" "0 < unat d div 2"
      using less.prems(1) by (auto simp: unat_div_distrib)
    have "unat d div 2 * 2 ^ Suc (unat r) = unat d * 2 ^ unat r"
      using True by (simp only: power_Suc mult.assoc [symmetric] dvd_div_mult_self)
    then have "unat (d div 2) * 2 ^ unat (r + 1) < 2 ^ 64"
      using less.prems(2) by (simp only: half(1) r1)
    then have "\<exists>d' r'. split_loop (d div 2) (r + 1) = Some (d', r')
        \<and> split2 (unat d div 2) (Suc (unat r)) = (unat d', unat r')"
      using less.hyps [of "d div 2" "r + 1"] half r1 by simp
    moreover have "split2 (unat d) (unat r) = split2 (unat d div 2) (Suc (unat r))"
      using True less.prems(1) by (simp add: split2.simps [of "unat d"])
    moreover have "split_loop d r = split_loop (d div 2) (r + 1)"
      using True even by (subst split_loop.simps) simp
    ultimately show ?thesis by simp
  next
    case False
    then show ?thesis using even
      by (subst split_loop.simps) (simp add: split2.simps [of "unat d"])
  qed
qed

lemma square_loop_correct:
  assumes "1 < unat n" "unat i \<le> unat (r - 1)"
  shows "square_loop x i r n =
    Some (\<not> (\<exists>j \<in> {1..unat (r - 1) - unat i}. unat x ^ 2 ^ j mod unat n = unat n - 1))"
  using assms
proof (induction x i r n rule: square_loop.induct)
  case (1 x i r n)
  have n0: "n \<noteq> 0" using 1(2) by auto
  have n1: "unat (n - 1) = unat n - 1" using n0 by (simp add: unat_minus_one)
  let ?k = "unat (r - 1) - unat i"
  show ?case
  proof (cases "i < r - 1")
    case False
    then have "?k = 0" by (simp add: word_less_nat_alt)
    then show ?thesis using False by (simp add: square_loop.simps [of x i r n])
  next
    case True
    then have i: "unat i < unat (r - 1)" "unat (i + 1) = unat i + 1"
      using u64_max [of "r - 1"] by (simp_all add: word_less_nat_alt unat_word_ariths)
    obtain y where y: "mulmod x x n = Some y" "unat y = unat x * unat x mod unat n"
      using mulmod_correct [OF n0] by blast
    have pow: "unat y ^ 2 ^ j mod unat n = unat x ^ 2 ^ Suc j mod unat n" for j
      by (simp add: y(2) power_mod power_mult power2_eq_square flip: power_mult_distrib)
    have eq: "y = n - 1 \<longleftrightarrow> unat x ^ 2 ^ 1 mod unat n = unat n - 1"
      by (simp add: word_eq_nat n1 y(2) power2_eq_square)
    have rest: "square_loop y (i + 1) r n =
        Some (\<not> (\<exists>j \<in> {1..?k - 1}. unat x ^ 2 ^ Suc j mod unat n = unat n - 1))"
      if "y \<noteq> n - 1"
      using 1(1) [OF True y(1) that 1(2)] i by (simp only: pow) (simp add: numeral_eq_Suc)
    have split: "{1..?k} = insert 1 (Suc ` {1..?k - 1})"
      using i(1) by (auto simp: image_iff Bex_def)
    have ex: "(\<exists>j \<in> {1..?k}. unat x ^ 2 ^ j mod unat n = unat n - 1) \<longleftrightarrow>
        y = n - 1 \<or> (\<exists>j \<in> {1..?k - 1}. unat x ^ 2 ^ Suc j mod unat n = unat n - 1)"
      unfolding split eq by blast
    have "square_loop x i r n = (if y = n - 1 then Some False else square_loop y (i + 1) r n)"
      using True y(1) by (simp add: square_loop.simps [of x i r n])
    then show ?thesis unfolding ex using rest by simp
  qed
qed

section \<open>The test decides the strong probable-prime relation\<close>

lemma mr_round_split:
  assumes "0 < r"
  shows "mr_round a d r n \<longleftrightarrow> a ^ d mod n = 1 \<or> a ^ d mod n = n - 1 \<or>
    (\<exists>j \<in> {1..r - 1}. (a ^ d mod n) ^ 2 ^ j mod n = n - 1)"
proof -
  have split: "set [0..<r] = insert 0 {1..r - 1}" using assms by auto
  have "(a ^ d mod n) ^ 2 ^ j mod n = a ^ (2 ^ j * d) mod n" for j
    by (simp add: power_mod mult.commute flip: power_mult)
  then show ?thesis unfolding mr_round_def split by auto
qed

lemma witness_loop_correct:
  assumes "1 < unat n" "0 < unat r"
  shows "witness_loop as d r n =
    Some (\<forall>a \<in> set as. unat a < unat n \<longrightarrow> mr_round (unat a) (unat d) (unat r) (unat n))"
proof (induction as)
  case (Cons a as)
  have n0: "n \<noteq> 0" using assms(1) by auto
  have n1: "unat (n - 1) = unat n - 1" using n0 by (simp add: unat_minus_one)
  have r1: "unat (r - 1) = unat r - 1" using assms(2) by (intro unat_minus_one) auto
  obtain x where x: "modpow a d n = Some x" "unat x = unat a ^ unat d mod unat n"
    using modpow_correct [OF n0] by blast
  have eqs: "x = 1 \<longleftrightarrow> unat a ^ unat d mod unat n = 1"
    "x = n - 1 \<longleftrightarrow> unat a ^ unat d mod unat n = unat n - 1"
    by (simp_all add: word_eq_nat n1 x(2))
  have sq: "square_loop x 0 r n = Some (\<not> (\<exists>j \<in> {1..unat r - 1}.
      (unat a ^ unat d mod unat n) ^ 2 ^ j mod unat n = unat n - 1))"
    using square_loop_correct [OF assms(1), of 0 r x] by (simp add: r1 x(2))
  show ?case
    using Cons.IH x(1) sq
    by (auto simp: mr_round_split [OF assms(2)] eqs word_le_nat_alt simp del: One_nat_def)
qed simp

definition witnesses_nat :: "nat list" where
  "witnesses_nat = [2, 3, 5, 7, 11, 13, 17, 19, 23, 29, 31, 37]"

text \<open>The reference: the same test, stated on unbounded natural numbers.\<close>

definition strong_test :: "nat \<Rightarrow> bool" where
  "strong_test n \<longleftrightarrow> n \<in> {2, 3, 5, 7} \<or>
     (1 < n \<and> \<not> 2 dvd n \<and> \<not> 3 dvd n \<and> \<not> 5 dvd n \<and>
      (\<forall>a \<in> set witnesses_nat. a < n \<longrightarrow> strong_probable_prime a n))"

lemma IsPrime_strong_test: "IsPrime n = Some (strong_test (unat n))"
proof (cases "unat n < 2 \<or> unat n \<in> {2, 3, 5, 7} \<or> even (unat n) \<or> 3 dvd unat n \<or> 5 dvd unat n")
  case True
  have c: "n < 2 \<longleftrightarrow> unat n < 2" "n = 2 \<or> n = 3 \<or> n = 5 \<or> n = 7 \<longleftrightarrow> unat n \<in> {2, 3, 5, 7}"
    "n mod 2 = 0 \<or> n mod 3 = 0 \<or> n mod 5 = 0 \<longleftrightarrow> 2 dvd unat n \<or> 3 dvd unat n \<or> 5 dvd unat n"
    by (simp_all add: word_less_nat_alt word_eq_nat unat_mod_distrib dvd_eq_mod_eq_0)
  show ?thesis
  proof (cases "unat n < 2 \<or> unat n \<in> {2, 3, 5, 7}")
    case True
    then show ?thesis unfolding IsPrime_def c strong_test_def by auto
  next
    case False
    then have "2 dvd unat n \<or> 3 dvd unat n \<or> 5 dvd unat n" using True by blast
    then show ?thesis using False unfolding IsPrime_def c strong_test_def by auto
  qed
next
  case False
  have n1: "unat (n - 1) = unat n - 1" using False by (intro unat_minus_one) auto
  obtain d r where s: "split_loop (n - 1) 0 = Some (d, r)"
    "split2 (unat n - 1) 0 = (unat d, unat r)"
    using split_loop_correct [of "n - 1" 0] u64_max [of "n - 1"] False by (auto simp: n1)
  have "even (unat n - 1)" using False by auto
  moreover have "odd (unat d)" "unat n - 1 = 2 ^ unat r * unat d"
    using split2_correct [OF s(2)] False by auto
  ultimately have r: "0 < unat r" by (cases "unat r") (simp_all del: One_nat_def)
  have "IsPrime n = witness_loop witnesses d r n"
    using False s(1) by (simp add: IsPrime_def word_less_nat_alt word_eq_nat unat_mod_distrib
        dvd_eq_mod_eq_0)
  also have "\<dots> = Some (\<forall>a \<in> set witnesses. unat a < unat n \<longrightarrow>
      mr_round (unat a) (unat d) (unat r) (unat n))"
    using False r by (intro witness_loop_correct) auto
  also have "\<dots> = Some (strong_test (unat n))"
    using False s(2) unfolding strong_test_def strong_probable_prime_def
    by (simp add: witnesses_def witnesses_nat_def)
  finally show ?thesis .
qed

lemma prime_passes:
  assumes "prime_nat n"
  shows "strong_test n"
proof (cases "n \<in> {2, 3, 5}")
  case False
  have "\<not> q dvd n" if "q \<in> {2, 3, 5}" for q
    using prime_nat_dvd [OF assms, of q] that False by auto
  moreover have "strong_probable_prime a n" if "a \<in> set witnesses_nat" "a < n" for a
    using that by (intro prime_strong_probable [OF assms])
      (auto simp: witnesses_nat_def dest: dvd_imp_le)
  ultimately show ?thesis using prime_nat_gt1 [OF assms] by (simp add: strong_test_def)
qed (auto simp: strong_test_def)

lemma passes_no_small_divisor:
  assumes "strong_test n" "q \<in> set witnesses_nat" "q dvd n"
  shows "q = n"
proof -
  have n: "1 < n" using assms(1) by (auto simp: strong_test_def)
  have q: "1 < q" using assms(2) by (auto simp: witnesses_nat_def)
  have "q \<le> n" using assms(3) n by (simp add: dvd_imp_le)
  moreover have "\<not> q < n"
  proof
    assume "q < n"
    then consider "n \<in> {2, 3, 5, 7}" | "strong_probable_prime q n"
      using assms(1,2) by (auto simp: strong_test_def)
    then show False
    proof cases
      case 1
      then show ?thesis using assms(2,3) \<open>q < n\<close> by (auto simp: witnesses_nat_def)
    next
      case 2
      then show ?thesis using divisor_exposes [OF q assms(3) n] by simp
    qed
  qed
  ultimately show ?thesis by simp
qed

lemma small_primes: "p < 41 \<Longrightarrow> prime_nat p \<Longrightarrow> p \<in> set witnesses_nat"
proof -
  have "\<forall>p \<in> set [0..<41]. prime_nat p \<longrightarrow> p \<in> set witnesses_nat" by code_simp
  then show "p < 41 \<Longrightarrow> prime_nat p \<Longrightarrow> p \<in> set witnesses_nat" by simp
qed

lemma strong_test_exact_below: "n < 1681 \<Longrightarrow> strong_test n \<longleftrightarrow> prime_nat n"
proof
  assume n: "n < 1681" and pass: "strong_test n"
  then have n1: "1 < n" by (auto simp: strong_test_def)
  show "prime_nat n"
  proof (rule ccontr)
    assume "\<not> prime_nat n"
    then obtain p where p: "prime_nat p" "p dvd n" "p * p \<le> n"
      using composite_small_divisor [OF n1] by blast
    have "p < 41"
    proof (rule ccontr)
      assume "\<not> p < 41"
      then have "41 * 41 \<le> p * p" by (intro mult_le_mono) simp_all
      then show False using p(3) n by simp
    qed
    then have "p = n" using passes_no_small_divisor [OF pass small_primes] p by blast
    then show False using p n1 by simp
  qed
qed (rule prime_passes)

section \<open>Properties\<close>

text \<open>
  C3: for every 64-bit input the test returns (it neither panics on a zero modulus nor
  loops), and its answer is the one of the strong probable-prime test to the twelve bases
  over unbounded naturals: the word-level \<open>addmod\<close>, \<open>mulmod\<close> and \<open>modpow\<close> never lose a
  bit to the 64-bit width.
\<close>

theorem IsPrime_refines_strong_test: "IsPrime n = Some (strong_test (unat n))"
  by (rule IsPrime_strong_test)

text \<open>C35: a prime is never rejected, over the whole 64-bit range.\<close>

theorem IsPrime_accepts_primes:
  assumes "prime_nat (unat n)"
  shows "IsPrime n = Some True"
  using prime_passes [OF assms] by (simp add: IsPrime_strong_test)

theorem IsPrime_accepts_primes_witness: "prime_nat (unat (101 :: u64)) \<and> IsPrime 101 = Some True"
proof -
  have "prime_nat (unat (101 :: u64))" by simp code_simp
  then show ?thesis using IsPrime_accepts_primes [of 101] by blast
qed

text \<open>
  C38: an accepted number other than the base itself has no divisor among the twelve bases,
  whatever its size.
\<close>

theorem IsPrime_no_small_divisor:
  assumes "IsPrime n = Some True" "q \<in> set witnesses_nat" "q dvd unat n"
  shows "q = unat n"
  using assms passes_no_small_divisor by (simp add: IsPrime_strong_test)

theorem IsPrime_no_small_divisor_witness:
  "IsPrime 37 = Some True \<and> 37 \<in> set witnesses_nat \<and> 37 dvd unat (37 :: u64) \<and> 37 = unat (37 :: u64)"
proof -
  have "strong_test 37" by (rule prime_passes) code_simp
  then have a: "IsPrime 37 = Some True" by (simp add: IsPrime_strong_test)
  have b: "37 \<in> set witnesses_nat" by (simp add: witnesses_nat_def)
  have c: "37 dvd unat (37 :: u64)" by simp
  show ?thesis using a b c IsPrime_no_small_divisor [OF a b c] by blast
qed

text \<open>C37: below \<open>41\<^sup>2\<close> the test is exact: it accepts the primes and nothing else.\<close>

theorem IsPrime_exact_below_1681:
  assumes "unat n < 1681"
  shows "IsPrime n = Some (prime_nat (unat n))"
  using strong_test_exact_below [OF assms] by (simp add: IsPrime_strong_test)

theorem IsPrime_exact_below_1681_witness:
  "unat (1679 :: u64) < 1681 \<and> IsPrime 1679 = Some (prime_nat (unat (1679 :: u64)))"
  using IsPrime_exact_below_1681 [of 1679] by simp

text \<open>
  C36: modular multiplication and exponentiation return the mathematical product and power
  modulo \<open>m\<close> for all 64-bit operands, and panic exactly for the zero modulus.
\<close>

theorem mulmod_modpow_exact:
  "mulmod a b m = (if m = 0 then None else Some (word_of_nat (unat a * unat b mod unat m))) \<and>
   modpow a e m = (if m = 0 then None else Some (word_of_nat (unat a ^ unat e mod unat m)))"
proof (cases "m = 0")
  case True
  then show ?thesis by (simp add: mulmod_def modpow_def umod_def)
next
  case False
  obtain c where c: "mulmod a b m = Some c" "unat c = unat a * unat b mod unat m"
    using mulmod_correct [OF False] by blast
  obtain c' where c': "modpow a e m = Some c'" "unat c' = unat a ^ unat e mod unat m"
    using modpow_correct [OF False] by blast
  show ?thesis
    using False c c' u64_of_unat [OF c(2)] u64_of_unat [OF c'(2)] by simp
qed

end
