(* ===== verification/Go_Strings.thy ===== *)
theory Go_Strings
  imports Go_Prelude
begin

text \<open>
  The parts of Go's standard library on strings that the program calls: decimal formatting
  (\<open>fmt\<close> verbs \<open>%d\<close> and \<open>%03d\<close>), \<open>strconv.ParseUint\<close> in base ten, \<open>strings.TrimSpace\<close>,
  \<open>strings.Split\<close>/\<open>SplitN\<close>/\<open>Join\<close>/\<open>Contains\<close>, the line scanner of \<open>bufio\<close> with a bounded
  buffer, and \<open>filepath.Base\<close>, \<open>Clean\<close> and \<open>Join\<close>. Strings are byte sequences, as in Go.
  The lemmas are the round trips the components use: printing and parsing of numbers,
  joining and splitting of lists, writing and scanning of lines.
\<close>

section \<open>Decimal numbers\<close>

definition digit_char :: "nat \<Rightarrow> char" where
  "digit_char d = char_of (48 + d)"

definition is_digit :: "char \<Rightarrow> bool" where
  "is_digit c \<longleftrightarrow> 48 \<le> (of_char c :: nat) \<and> (of_char c :: nat) \<le> 57"

definition digit_val :: "char \<Rightarrow> nat" where
  "digit_val c = of_char c - 48"

fun show_nat :: "nat \<Rightarrow> string" where
  "show_nat n = (if n < 10 then [digit_char n] else show_nat (n div 10) @ [digit_char (n mod 10)])"

definition show_int :: "int \<Rightarrow> string" where
  "show_int i = (if i < 0 then ''-'' @ show_nat (nat (- i)) else show_nat (nat i))"

definition show_nat03 :: "nat \<Rightarrow> string" where
  "show_nat03 n = replicate (3 - length (show_nat n)) (CHR ''0'') @ show_nat n"

text \<open>\<open>strconv.ParseUint(s, 10, 64)\<close>; \<open>None\<close> is a syntax or range error.\<close>

definition parse_cutoff :: u64 where
  "parse_cutoff = 1844674407370955162"

fun parse_digits :: "u64 \<Rightarrow> string \<Rightarrow> u64 option" where
  "parse_digits n [] = Some n"
| "parse_digits n (c # cs) =
     (if \<not> is_digit c then None
      else if parse_cutoff \<le> n then None
      else let n' = n * 10; n1 = n' + word_of_nat (digit_val c)
           in if n1 < n' then None else parse_digits n1 cs)"

definition ParseUint :: "string \<Rightarrow> u64 option" where
  "ParseUint s = (if s = [] then None else parse_digits 0 s)"

declare show_nat.simps [simp del]

text \<open>The value a digit string denotes.\<close>

definition digits_val :: "nat \<Rightarrow> string \<Rightarrow> nat" where
  "digits_val = foldl (\<lambda>n c. 10 * n + digit_val c)"

lemma digit_char_props [simp]:
  assumes "d < 10"
  shows "is_digit (digit_char d)" "digit_val (digit_char d) = d"
  using assms by (simp_all add: digit_char_def is_digit_def digit_val_def of_char_of)

lemma digit_val_lt: "is_digit c \<Longrightarrow> digit_val c < 10"
  unfolding is_digit_def digit_val_def by linarith

lemma show_nat_digits: "\<forall>c \<in> set (show_nat n). is_digit c"
proof (induction n rule: show_nat.induct)
  case (1 n)
  then show ?case by (cases "n < 10") (auto simp: show_nat.simps [of n])
qed

lemma show_nat_nonempty [simp]: "show_nat n \<noteq> []"
  by (simp add: show_nat.simps [of n])

lemma digits_val_append [simp]: "digits_val n (xs @ ys) = digits_val (digits_val n xs) ys"
  by (simp add: digits_val_def)

lemma digits_val_simps [simp]:
  "digits_val n [] = n" "digits_val n (c # cs) = digits_val (10 * n + digit_val c) cs"
  by (simp_all add: digits_val_def)

lemma digits_val_show: "digits_val 0 (show_nat n) = n"
proof (induction n rule: show_nat.induct)
  case (1 n)
  then show ?case by (cases "n < 10") (simp_all add: show_nat.simps [of n])
qed

lemma show_nat_inj: "show_nat a = show_nat b \<longleftrightarrow> a = b"
  by (metis digits_val_show)

lemma show_int_inj: "show_int a = show_int b \<longleftrightarrow> a = b"
proof -
  have minus: "show_nat n \<noteq> ''-'' @ xs" for n xs
    using show_nat_digits [of n] by (auto simp: is_digit_def)
  show ?thesis
    using minus minus [symmetric] by (auto simp: show_int_def show_nat_inj)
qed

lemma show_int_no_colon: "CHR '':'' \<notin> set (show_int i)"
proof -
  have "\<not> is_digit (CHR '':'')" by (simp add: is_digit_def)
  then have "CHR '':'' \<notin> set (show_nat n)" for n using show_nat_digits by blast
  then show ?thesis by (simp add: show_int_def)
qed

lemma digits_val_mono: "n \<le> digits_val n cs"
proof (induction cs arbitrary: n)
  case (Cons c cs)
  have "n \<le> 10 * n + digit_val c" by simp
  also have "\<dots> \<le> digits_val (10 * n + digit_val c) cs" by (rule Cons.IH)
  finally show ?case by simp
qed simp

lemma parse_digits_correct:
  "parse_digits n s = Some v \<longleftrightarrow>
   (\<forall>c \<in> set s. is_digit c) \<and> digits_val (unat n) s < 2 ^ 64 \<and> unat v = digits_val (unat n) s"
proof (induction s arbitrary: n)
  case Nil
  show ?case using u64_max [of n] by (auto simp: word_eq_nat)
next
  case (Cons c cs)
  let ?d = "digit_val c"
  show ?case
  proof (cases "is_digit c")
    case False
    then show ?thesis by simp
  next
    case True
    then have d: "?d < 10" by (rule digit_val_lt)
    have cut: "parse_cutoff \<le> n \<longleftrightarrow> 1844674407370955162 \<le> unat n"
      by (simp add: parse_cutoff_def word_le_nat_alt)
    show ?thesis
    proof (cases "parse_cutoff \<le> n")
      case True
      then have "2 ^ 64 \<le> 10 * unat n + ?d" using cut by simp
      then have "2 ^ 64 \<le> digits_val (10 * unat n + ?d) cs"
        using digits_val_mono le_trans by blast
      then show ?thesis using True by simp
    next
      case False
      then have n10: "unat (n * 10) = 10 * unat n"
        using cut by (simp add: unat_word_ariths)
      have dw: "unat (word_of_nat ?d :: u64) = ?d"
        using d by (simp add: unat_of_nat)
      show ?thesis
      proof (cases "10 * unat n + ?d < 2 ^ 64")
        case True
        then have "unat (n * 10 + word_of_nat ?d) = 10 * unat n + ?d"
          using n10 dw by (simp add: unat_word_ariths)
        then show ?thesis using False \<open>is_digit c\<close> n10
          by (simp add: Let_def word_less_nat_alt Cons.IH)
      next
        case False': False
        then have "unat (n * 10 + word_of_nat ?d) = 10 * unat n + ?d - 2 ^ 64"
          using n10 dw d False cut by (simp add: unat_plus_if')
        then have "n * 10 + word_of_nat ?d < n * 10"
          using n10 d False' by (simp add: word_less_nat_alt less_diff_conv2)
        moreover have "2 ^ 64 \<le> digits_val (10 * unat n + ?d) cs"
          using False' digits_val_mono le_trans not_less by blast
        ultimately show ?thesis using False \<open>is_digit c\<close> by (simp add: Let_def)
      qed
    qed
  qed
qed

lemma ParseUint_correct:
  "ParseUint s = Some v \<longleftrightarrow>
   s \<noteq> [] \<and> (\<forall>c \<in> set s. is_digit c) \<and> digits_val 0 s < 2 ^ 64 \<and> unat v = digits_val 0 s"
  using parse_digits_correct [of 0 s v] by (simp add: ParseUint_def)

lemma ParseUint_show [simp]: "ParseUint (show_nat (unat v)) = Some v"
  using u64_max [of v] by (simp add: ParseUint_correct digits_val_show show_nat_digits)

section \<open>White space, splitting and joining\<close>

text \<open>
  \<open>strings.TrimSpace\<close> removes leading and trailing Unicode white space. The table lists
  the UTF-8 encodings of the code points of Go's \<open>unicode.IsSpace\<close>: the six ASCII ones,
  U+0085, U+00A0, U+1680, U+2000 to U+200A, U+2028, U+2029, U+202F, U+205F and U+3000.
\<close>

definition space_encodings :: "string list" where
  "space_encodings = map (map char_of)
     ([[9], [10], [11], [12], [13], [32], [194, 133], [194, 160], [225, 154, 128]]
      @ map (\<lambda>k. [226, 128, k]) [128 ..< 139]
      @ [[226, 128, 168], [226, 128, 169], [226, 128, 175], [226, 129, 159],
         [227, 128, 128 :: nat]])"

definition strip_one :: "string list \<Rightarrow> string \<Rightarrow> string option" where
  "strip_one encs s =
     (case filter (\<lambda>e. e \<noteq> [] \<and> take (length e) s = e) encs of
        [] \<Rightarrow> None | e # _ \<Rightarrow> Some (drop (length e) s))"

lemma strip_one_shorter: "strip_one encs s = Some t \<Longrightarrow> length t < length s"
proof -
  assume a: "strip_one encs s = Some t"
  then obtain e es where "filter (\<lambda>e. e \<noteq> [] \<and> take (length e) s = e) encs = e # es"
    "t = drop (length e) s"
    by (auto simp: strip_one_def split: list.splits)
  moreover from this(1) have "e \<noteq> [] \<and> take (length e) s = e"
    by (metis (mono_tags, lifting) filter_eq_ConsD)
  ultimately show ?thesis by (cases s) auto
qed

function strip_front :: "string list \<Rightarrow> string \<Rightarrow> string" where
  "strip_front encs s = (case strip_one encs s of None \<Rightarrow> s | Some t \<Rightarrow> strip_front encs t)"
  by pat_completeness auto
termination
  by (relation "measure (\<lambda>(encs, s). length s)") (auto dest: strip_one_shorter)

declare strip_front.simps [simp del]

definition TrimSpace :: "string \<Rightarrow> string" where
  "TrimSpace s =
     rev (strip_front (map rev space_encodings) (rev (strip_front space_encodings s)))"

fun split_on :: "char \<Rightarrow> string \<Rightarrow> string list" where
  "split_on c [] = [[]]"
| "split_on c (x # xs) =
     (if x = c then [] # split_on c xs
      else case split_on c xs of [] \<Rightarrow> [[x]] | y # ys \<Rightarrow> (x # y) # ys)"

text \<open>\<open>strings.SplitN(s, c, 2)\<close>: one element without the separator, two with it.\<close>

definition split_n2 :: "char \<Rightarrow> string \<Rightarrow> string list" where
  "split_n2 c s =
     (let h = takeWhile (\<lambda>x. x \<noteq> c) s
      in if length h < length s then [h, drop (Suc (length h)) s] else [s])"

fun join_with :: "string \<Rightarrow> string list \<Rightarrow> string" where
  "join_with sep [] = []"
| "join_with sep [x] = x"
| "join_with sep (x # xs) = x @ sep @ join_with sep xs"

fun str_contains :: "string \<Rightarrow> string \<Rightarrow> bool" where
  "str_contains [] sub = (sub = [])"
| "str_contains (x # xs) sub = (take (length sub) (x # xs) = sub \<or> str_contains xs sub)"

lemma split_on_nonempty [simp]: "split_on c s \<noteq> []"
  by (induction s) (auto split: list.splits)

lemma split_on_append:
  "c \<notin> set x \<Longrightarrow> split_on c (x @ c # s) = x # split_on c s"
  by (induction x) auto

lemma split_on_free: "c \<notin> set x \<Longrightarrow> split_on c x = [x]"
  by (induction x) auto

lemma split_on_join:
  assumes "xs \<noteq> []" "\<forall>x \<in> set xs. c \<notin> set x"
  shows "split_on c (join_with [c] xs) = xs"
  using assms
proof (induction xs rule: induct_list012)
  case (3 x y zs)
  then show ?case by (simp add: split_on_append)
qed (auto simp: split_on_free)

lemma split_on_elems_free: "x \<in> set (split_on c s) \<Longrightarrow> c \<notin> set x"
proof (induction s arbitrary: x)
  case (Cons a s)
  then show ?case by (fastforce split: list.splits if_splits)
qed simp

lemma strip_front_id: "strip_one encs s = None \<Longrightarrow> strip_front encs s = s"
  by (simp add: strip_front.simps)

lemma strip_one_digit:
  assumes "is_digit c" "\<forall>e \<in> set encs. e \<noteq> [] \<longrightarrow> \<not> is_digit (hd e)"
  shows "strip_one encs (c # cs) = None"
proof -
  have "\<not> (e \<noteq> [] \<and> take (length e) (c # cs) = e)" if "e \<in> set encs" for e
    using assms that by (cases e) auto
  then have "filter (\<lambda>e. e \<noteq> [] \<and> take (length e) (c # cs) = e) encs = []"
    by (auto simp: filter_empty_conv)
  then show ?thesis by (simp add: strip_one_def)
qed

lemma space_hd_no_digit:
  "\<forall>e \<in> set space_encodings. e \<noteq> [] \<longrightarrow> \<not> is_digit (hd e)"
  "\<forall>e \<in> set (map rev space_encodings). e \<noteq> [] \<longrightarrow> \<not> is_digit (hd e)"
  by (simp_all add: space_encodings_def is_digit_def upt_rec)

lemma TrimSpace_digits:
  assumes "s \<noteq> []" "\<forall>c \<in> set s. is_digit c"
  shows "TrimSpace s = s"
proof -
  obtain c cs where "s = c # cs" using assms(1) by (cases s) auto
  then have front: "strip_front space_encodings s = s"
    using assms(2) strip_one_digit [OF _ space_hd_no_digit(1)] by (simp add: strip_front_id)
  obtain d ds where "rev s = d # ds" using assms(1) by (cases "rev s") auto
  moreover from this have "is_digit d" using assms(2) by (metis list.set_intros(1) set_rev)
  ultimately have "strip_front (map rev space_encodings) (rev s) = rev s"
    using strip_one_digit [OF _ space_hd_no_digit(2)] by (simp add: strip_front_id del: set_map)
  then show ?thesis by (simp add: TrimSpace_def front)
qed

section \<open>The line scanner of bufio\<close>

text \<open>
  \<open>bufio.Scanner\<close> with \<open>ScanLines\<close> over a buffer of \<open>mx\<close> bytes that may not grow. The result
  is the list of tokens and whether scanning stopped with \<open>ErrTooLong\<close>: the buffer is full
  and holds no newline. A final line without newline is a token. How the reader splits
  the data into reads does not matter, as the scanner keeps reading until the buffer holds
  a newline, is full, or the input ends. A reader that fails after \<open>data\<close> is treated as
  end of input for the remaining bytes, and its error is reported by \<open>Err\<close> at the end.
\<close>

definition newline :: char where
  "newline = char_of (10 :: nat)"

definition drop_cr :: "bytes \<Rightarrow> bytes" where
  "drop_cr line = (if line \<noteq> [] \<and> last line = char_of (13 :: nat) then butlast line else line)"

function scan_lines :: "nat \<Rightarrow> bytes \<Rightarrow> bytes list \<times> bool" where
  "scan_lines mx data =
     (if data = [] then ([], False)
      else let line = takeWhile (\<lambda>c. c \<noteq> newline) data
           in if length line < mx \<and> length line < length data
              then case scan_lines mx (drop (Suc (length line)) data) of
                     (ts, e) \<Rightarrow> (drop_cr line # ts, e)
              else if mx \<le> length data then ([], True)
              else ([drop_cr data], False))"
  by pat_completeness auto
termination
  by (relation "measure (\<lambda>(mx, data). length data)") auto

declare scan_lines.simps [simp del]

definition unlines :: "string list \<Rightarrow> bytes" where
  "unlines ls = concat (map (\<lambda>l. l @ [newline]) ls)"

lemma unlines_simps [simp]:
  "unlines [] = []" "unlines (l # ls) = l @ newline # unlines ls"
  by (simp_all add: unlines_def)

lemma scan_lines_Nil [simp]: "scan_lines mx [] = ([], False)"
  by (simp add: scan_lines.simps)

lemma not_mem_iff_ne: "c \<notin> set l \<longleftrightarrow> (\<forall>x \<in> set l. x \<noteq> c)"
  by auto

lemma takeWhile_newline: "newline \<notin> set l \<Longrightarrow> takeWhile (\<lambda>c. c \<noteq> newline) (l @ newline # r) = l"
  by (auto simp: takeWhile_append2 takeWhile_tail not_mem_iff_ne)

lemma scan_lines_line:
  assumes "newline \<notin> set l" "length l < mx"
  shows "scan_lines mx (l @ newline # r) =
    (case scan_lines mx r of (ts, e) \<Rightarrow> (drop_cr l # ts, e))"
  using assms by (subst scan_lines.simps) (simp add: takeWhile_newline Let_def)

lemma scan_unlines:
  assumes "\<forall>l \<in> set ls. newline \<notin> set l \<and> length l < mx \<and> drop_cr l = l"
  shows "scan_lines mx (unlines ls) = (ls, False)"
  using assms by (induction ls) (auto simp: scan_lines_line)

text \<open>A line that fills the buffer stops the scan with an error.\<close>

lemma scan_lines_too_long:
  assumes "newline \<notin> set l" "mx \<le> length l" "0 < mx"
  shows "scan_lines mx (l @ r) = ([], True)"
proof -
  have "length l \<le> length (takeWhile (\<lambda>c. c \<noteq> newline) (l @ r))"
    using assms(1) by (subst takeWhile_append2) (auto simp: not_mem_iff_ne)
  moreover have "l @ r \<noteq> []" using assms by auto
  ultimately show ?thesis using assms(2)
    by (subst scan_lines.simps) (simp add: Let_def)
qed

lemma digit_not_newline: "\<forall>c \<in> set s. is_digit c \<Longrightarrow> newline \<notin> set s"
  by (auto simp: newline_def is_digit_def)

lemma digits_drop_cr: "\<forall>c \<in> set s. is_digit c \<Longrightarrow> drop_cr s = s"
proof -
  assume d: "\<forall>c \<in> set s. is_digit c"
  have "\<not> is_digit (char_of (13 :: nat))" by (simp add: is_digit_def)
  then show ?thesis using d by (metis drop_cr_def last_in_set)
qed

lemma show_nat_length: "length (show_nat n) \<le> k \<longleftrightarrow> n < 10 ^ k \<and> 0 < k"
proof (induction n arbitrary: k rule: show_nat.induct)
  case (1 n)
  show ?case
  proof (cases "n < 10")
    case True
    then show ?thesis
      using less_le_trans [OF True self_le_power [of "10 :: nat" k]]
      by (cases "k = 0") (auto simp: show_nat.simps [of n])
  next
    case False
    then have "length (show_nat n) \<le> k \<longleftrightarrow> 0 < k \<and> length (show_nat (n div 10)) \<le> k - 1"
      by (auto simp: show_nat.simps [of n])
    also have "\<dots> \<longleftrightarrow> 0 < k \<and> n div 10 < 10 ^ (k - 1) \<and> 0 < k - 1"
      using 1 False by simp
    also have "\<dots> \<longleftrightarrow> n < 10 ^ k \<and> 0 < k"
    proof (cases k)
      case (Suc j)
      have "n div 10 < 10 ^ j \<longleftrightarrow> n < 10 ^ Suc j"
        by (simp add: div_less_iff_less_mult mult.commute)
      then show ?thesis using Suc False by (cases j) auto
    qed simp
    finally show ?thesis .
  qed
qed

lemma show_u64_length: "length (show_nat (unat (v :: u64))) \<le> 20"
  using u64_max [of v] by (simp add: show_nat_length)

section \<open>File paths\<close>

abbreviation slash :: char where
  "slash \<equiv> CHR ''/''"

definition path_Base :: "string \<Rightarrow> string" where
  "path_Base p =
     (if p = [] then ''.''
      else let q = rev (dropWhile (\<lambda>c. c = slash) (rev p));
               r = rev (takeWhile (\<lambda>c. c \<noteq> slash) (rev q))
           in if r = [] then ''/'' else r)"

text \<open>
  \<open>filepath.Clean\<close> on Unix: the elements of the path are pushed on a stack; empty and dot
  elements are dropped, a dot-dot pops a real element, is dropped at the root and kept
  otherwise.
\<close>

definition clean_step :: "bool \<Rightarrow> string list \<Rightarrow> string \<Rightarrow> string list" where
  "clean_step rooted st c =
     (if c = [] \<or> c = ''.'' then st
      else if c = ''..'' then
        (case st of
           [] \<Rightarrow> if rooted then st else c # st
         | x # xs \<Rightarrow> if x = ''..'' then c # st else xs)
      else c # st)"

definition clean_elems :: "string \<Rightarrow> string list" where
  "clean_elems p = rev (foldl (clean_step (hd p = slash)) [] (split_on slash p))"

definition path_Clean :: "string \<Rightarrow> string" where
  "path_Clean p =
     (if p = [] then ''.''
      else let body = join_with ''/'' (clean_elems p)
           in if hd p = slash then slash # body else if body = [] then ''.'' else body)"

definition path_Join :: "string \<Rightarrow> string \<Rightarrow> string" where
  "path_Join dir b =
     (if dir \<noteq> [] then path_Clean (dir @ ''/'' @ b)
      else if b \<noteq> [] then path_Clean b else [])"

text \<open>An ordinary file name: one path element that is not a dot entry.\<close>

definition ordinary :: "string \<Rightarrow> bool" where
  "ordinary b \<longleftrightarrow> b \<noteq> [] \<and> b \<noteq> ''.'' \<and> b \<noteq> ''..'' \<and> slash \<notin> set b"

definition dir_prefix :: "string \<Rightarrow> string" where
  "dir_prefix dir =
     (if hd dir = slash then ''/'' else []) @
     (if clean_elems dir = [] then [] else join_with ''/'' (clean_elems dir) @ ''/'')"

lemma split_on_snoc: "c \<notin> set b \<Longrightarrow> split_on c (s @ c # b) = split_on c s @ [b]"
  by (induction s) (auto simp: split_on_free split: list.splits)

lemma join_with_snoc: "xs \<noteq> [] \<Longrightarrow> join_with sep (xs @ [b]) = join_with sep xs @ sep @ b"
  by (induction xs rule: induct_list012) auto

lemma clean_elems_snoc:
  assumes "dir \<noteq> []" "ordinary b"
  shows "clean_elems (dir @ slash # b) = clean_elems dir @ [b]"
  using assms by (simp add: clean_elems_def split_on_snoc ordinary_def clean_step_def)

lemma path_Join_ordinary:
  assumes "dir \<noteq> []" "ordinary b"
  shows "path_Join dir b = dir_prefix dir @ b"
proof -
  have "b \<noteq> []" using assms(2) by (simp add: ordinary_def)
  moreover have "hd (dir @ slash # b) = hd dir" using assms(1) by simp
  ultimately show ?thesis using assms
    by (simp add: path_Join_def path_Clean_def clean_elems_snoc dir_prefix_def Let_def join_with_snoc)
qed

lemma path_Join_inj:
  assumes "dir \<noteq> []" "ordinary b" "ordinary b'"
  shows "path_Join dir b = path_Join dir b' \<longleftrightarrow> b = b'"
  using assms by (simp add: path_Join_ordinary)

lemma dropWhile_rev_last:
  "dropWhile (\<lambda>c. c = slash) xs = y # ys \<Longrightarrow> y \<noteq> slash"
  by (metis (full_types) hd_dropWhile list.distinct(1) list.sel(1))

text \<open>The base name is a single element, except for a path of slashes only.\<close>

lemma path_Base_cases: "path_Base p = ''/'' \<or> (path_Base p \<noteq> [] \<and> slash \<notin> set (path_Base p))"
proof -
  have "slash \<notin> set (rev (takeWhile (\<lambda>c. c \<noteq> slash) xs))" for xs
    by (auto dest: set_takeWhileD)
  then show ?thesis by (auto simp: path_Base_def Let_def)
qed

lemma path_Base_ordinary: "ordinary b \<Longrightarrow> path_Base b = b"
proof -
  assume b: "ordinary b"
  then have no: "slash \<notin> set (rev b)" by (simp add: ordinary_def)
  then have "dropWhile (\<lambda>c. c = slash) (rev b) = rev b"
    by (cases "rev b") auto
  moreover have "takeWhile (\<lambda>c. c \<noteq> slash) (rev b) = rev b"
    using no by (auto simp: takeWhile_eq_all_conv)
  ultimately show ?thesis using b
    by (simp add: path_Base_def ordinary_def Let_def del: takeWhile_eq_all_conv)
qed

lemma path_Base_not_ordinary:
  "\<not> ordinary (path_Base p) \<longleftrightarrow> path_Base p \<in> {''.'', ''..'', ''/''}"
  using path_Base_cases [of p] by (auto simp: ordinary_def)

end
