(* ===== verification/Os_Files.thy ===== *)
theory Os_Files
  imports Go_Strings "HOL-Library.AList" "HOL-Library.List_Lexorder" "HOL-Library.Char_ord"
begin

text \<open>
  The operating system's files as the program uses them through Go's \<open>os\<close> package. A disk is
  an association list from cleaned paths to nodes, so that directories can be listed. Calls
  whose failure the disk does not determine (permissions, a full disk, a missing parent) take
  a fault oracle: \<open>flt call path = Some e\<close> makes that call fail with text \<open>e\<close>. A theorem that
  holds for every \<open>flt\<close> covers every such failure; \<open>no_faults\<close> is the healthy system.
\<close>

datatype fnode = FDir | FFile bytes

type_synonym disk = "(string \<times> fnode) list"

datatype oscall = OsStat | OsCreate | OsWrite nat | OsRename | OsRemove | OsOpen | OsRead nat
  | OsReadDir | OsMkdirAll | OsWriteFile

type_synonym faults = "oscall \<Rightarrow> string \<Rightarrow> string option"

definition no_faults :: faults where
  "no_faults c p = None"

definition os_error :: "string \<Rightarrow> string \<Rightarrow> string \<Rightarrow> string" where
  "os_error call p reason = call @ '' '' @ p @ '': '' @ reason"

datatype stat = StatOk | StatNotExist | StatErr

definition os_Stat :: "faults \<Rightarrow> string \<Rightarrow> disk \<Rightarrow> stat" where
  "os_Stat flt p d =
     (case flt OsStat p of
        Some e \<Rightarrow> StatErr
      | None \<Rightarrow> if map_of d p = None then StatNotExist else StatOk)"

text \<open>\<open>os.Create\<close>: an empty file at \<open>p\<close>, truncating an existing one.\<close>

definition os_Create :: "faults \<Rightarrow> string \<Rightarrow> disk \<Rightarrow> disk res" where
  "os_Create flt p d =
     (case flt OsCreate p of
        Some e \<Rightarrow> Inl (os_error ''open'' p e)
      | None \<Rightarrow>
          if map_of d p = Some FDir then Inl (os_error ''open'' p ''is a directory'')
          else Inr (AList.update p (FFile []) d))"

definition file_data :: "disk \<Rightarrow> string \<Rightarrow> bytes" where
  "file_data d p = (case map_of d p of Some (FFile b) \<Rightarrow> b | _ \<Rightarrow> [])"

text \<open>The \<open>k\<close>-th sequential write to a file opened by \<open>os.Create\<close>.\<close>

definition os_Write :: "faults \<Rightarrow> nat \<Rightarrow> string \<Rightarrow> bytes \<Rightarrow> disk \<Rightarrow> disk res" where
  "os_Write flt k p b d =
     (case flt (OsWrite k) p of
        Some e \<Rightarrow> Inl (os_error ''write'' p e)
      | None \<Rightarrow> Inr (AList.update p (FFile (file_data d p @ b)) d))"

definition os_Rename :: "faults \<Rightarrow> string \<Rightarrow> string \<Rightarrow> disk \<Rightarrow> disk res" where
  "os_Rename flt old new d =
     (case flt OsRename old of
        Some e \<Rightarrow> Inl (os_error ''rename'' old e)
      | None \<Rightarrow>
          (case map_of d old of
             None \<Rightarrow> Inl (os_error ''rename'' old ''no such file or directory'')
           | Some node \<Rightarrow>
               if map_of d new = Some FDir then Inl (os_error ''rename'' old ''file exists'')
               else Inr (AList.update new node (AList.delete old d))))"

text \<open>\<open>os.Remove\<close>: files and empty directories. \<open>IsNotExist\<close> is the first component.\<close>

definition dir_children :: "disk \<Rightarrow> string \<Rightarrow> string list" where
  "dir_children d dir =
     filter (\<lambda>n. n \<noteq> [] \<and> slash \<notin> set n)
       (map (drop (length (dir_prefix dir)))
         (filter (\<lambda>k. take (length (dir_prefix dir)) k = dir_prefix dir) (map fst d)))"

definition os_Remove :: "faults \<Rightarrow> string \<Rightarrow> disk \<Rightarrow> (bool \<times> string) + disk" where
  "os_Remove flt p d =
     (case flt OsRemove p of
        Some e \<Rightarrow> Inl (False, os_error ''remove'' p e)
      | None \<Rightarrow>
          (case map_of d p of
             None \<Rightarrow> Inl (True, os_error ''remove'' p ''no such file or directory'')
           | Some FDir \<Rightarrow>
               if dir_children d p \<noteq> [] then Inl (False, os_error ''remove'' p ''directory not empty'')
               else Inr (AList.delete p d)
           | Some (FFile b) \<Rightarrow> Inr (AList.delete p d)))"

text \<open>Calls of \<open>os.Remove\<close> and \<open>os.WriteFile\<close> whose error the program drops.\<close>

definition rm :: "faults \<Rightarrow> string \<Rightarrow> disk \<Rightarrow> disk" where
  "rm flt p d = (case os_Remove flt p d of Inl e \<Rightarrow> d | Inr d' \<Rightarrow> d')"

definition os_WriteFile :: "faults \<Rightarrow> string \<Rightarrow> bytes \<Rightarrow> disk \<Rightarrow> disk res" where
  "os_WriteFile flt p b d =
     (case flt OsWriteFile p of
        Some e \<Rightarrow> Inl (os_error ''open'' p e)
      | None \<Rightarrow>
          if map_of d p = Some FDir then Inl (os_error ''open'' p ''is a directory'')
          else Inr (AList.update p (FFile b) d))"

text \<open>\<open>os.Open\<close> for reading; the descriptor is the node at the time of opening.\<close>

definition os_Open :: "faults \<Rightarrow> string \<Rightarrow> disk \<Rightarrow> fnode res" where
  "os_Open flt p d =
     (case flt OsOpen p of
        Some e \<Rightarrow> Inl (os_error ''open'' p e)
      | None \<Rightarrow>
          (case map_of d p of
             None \<Rightarrow> Inl (os_error ''open'' p ''no such file or directory'')
           | Some node \<Rightarrow> Inr node))"

text \<open>
  The read loop \<open>for \{ n, err := f.Read(buf); ... \}\<close> over a regular file fills the buffer on
  every read but the last: the pieces are the chunks of the content. The error, if any,
  comes after the chunks read so far; a directory yields an error on the first read.
\<close>

function chunks_of :: "nat \<Rightarrow> bytes \<Rightarrow> bytes list" where
  "chunks_of n b = (if b = [] \<or> n = 0 then [] else take n b # chunks_of n (drop n b))"
  by pat_completeness auto
termination
  by (relation "measure (\<lambda>(n, b). length b)") auto

declare chunks_of.simps [simp del]

fun read_upto :: "faults \<Rightarrow> string \<Rightarrow> nat \<Rightarrow> bytes list \<Rightarrow> bytes list \<times> string option" where
  "read_upto flt p k [] =
     (case flt (OsRead k) p of Some e \<Rightarrow> ([], Some (os_error ''read'' p e)) | None \<Rightarrow> ([], None))"
| "read_upto flt p k (c # cs) =
     (case flt (OsRead k) p of
        Some e \<Rightarrow> ([], Some (os_error ''read'' p e))
      | None \<Rightarrow> (case read_upto flt p (Suc k) cs of (bs, e) \<Rightarrow> (c # bs, e)))"

definition read_chunks :: "faults \<Rightarrow> nat \<Rightarrow> string \<Rightarrow> fnode \<Rightarrow> bytes list \<times> string option" where
  "read_chunks flt n p node =
     (case node of
        FDir \<Rightarrow> ([], Some (os_error ''read'' p ''is a directory''))
      | FFile b \<Rightarrow> read_upto flt p 0 (chunks_of n b))"

text \<open>\<open>os.ReadDir\<close>: the entries sorted by name, with whether each is a directory.\<close>

definition os_ReadDir :: "faults \<Rightarrow> string \<Rightarrow> disk \<Rightarrow> (bool \<times> string) + (string \<times> bool) list" where
  "os_ReadDir flt dir d =
     (case flt OsReadDir dir of
        Some e \<Rightarrow> Inl (False, os_error ''open'' dir e)
      | None \<Rightarrow>
          (case map_of d (path_Clean dir) of
             Some FDir \<Rightarrow>
               Inr (map (\<lambda>n. (n, map_of d (dir_prefix dir @ n) = Some FDir))
                 (sort (dir_children d dir)))
           | Some (FFile b) \<Rightarrow> Inl (False, os_error ''readdir'' dir ''not a directory'')
           | None \<Rightarrow> Inl (True, os_error ''open'' dir ''no such file or directory'')))"

definition os_MkdirAll :: "faults \<Rightarrow> string \<Rightarrow> disk \<Rightarrow> disk res" where
  "os_MkdirAll flt dir d =
     (case flt OsMkdirAll dir of
        Some e \<Rightarrow> Inl (os_error ''mkdir'' dir e)
      | None \<Rightarrow>
          (case map_of d (path_Clean dir) of
             Some (FFile b) \<Rightarrow> Inl (os_error ''mkdir'' dir ''not a directory'')
           | Some FDir \<Rightarrow> Inr d
           | None \<Rightarrow> Inr (AList.update (path_Clean dir) FDir d)))"

section \<open>Lemmas\<close>

named_theorems os_simps \<open>the calls on a healthy system\<close>

lemma no_faults [simp]: "no_faults c p = None"
  by (simp add: no_faults_def)

lemmas disk_upd [simp] = AList.update_conv' AList.delete_conv'

lemma os_Create_ok [os_simps]:
  "map_of d p \<noteq> Some FDir \<Longrightarrow> os_Create no_faults p d = Inr (AList.update p (FFile []) d)"
  by (simp add: os_Create_def)

lemma os_Write_ok [os_simps]:
  "os_Write no_faults k p b d = Inr (AList.update p (FFile (file_data d p @ b)) d)"
  by (simp add: os_Write_def)

lemma os_Stat_ok [os_simps]:
  "os_Stat no_faults p d = (if map_of d p = None then StatNotExist else StatOk)"
  by (simp add: os_Stat_def)

lemma file_data_upd [simp]:
  "file_data (AList.update q n d) p =
     (if p = q then (case n of FFile b \<Rightarrow> b | FDir \<Rightarrow> []) else file_data d p)"
  by (simp add: file_data_def)

lemma chunks_of_Nil [simp]: "chunks_of n [] = []"
  by (simp add: chunks_of.simps)

lemma chunks_of_concat [simp]: "0 < n \<Longrightarrow> concat (chunks_of n b) = b"
proof (induction n b rule: chunks_of.induct)
  case (1 n b)
  then show ?case by (cases "b = []") (simp_all add: chunks_of.simps [of n b])
qed

lemma chunks_of_eq_Nil: "0 < n \<Longrightarrow> chunks_of n b = [] \<longleftrightarrow> b = []"
  by (simp add: chunks_of.simps [of n b])

lemma chunks_of_bounds: "c \<in> set (chunks_of n b) \<Longrightarrow> c \<noteq> [] \<and> length c \<le> n"
proof (induction n b rule: chunks_of.induct)
  case (1 n b)
  then show ?case
    by (cases "b = [] \<or> n = 0") (auto simp: chunks_of.simps [of n b])
qed

lemma read_upto_ok [os_simps]: "read_upto no_faults p k cs = (cs, None)"
  by (induction cs arbitrary: k) auto

lemma read_upto_prefix: "read_upto flt p k cs = (bs, e) \<Longrightarrow> \<exists>j. bs = take j cs"
proof (induction cs arbitrary: k bs e)
  case (Cons c cs)
  then show ?case
    by (fastforce split: option.splits prod.splits intro: exI [of _ 0] exI [of _ "Suc j" for j])
qed (auto split: option.splits)

text \<open>What each call can change: disks are compared by their contents, path by path.\<close>

definition same_except :: "string set \<Rightarrow> disk \<Rightarrow> disk \<Rightarrow> bool" where
  "same_except ps d d' \<longleftrightarrow> (\<forall>p. p \<notin> ps \<longrightarrow> map_of d' p = map_of d p)"

lemma same_except_refl [simp, intro]: "same_except ps d d"
  by (simp add: same_except_def)

lemma same_except_trans: "same_except ps d d' \<Longrightarrow> same_except ps d' d'' \<Longrightarrow> same_except ps d d''"
  by (simp add: same_except_def)

lemma same_except_mono: "same_except ps d d' \<Longrightarrow> ps \<subseteq> qs \<Longrightarrow> same_except qs d d'"
  by (auto simp: same_except_def)

lemma os_Create_Inr: "os_Create flt p d = Inr d' \<Longrightarrow> map_of d' = (map_of d)(p \<mapsto> FFile [])"
  by (auto simp: os_Create_def split: option.splits if_splits)

lemma os_Rename_Inr:
  "os_Rename flt old new d = Inr d' \<Longrightarrow>
   \<exists>node. map_of d old = Some node \<and> map_of d' = (map_of d)(old := None, new \<mapsto> node)"
  by (auto simp: os_Rename_def split: option.splits if_splits)

lemma rm_cases: "map_of (rm flt p d) = map_of d \<or> map_of (rm flt p d) = (map_of d)(p := None)"
  by (auto simp: rm_def os_Remove_def split: option.splits fnode.splits sum.splits)

lemma rm_same_except: "p \<in> ps \<Longrightarrow> same_except ps d (rm flt p d)"
  using rm_cases [of flt p d] by (auto simp: same_except_def)

lemma rm_ok [os_simps]: "map_of d p \<noteq> Some FDir \<Longrightarrow> map_of (rm no_faults p d) = (map_of d)(p := None)"
  by (auto simp: rm_def os_Remove_def split: option.splits fnode.splits)

lemma os_WriteFile_Inr: "os_WriteFile flt p b d = Inr d' \<Longrightarrow> map_of d' = (map_of d)(p \<mapsto> FFile b)"
  by (auto simp: os_WriteFile_def split: option.splits if_splits)

lemma os_Remove_Inr: "os_Remove flt p d = Inr d' \<Longrightarrow> map_of d' = (map_of d)(p := None)"
  by (auto simp: os_Remove_def split: option.splits fnode.splits if_splits)

end
