(* ===== verification/Afs_Server.thy ===== *)
theory Afs_Server
  imports Os_Files
begin

text \<open>
  \<open>afsfs/pkg/server/handler.go\<close>: the state of one server process and the RPC handlers that
  touch only that process. The handlers that write and replicate are in \<open>Afs_Replication\<close>.

  A \<open>server\<close> record holds the fields of \<open>Handler\<close> and the disk of the machine it runs on; the
  mutexes are left out, as every handler is one step here. The fields \<open>gr_\<close> count the
  background goroutines the process has started. A \<open>cluster\<close> maps addresses to the server
  processes that run; an address without a process refuses connections. The environment
  \<open>env\<close> says how the operating system of each server and the link to each peer behave during
  a call.

  Strings in responses are the source's texts: clients look for \<open>not primary\<close> in them.
\<close>

section \<open>Messages\<close>

record OpenRequest =
  orq_path :: string
  orq_write :: bool
  orq_client :: string
  orq_seq :: i64

record OpenResponse =
  ors_handle :: i64
  ors_error :: string

record FetchChunk =
  fch_data :: bytes
  fch_version :: i64
  fch_error :: string

record TestAuthResponse =
  tar_valid :: bool
  tar_version :: i64

record StoreChunk =
  sch_path :: string
  sch_data :: bytes
  sch_client :: string
  sch_seq :: i64

record StoreResponse =
  srs_version :: i64
  srs_error :: string

record FileRequest =
  frq_path :: string
  frq_client :: string
  frq_seq :: i64

record CreateResponse =
  crs_handle :: i64
  crs_error :: string

record ReplicateChunk =
  rch_op :: string
  rch_path :: string
  rch_version :: i64
  rch_data :: bytes

record SyncEntry =
  sye_path :: string
  sye_data :: bytes
  sye_version :: i64

text \<open>
  How an RPC ends: with a response, with a transport or stream error, or with a panic of the
  serving process (a failed type assertion on a stored response).
\<close>

datatype 'r outcome = Reply 'r | RpcError string | Panic

datatype saved = SavedOpen OpenResponse | SavedStore StoreResponse
  | SavedCreate CreateResponse | SavedDelete string

section \<open>State\<close>

record FileHandle =
  fh_path :: string
  fh_isWrite :: bool

record peer =
  peer_id :: string
  peer_addr :: string
  peer_failCount :: i64

record server =
  inputDir :: string
  outputDir :: string
  handles :: "i64 \<rightharpoonup> FileHandle"
  versions :: "string \<rightharpoonup> i64"
  nextHandle :: i64
  dedupTable :: "string \<rightharpoonup> saved"
  serverID :: string
  serverAddr :: string
  primary :: bool
  knownPrimaryAddr :: string
  peers :: "peer list"
  lastHeartbeat :: nat
  senderRunning :: bool
  gr_sender :: nat
  gr_monitor :: bool
  gr_sync :: nat
  disk :: disk

type_synonym cluster = "string \<rightharpoonup> server"

datatype link = LinkUp | LinkDown | LinkCut nat | LinkNoReply

record env =
  os_faults :: "string \<Rightarrow> faults"
  links :: "string \<Rightarrow> link"

definition healthy :: env where
  "healthy = \<lparr>os_faults = (\<lambda>_. no_faults), links = (\<lambda>_. LinkUp)\<rparr>"

definition chunkSize :: nat where
  "chunkSize = 1024 * 1024"

definition not_primary_msg :: string where
  "not_primary_msg = ''not primary: send writes to primary''"

section \<open>Helpers\<close>

definition dedupKey :: "string \<Rightarrow> i64 \<Rightarrow> string" where
  "dedupKey clientID reqSeq = clientID @ '':'' @ show_int reqSeq"

definition resolvePath :: "faults \<Rightarrow> server \<Rightarrow> string \<Rightarrow> string res" where
  "resolvePath flt h name =
     (let base = path_Base name
      in if base = ''.'' \<or> base = ''..'' then Inl (''invalid path '' @ name)
         else let inputPath = path_Join (inputDir h) base;
                  outputPath = path_Join (outputDir h) base
              in if os_Stat flt inputPath (disk h) = StatOk then Inr inputPath
                 else if os_Stat flt outputPath (disk h) = StatOk then Inr outputPath
                 else Inr inputPath)"

definition outPath :: "server \<Rightarrow> string \<Rightarrow> string" where
  "outPath h path = path_Join (outputDir h) (path_Base path)"

definition tmpOf :: "string \<Rightarrow> string" where
  "tmpOf fullPath = fullPath @ ''.tmp''"

text \<open>\<open>initVersion\<close>: every file of the directory starts at version 1.\<close>

definition initVersion :: "faults \<Rightarrow> string \<Rightarrow> server \<Rightarrow> server res" where
  "initVersion flt dir h =
     (case os_ReadDir flt dir (disk h) of
        Inl (notExist, e) \<Rightarrow>
          if notExist then
            (case os_MkdirAll flt dir (disk h) of Inl e \<Rightarrow> Inl e | Inr d \<Rightarrow> Inr (h\<lparr>disk := d\<rparr>))
          else Inl e
      | Inr entries \<Rightarrow>
          Inr (h\<lparr>versions := foldl (\<lambda>m (name, isDir).
                 if isDir then m else m(path_Join dir name \<mapsto> 1)) (versions h) entries\<rparr>))"

section \<open>Start of a server process\<close>

record PeerInfo =
  pi_ID :: string
  pi_Addr :: string

text \<open>
  \<open>newPeerClient\<close>: \<open>dial\<close> says which targets \<open>grpc.NewClient\<close> accepts. A target it refuses is
  skipped by \<open>NewHandler\<close>.
\<close>

definition newPeerClient :: "(string \<Rightarrow> bool) \<Rightarrow> PeerInfo \<Rightarrow> peer option" where
  "newPeerClient dial p =
     (if dial (pi_Addr p)
      then Some \<lparr>peer_id = pi_ID p, peer_addr = pi_Addr p, peer_failCount = 0\<rparr> else None)"

definition startHeartbeatSender :: "server \<Rightarrow> server" where
  "startHeartbeatSender h = h\<lparr>gr_sender := gr_sender h + 1\<rparr>"

definition startHeartbeatMonitor :: "server \<Rightarrow> server" where
  "startHeartbeatMonitor h = h\<lparr>gr_monitor := True\<rparr>"

definition startSync :: "server \<Rightarrow> server" where
  "startSync h = h\<lparr>gr_sync := gr_sync h + 1\<rparr>"

definition NewHandler ::
  "(string \<Rightarrow> bool) \<Rightarrow> faults \<Rightarrow> nat \<Rightarrow> disk \<Rightarrow> string \<Rightarrow> string \<Rightarrow> string \<Rightarrow> string \<Rightarrow>
   PeerInfo list \<Rightarrow> bool \<Rightarrow> server res" where
  "NewHandler dial flt now dsk input_dir output_dir server_id server_addr peerInfos isPrimary =
     (let h = \<lparr>inputDir = input_dir, outputDir = output_dir, handles = Map.empty,
                versions = Map.empty, nextHandle = 0, dedupTable = Map.empty,
                serverID = server_id, serverAddr = server_addr, primary = isPrimary,
                knownPrimaryAddr = (if isPrimary then server_addr else []),
                peers = List.map_filter (newPeerClient dial) peerInfos,
                lastHeartbeat = now, senderRunning = False,
                gr_sender = 0, gr_monitor = False, gr_sync = 0, disk = dsk\<rparr>
      in case initVersion flt input_dir h of
           Inl e \<Rightarrow> Inl (''scanning input dir: '' @ e)
         | Inr h \<Rightarrow>
             (case initVersion flt output_dir h of
                Inl e \<Rightarrow> Inl (''scanning output dir: '' @ e)
              | Inr h \<Rightarrow>
                  if isPrimary then Inr (startHeartbeatSender h)
                  else Inr (startSync (startHeartbeatMonitor h))))"

section \<open>Unary handlers without replication\<close>

definition rpc_Open :: "faults \<Rightarrow> OpenRequest \<Rightarrow> server \<Rightarrow> OpenResponse outcome \<times> server" where
  "rpc_Open flt req h =
     (let key = dedupKey (orq_client req) (orq_seq req)
      in case dedupTable h key of
           Some entry \<Rightarrow>
             (case entry of SavedOpen r \<Rightarrow> (Reply r, h) | _ \<Rightarrow> (Panic, h))
         | None \<Rightarrow>
             (case resolvePath flt h (orq_path req) of
                Inl e \<Rightarrow> (Reply \<lparr>ors_handle = 0, ors_error = e\<rparr>, h)
              | Inr fullPath \<Rightarrow>
                  if os_Stat flt fullPath (disk h) = StatNotExist
                  then (Reply \<lparr>ors_handle = 0, ors_error = ''file not found: '' @ orq_path req\<rparr>, h)
                  else
                    let id = i64_add (nextHandle h) 1;
                        resp = \<lparr>ors_handle = id, ors_error = []\<rparr>
                    in (Reply resp,
                        h\<lparr>nextHandle := id,
                          handles := (handles h)(id \<mapsto>
                            \<lparr>fh_path = fullPath, fh_isWrite = orq_write req\<rparr>),
                          dedupTable := (dedupTable h)(key \<mapsto> SavedOpen resp)\<rparr>)))"

text \<open>\<open>FetchFile\<close> streams the chunks; the second component is the status of the stream.\<close>

definition rpc_FetchFile :: "faults \<Rightarrow> string \<Rightarrow> server \<Rightarrow> FetchChunk list \<times> string option" where
  "rpc_FetchFile flt path h =
     (case resolvePath flt h path of
        Inl e \<Rightarrow> ([\<lparr>fch_data = [], fch_version = 0, fch_error = e\<rparr>], None)
      | Inr fullPath \<Rightarrow>
          (case os_Open flt fullPath (disk h) of
             Inl e \<Rightarrow> ([\<lparr>fch_data = [], fch_version = 0, fch_error = ''open: '' @ e\<rparr>], None)
           | Inr f \<Rightarrow>
               let version = get0 (versions h) fullPath;
                   (bufs, readErr) = read_chunks flt chunkSize fullPath f
               in (map (\<lambda>b. \<lparr>fch_data = b, fch_version = version, fch_error = []\<rparr>) bufs, readErr)))"

definition rpc_TestAuth :: "faults \<Rightarrow> string \<Rightarrow> i64 \<Rightarrow> server \<Rightarrow> TestAuthResponse" where
  "rpc_TestAuth flt path cachedVersion h =
     (case resolvePath flt h path of
        Inl e \<Rightarrow> \<lparr>tar_valid = False, tar_version = 0\<rparr>
      | Inr fullPath \<Rightarrow>
          let currentVersion = get0 (versions h) fullPath
          in \<lparr>tar_valid = (currentVersion = cachedVersion), tar_version = currentVersion\<rparr>)"

definition rpc_CloseFile :: "i64 \<Rightarrow> server \<Rightarrow> string \<times> server" where
  "rpc_CloseFile hid h =
     (if handles h hid = None then (''unknown handle: '' @ show_int hid, h)
      else ([], h\<lparr>handles := (handles h)(hid := None)\<rparr>))"

section \<open>Streams to the temporary file\<close>

text \<open>
  Both \<open>StoreFile\<close> and \<open>Replicate\<close> append each non-empty chunk to the temporary file. The
  result is the error with the disk at that point, or the disk after all chunks.
\<close>

fun write_chunks :: "faults \<Rightarrow> nat \<Rightarrow> string \<Rightarrow> bytes list \<Rightarrow> disk \<Rightarrow> (string \<times> disk) + disk" where
  "write_chunks flt k p [] d = Inr d"
| "write_chunks flt k p (b # bs) d =
     (if b = [] then write_chunks flt k p bs d
      else case os_Write flt k p b d of
             Inl e \<Rightarrow> Inl (e, d)
           | Inr d' \<Rightarrow> write_chunks flt (Suc k) p bs d')"

text \<open>What a receiver sees of a client stream: chunks, then end of stream or an error.\<close>

type_synonym 'c recv = "'c list \<times> string option"

definition rpc_Replicate ::
  "faults \<Rightarrow> ReplicateChunk recv \<Rightarrow> server \<Rightarrow> string outcome \<times> server" where
  "rpc_Replicate flt strm h =
     (case strm of
        ([], Some e) \<Rightarrow> (RpcError e, h)
      | ([], None) \<Rightarrow> (Reply [], h)
      | (c # cs, rerr) \<Rightarrow>
          let fp = outPath h (rch_path c)
          in if rch_op c = ''delete'' then
               (Reply [], h\<lparr>disk := rm flt fp (disk h), versions := (versions h)(fp := None)\<rparr>)
             else if rch_op c = ''create'' then
               (Reply [],
                h\<lparr>disk := (case os_WriteFile flt fp [] (disk h) of Inl e \<Rightarrow> disk h | Inr d \<Rightarrow> d),
                  versions := (versions h)(fp \<mapsto> rch_version c)\<rparr>)
             else
               (case os_Create flt (tmpOf fp) (disk h) of
                  Inl e \<Rightarrow> (Reply (''create tmp: '' @ e), h)
                | Inr d0 \<Rightarrow>
                    (case write_chunks flt 0 (tmpOf fp) (map rch_data (c # cs)) d0 of
                       Inl (e, d1) \<Rightarrow>
                         (Reply (''write chunk: '' @ e), h\<lparr>disk := rm flt (tmpOf fp) d1\<rparr>)
                     | Inr d1 \<Rightarrow>
                         (case rerr of
                            Some e \<Rightarrow> (RpcError e, h\<lparr>disk := rm flt (tmpOf fp) d1\<rparr>)
                          | None \<Rightarrow>
                              (case os_Rename flt (tmpOf fp) fp d1 of
                                 Inl e \<Rightarrow>
                                   (Reply (''rename: '' @ e), h\<lparr>disk := rm flt (tmpOf fp) d1\<rparr>)
                               | Inr d2 \<Rightarrow>
                                   (Reply [],
                                    h\<lparr>disk := d2,
                                      versions := (versions h)(fp \<mapsto> rch_version c)\<rparr>))))))"

section \<open>Lemmas on one server\<close>

lemma append_colon_inj:
  assumes "CHR '':'' \<notin> set y" "CHR '':'' \<notin> set y'"
  shows "x @ '':'' @ y = x' @ '':'' @ y' \<longleftrightarrow> x = x' \<and> y = y'"
proof -
  have "takeWhile (\<lambda>c. c \<noteq> CHR '':'') (rev (x @ '':'' @ y)) = rev y"
    if "CHR '':'' \<notin> set y" for x y
    using that by (simp add: takeWhile_append)
  then show ?thesis using assms by (metis append_same_eq rev_is_rev_conv same_append_eq append_assoc)
qed

lemma dedupKey_eq_iff: "dedupKey c s = dedupKey c' s' \<longleftrightarrow> c = c' \<and> s = s'"
  by (simp add: dedupKey_def append_colon_inj [OF show_int_no_colon show_int_no_colon, simplified]
      show_int_inj)

lemma write_chunks_Inr:
  "write_chunks flt k p bs d = Inr d' \<Longrightarrow> map_of d p = Some (FFile x) \<Longrightarrow>
   map_of d' = (map_of d)(p \<mapsto> FFile (x @ concat bs))"
proof (induction flt k p bs d arbitrary: x rule: write_chunks.induct)
  case (2 flt k p b bs d)
  show ?case
  proof (cases "b = []")
    case False
    then obtain d1 where w: "os_Write flt k p b d = Inr d1" "write_chunks flt (Suc k) p bs d1 = Inr d'"
      using 2(3) by (auto split: sum.splits)
    have d1: "map_of d1 = (map_of d)(p \<mapsto> FFile (x @ b))"
      using w(1) 2(4) by (auto simp: os_Write_def file_data_def split: option.splits)
    then show ?thesis using 2(2) [OF False w(1,2), of "x @ b"] by (auto simp: fun_eq_iff)
  qed (use 2 in simp)
qed auto

lemma write_chunks_Inl:
  "write_chunks flt k p bs d = Inl (e, d') \<Longrightarrow> same_except {p} d d'"
proof (induction flt k p bs d rule: write_chunks.induct)
  case (2 flt k p b bs d)
  show ?case
  proof (cases "b = [] \<or> (\<exists>e. os_Write flt k p b d = Inl e)")
    case False
    then obtain d1 where w: "os_Write flt k p b d = Inr d1" "b \<noteq> []"
      by (cases "os_Write flt k p b d") auto
    then have "same_except {p} d d1"
      by (auto simp: os_Write_def same_except_def split: option.splits)
    moreover have "same_except {p} d1 d'"
      using 2(2) [OF w(2,1)] 2(3) w by simp
    ultimately show ?thesis by (rule same_except_trans)
  qed (use 2 in \<open>auto split: if_splits\<close>)
qed simp

lemma write_chunks_ok [os_simps]: "\<exists>d'. write_chunks no_faults k p bs d = Inr d'"
  by (induction bs arbitrary: k d) (auto simp: os_simps)

text \<open>\<open>Replicate\<close> changes the disk and the version table of its server and nothing else.\<close>

definition frame_disk :: "server \<Rightarrow> server \<Rightarrow> bool" where
  "frame_disk h h' \<longleftrightarrow> (\<exists>d v. h' = h\<lparr>disk := d, versions := v\<rparr>)"

lemma frame_disk_upd [simp]: "frame_disk h (h\<lparr>disk := d, versions := v\<rparr>)"
  by (auto simp: frame_disk_def)

lemma frame_disk_refl [simp]: "frame_disk h h"
  using frame_disk_upd [where h = h and d = "disk h" and v = "versions h"] by simp

lemma frame_disk_upd1 [simp]: "frame_disk h (h\<lparr>disk := d\<rparr>)"
  using frame_disk_upd [where h = h and d = d and v = "versions h"] by simp

lemma frame_disk_trans: "frame_disk h h' \<Longrightarrow> frame_disk h' h'' \<Longrightarrow> frame_disk h h''"
  by (auto simp: frame_disk_def) blast

lemma frame_disk_sel:
  assumes "frame_disk h h'"
  shows "primary h' = primary h" "dedupTable h' = dedupTable h" "peers h' = peers h"
    "outputDir h' = outputDir h" "inputDir h' = inputDir h" "serverAddr h' = serverAddr h"
    "serverID h' = serverID h" "handles h' = handles h" "nextHandle h' = nextHandle h"
    "knownPrimaryAddr h' = knownPrimaryAddr h"
  using assms by (auto simp: frame_disk_def)

lemma rpc_Replicate_frame: "frame_disk h (snd (rpc_Replicate flt strm h))"
  by (simp add: rpc_Replicate_def Let_def split: prod.splits list.splits option.splits sum.splits)

section \<open>Requests that are delivered more than once\<close>

text \<open>
  The contract that every mutating handler has with its clients, who resend a request until
  they see an answer: once a request has succeeded, delivering it again changes nothing and
  returns the same response. \<open>e\<close> is the environment of one delivery.
\<close>

locale replay =
  fixes handler :: "'e \<Rightarrow> 'q \<Rightarrow> 's \<Rightarrow> 'r outcome \<times> 's"
    and saved_for :: "'q \<Rightarrow> 's \<Rightarrow> 'r option"
    and ready :: "'s \<Rightarrow> bool"
    and success :: "'r \<Rightarrow> bool"
  assumes hit: "ready s \<Longrightarrow> saved_for q s = Some r \<Longrightarrow> handler e q s = (Reply r, s)"
    and remember: "handler e q s = (Reply r, s') \<Longrightarrow> success r \<Longrightarrow> ready s' \<and> saved_for q s' = Some r"
begin

lemma again:
  "handler e q s = (Reply r, s') \<Longrightarrow> success r \<Longrightarrow> handler e' q s' = (Reply r, s')"
  using hit remember by blast

lemma again_many:
  assumes "handler e q s = (Reply r, s')" "success r"
  shows "foldl (\<lambda>(x, t) e. handler e q t) (Reply r, s') es = (Reply r, s')"
  by (induction es) (simp_all add: again [OF assms])

end

definition saved_open :: "OpenRequest \<Rightarrow> server \<Rightarrow> OpenResponse option" where
  "saved_open q h =
     (case dedupTable h (dedupKey (orq_client q) (orq_seq q)) of
        Some (SavedOpen r) \<Rightarrow> Some r | _ \<Rightarrow> None)"

interpretation open_replay: replay rpc_Open saved_open "\<lambda>_. True" "\<lambda>r. ors_error r = []"
proof unfold_locales
  fix flt q h r h'
  assume "rpc_Open flt q h = (Reply r, h')" "ors_error r = []"
  then show "True \<and> saved_open q h' = Some r"
    by (auto simp: rpc_Open_def saved_open_def resolvePath_def Let_def
        split: option.splits saved.splits sum.splits if_splits)
qed (auto simp: rpc_Open_def saved_open_def split: option.splits saved.splits)

section \<open>The deployment of docker-compose.yml\<close>

text \<open>
  Three servers with empty directories, \<open>s1\<close> started as primary: the instance on which
  theorems are exercised.
\<close>

definition compose_disk :: disk where
  "compose_disk = [(''/data/input'', FDir), (''/data/output'', FDir)]"

definition compose_peers :: "(string \<times> string) list" where
  "compose_peers = [(''s1'', ''s1:50051''), (''s2'', ''s2:50052''), (''s3'', ''s3:50053'')]"

definition compose_server :: "disk \<Rightarrow> string \<Rightarrow> string \<Rightarrow> bool \<Rightarrow> server" where
  "compose_server d sid addr isPrimary =
     \<lparr>inputDir = ''/data/input'', outputDir = ''/data/output'', handles = Map.empty,
      versions = Map.empty, nextHandle = 0, dedupTable = Map.empty,
      serverID = sid, serverAddr = addr, primary = isPrimary,
      knownPrimaryAddr = (if isPrimary then addr else []),
      peers = map (\<lambda>(i, p). \<lparr>peer_id = i, peer_addr = p, peer_failCount = 0\<rparr>)
        (filter (\<lambda>(i, p). i \<noteq> sid) compose_peers),
      lastHeartbeat = 0, senderRunning = False,
      gr_sender = (if isPrimary then 1 else 0), gr_monitor = (\<not> isPrimary),
      gr_sync = (if isPrimary then 0 else 1), disk = d\<rparr>"

lemma NewHandler_compose:
  assumes "sid \<in> {''s1'', ''s2'', ''s3''}"
  shows "NewHandler (\<lambda>_. True) no_faults 0 compose_disk ''/data/input'' ''/data/output'' sid addr
      (map (\<lambda>(i, p). \<lparr>pi_ID = i, pi_Addr = p\<rparr>) (filter (\<lambda>(i, p). i \<noteq> sid) compose_peers)) isPrimary =
    Inr (compose_server compose_disk sid addr isPrimary)"
proof -
  have dirs: "os_ReadDir no_faults ''/data/input'' compose_disk = Inr []"
    "os_ReadDir no_faults ''/data/output'' compose_disk = Inr []"
    by code_simp+
  show ?thesis using assms
    by (auto simp: NewHandler_def initVersion_def dirs compose_server_def startHeartbeatSender_def
        startSync_def startHeartbeatMonitor_def newPeerClient_def map_filter_def compose_peers_def)
qed

end
