(* ===== verification/Afs_Replication.thy ===== *)
theory Afs_Replication
  imports Afs_Server
begin

text \<open>
  The handlers of \<open>afsfs/pkg/server/handler.go\<close> that write (\<open>StoreFile\<close>, \<open>CreateFile\<close>,
  \<open>DeleteFile\<close>) and \<open>replication.go\<close>, the synchronous copy of a write to the peers. They act on
  the whole cluster: the process at address \<open>a\<close> serves the call and calls \<open>Replicate\<close> on its
  peers.
\<close>

section \<open>Replication to the peers\<close>

text \<open>One \<open>Replicate\<close> call over the link to \<open>addr\<close>.\<close>

definition call_Replicate ::
  "env \<Rightarrow> string \<Rightarrow> ReplicateChunk recv \<Rightarrow> cluster \<Rightarrow> string outcome \<times> cluster" where
  "call_Replicate env addr strm cl =
     (case cl addr of
        None \<Rightarrow> (RpcError ''connection refused'', cl)
      | Some h \<Rightarrow>
          let flt = os_faults env addr
          in (case links env addr of
               LinkDown \<Rightarrow> (RpcError ''unavailable'', cl)
             | LinkCut k \<Rightarrow>
                 (RpcError ''transport is closing'',
                  cl(addr \<mapsto> snd (rpc_Replicate flt
                       (take k (fst strm), Some ''transport is closing'') h)))
             | LinkNoReply \<Rightarrow>
                 (RpcError ''transport is closing'', cl(addr \<mapsto> snd (rpc_Replicate flt strm h)))
             | LinkUp \<Rightarrow>
                 (case rpc_Replicate flt strm h of (r, h') \<Rightarrow> (r, cl(addr \<mapsto> h')))))"

definition replicate_stream :: "string \<Rightarrow> string \<Rightarrow> i64 \<Rightarrow> bytes list \<Rightarrow> ReplicateChunk list" where
  "replicate_stream op path version bufs =
     (case bufs of
        [] \<Rightarrow> []
      | b # bs \<Rightarrow>
          \<lparr>rch_op = op, rch_path = path, rch_version = version, rch_data = b\<rparr> #
          map (\<lambda>b. \<lparr>rch_op = [], rch_path = [], rch_version = 0, rch_data = b\<rparr>) bs)"

definition replicate_result :: "string \<Rightarrow> string outcome \<Rightarrow> string option" where
  "replicate_result ctx r =
     (case r of
        RpcError e \<Rightarrow> Some (ctx @ e)
      | Panic \<Rightarrow> Some ctx
      | Reply e \<Rightarrow> if e \<noteq> [] then Some (''replicate error: '' @ e) else None)"

definition replicateStreamToPeer ::
  "env \<Rightarrow> string \<Rightarrow> string \<Rightarrow> string \<Rightarrow> string \<Rightarrow> i64 \<Rightarrow> cluster \<Rightarrow> string \<Rightarrow> string option \<times> cluster" where
  "replicateStreamToPeer env src op path fullPath version cl addr =
     (if op = ''delete'' \<or> op = ''create'' then
        (case call_Replicate env addr
            ([\<lparr>rch_op = op, rch_path = path, rch_version = version, rch_data = []\<rparr>], None) cl of
           (r, cl') \<Rightarrow> (replicate_result [] r, cl'))
      else
        (case cl src of
           None \<Rightarrow> (Some ''no such process'', cl)
         | Some h \<Rightarrow>
             (case os_Open (os_faults env src) fullPath (disk h) of
                Inl e \<Rightarrow> (Some (''open for replication: '' @ e), cl)
              | Inr f \<Rightarrow>
                  (case read_chunks (os_faults env src) chunkSize fullPath f of
                     (bufs, Some readErr) \<Rightarrow>
                       (Some readErr,
                        snd (call_Replicate env addr
                          (replicate_stream op path version bufs, Some ''context canceled'') cl))
                   | (bufs, None) \<Rightarrow>
                       (case call_Replicate env addr
                           (replicate_stream op path version bufs, None) cl of
                          (r, cl') \<Rightarrow> (replicate_result ''CloseAndRecv: '' r, cl'))))))"

text \<open>
  The source starts one goroutine per peer and waits for all of them; each touches only its
  own peer, so they are run in turn here. Errors are logged and dropped.
\<close>

definition replicateStreamToAll ::
  "env \<Rightarrow> string \<Rightarrow> string \<Rightarrow> string \<Rightarrow> string \<Rightarrow> i64 \<Rightarrow> cluster \<Rightarrow> cluster" where
  "replicateStreamToAll env src op path fullPath version cl =
     (case cl src of
        None \<Rightarrow> cl
      | Some h \<Rightarrow>
          foldl (\<lambda>cl p. snd (replicateStreamToPeer env src op path fullPath version cl (peer_addr p)))
            cl (peers h))"

section \<open>Handlers that write\<close>

text \<open>Applied to the server process at \<open>a\<close> after the replication has returned.\<close>

definition at_server :: "string \<Rightarrow> (server \<Rightarrow> server) \<Rightarrow> cluster \<Rightarrow> cluster" where
  "at_server a f cl = (case cl a of None \<Rightarrow> cl | Some h \<Rightarrow> cl(a \<mapsto> f h))"

definition save_response :: "string \<Rightarrow> saved \<Rightarrow> server \<Rightarrow> server" where
  "save_response key r h = h\<lparr>dedupTable := (dedupTable h)(key \<mapsto> r)\<rparr>"

definition store_error :: "string \<Rightarrow> StoreResponse" where
  "store_error e = \<lparr>srs_version = 0, srs_error = e\<rparr>"

text \<open>The part of \<open>StoreFile\<close> up to the rename, for a stream that has a first chunk.\<close>

definition store_to_disk ::
  "faults \<Rightarrow> string \<Rightarrow> bytes list \<Rightarrow> string option \<Rightarrow> disk \<Rightarrow> (StoreResponse outcome \<times> disk) + disk" where
  "store_to_disk flt fullPath bufs rerr d =
     (let tmpPath = tmpOf fullPath
      in case os_Create flt tmpPath d of
           Inl e \<Rightarrow> Inl (Reply (store_error (''creating tmp: '' @ e)), d)
         | Inr d0 \<Rightarrow>
             (case write_chunks flt 0 tmpPath bufs d0 of
                Inl (e, d1) \<Rightarrow>
                  Inl (Reply (store_error (''writing chunk: '' @ e)), rm flt tmpPath d1)
              | Inr d1 \<Rightarrow>
                  (case rerr of
                     Some e \<Rightarrow> Inl (RpcError e, rm flt tmpPath d1)
                   | None \<Rightarrow>
                       (case os_Rename flt tmpPath fullPath d1 of
                          Inl e \<Rightarrow> Inl (Reply (store_error (''rename: '' @ e)), rm flt tmpPath d1)
                        | Inr d2 \<Rightarrow> Inr d2))))"

definition rpc_StoreFile ::
  "env \<Rightarrow> string \<Rightarrow> StoreChunk recv \<Rightarrow> cluster \<Rightarrow> StoreResponse outcome \<times> cluster" where
  "rpc_StoreFile env a strm cl =
     (case cl a of
        None \<Rightarrow> (RpcError ''connection refused'', cl)
      | Some h \<Rightarrow>
          if \<not> primary h then (Reply (store_error not_primary_msg), cl)
          else (case strm of
            ([], Some e) \<Rightarrow> (RpcError e, cl)
          | ([], None) \<Rightarrow> (Reply (store_error ''no data received''), cl)
          | (c # cs, rerr) \<Rightarrow>
              let key = dedupKey (sch_client c) (sch_seq c);
                  fullPath = outPath h (sch_path c)
              in (case dedupTable h key of
                   Some (SavedStore r) \<Rightarrow> (Reply r, cl)
                 | Some _ \<Rightarrow> (Panic, cl)
                 | None \<Rightarrow>
                     (case store_to_disk (os_faults env a) fullPath (map sch_data (c # cs)) rerr
                         (disk h) of
                        Inl (r, d) \<Rightarrow> (r, cl(a \<mapsto> h\<lparr>disk := d\<rparr>))
                      | Inr d \<Rightarrow>
                          let newVersion = i64_add (get0 (versions h) fullPath) 1;
                              cl1 = cl(a \<mapsto> h\<lparr>disk := d,
                                versions := (versions h)(fullPath \<mapsto> newVersion)\<rparr>);
                              cl2 = replicateStreamToAll env a ''store'' (sch_path c) fullPath
                                newVersion cl1;
                              resp = \<lparr>srs_version = newVersion, srs_error = []\<rparr>
                          in (Reply resp, at_server a (save_response key (SavedStore resp)) cl2)))))"

definition rpc_CreateFile ::
  "env \<Rightarrow> string \<Rightarrow> FileRequest \<Rightarrow> cluster \<Rightarrow> CreateResponse outcome \<times> cluster" where
  "rpc_CreateFile env a req cl =
     (case cl a of
        None \<Rightarrow> (RpcError ''connection refused'', cl)
      | Some h \<Rightarrow>
          if \<not> primary h then (Reply \<lparr>crs_handle = 0, crs_error = not_primary_msg\<rparr>, cl)
          else
            let key = dedupKey (frq_client req) (frq_seq req);
                fullPath = outPath h (frq_path req);
                flt = os_faults env a
            in (case dedupTable h key of
                 Some (SavedCreate r) \<Rightarrow> (Reply r, cl)
               | Some _ \<Rightarrow> (Panic, cl)
               | None \<Rightarrow>
                   if os_Stat flt fullPath (disk h) = StatOk then
                     (Reply \<lparr>crs_handle = 0,
                        crs_error = ''file already exists: '' @ frq_path req\<rparr>, cl)
                   else
                     (case os_Create flt fullPath (disk h) of
                        Inl e \<Rightarrow> (Reply \<lparr>crs_handle = 0, crs_error = ''creating file: '' @ e\<rparr>, cl)
                      | Inr d \<Rightarrow>
                          let id = i64_add (nextHandle h) 1;
                              cl1 = cl(a \<mapsto> h\<lparr>disk := d,
                                versions := (versions h)(fullPath \<mapsto> 1),
                                nextHandle := id,
                                handles := (handles h)(id \<mapsto>
                                  \<lparr>fh_path = fullPath, fh_isWrite = True\<rparr>)\<rparr>);
                              cl2 = replicateStreamToAll env a ''create'' (frq_path req) fullPath 1 cl1;
                              resp = \<lparr>crs_handle = id, crs_error = []\<rparr>
                          in (Reply resp, at_server a (save_response key (SavedCreate resp)) cl2))))"

text \<open>The response of \<open>DeleteFile\<close> is its error text.\<close>

definition rpc_DeleteFile ::
  "env \<Rightarrow> string \<Rightarrow> FileRequest \<Rightarrow> cluster \<Rightarrow> string outcome \<times> cluster" where
  "rpc_DeleteFile env a req cl =
     (case cl a of
        None \<Rightarrow> (RpcError ''connection refused'', cl)
      | Some h \<Rightarrow>
          if \<not> primary h then (Reply not_primary_msg, cl)
          else
            let key = dedupKey (frq_client req) (frq_seq req);
                fullPath = outPath h (frq_path req)
            in (case dedupTable h key of
                 Some (SavedDelete r) \<Rightarrow> (Reply r, cl)
               | Some _ \<Rightarrow> (Panic, cl)
               | None \<Rightarrow>
                   let removed = os_Remove (os_faults env a) fullPath (disk h)
                   in (case removed of
                        Inl (False, e) \<Rightarrow> (Reply (''deleting file: '' @ e), cl)
                      | _ \<Rightarrow>
                          let d = (case removed of Inl _ \<Rightarrow> disk h | Inr d \<Rightarrow> d);
                              cl1 = cl(a \<mapsto> h\<lparr>disk := d, versions := (versions h)(fullPath := None)\<rparr>);
                              cl2 = replicateStreamToAll env a ''delete'' (frq_path req) fullPath 0 cl1
                          in (Reply [], at_server a (save_response key (SavedDelete [])) cl2))))"

section \<open>What replication leaves alone\<close>

lemma call_Replicate_other: "b \<noteq> addr \<Longrightarrow> snd (call_Replicate env addr strm cl) b = cl b"
  by (auto simp: call_Replicate_def Let_def split: option.splits link.splits prod.splits)

lemma call_Replicate_frame:
  "rel_option frame_disk (cl b) (snd (call_Replicate env addr strm cl) b)"
proof (cases "b = addr")
  case True
  show ?thesis
  proof (cases "cl addr")
    case (Some h)
    have "frame_disk h h'" if "rpc_Replicate flt st h = (r, h')" for flt st r h'
      using rpc_Replicate_frame [of h flt st] that by simp
    then show ?thesis using True Some
      by (auto simp: call_Replicate_def Let_def rpc_Replicate_frame split: link.splits prod.splits)
  qed (simp add: True call_Replicate_def)
qed (simp add: call_Replicate_other option.rel_refl)

lemma replicateStreamToPeer_via:
  "snd (replicateStreamToPeer env src op path full v cl addr) = cl \<or>
   (\<exists>strm. snd (replicateStreamToPeer env src op path full v cl addr) =
      snd (call_Replicate env addr strm cl))"
proof -
  have pr: "snd (case x of (r, c) \<Rightarrow> (f r, c)) = snd x" for x :: "string outcome \<times> cluster" and f
    by (simp add: case_prod_beta)
  show ?thesis
    unfolding replicateStreamToPeer_def
    by (auto simp: pr split: option.split sum.split prod.split)
qed

lemma replicateStreamToPeer_other:
  "b \<noteq> addr \<Longrightarrow> snd (replicateStreamToPeer env src op path full v cl addr) b = cl b"
  using replicateStreamToPeer_via [of env src op path full v cl addr] call_Replicate_other by metis

lemma replicateStreamToPeer_frame:
  "rel_option frame_disk (cl b) (snd (replicateStreamToPeer env src op path full v cl addr) b)"
  using replicateStreamToPeer_via [of env src op path full v cl addr] call_Replicate_frame
  by (metis frame_disk_refl option.rel_refl)

lemma rel_option_frame_trans:
  "rel_option frame_disk x y \<Longrightarrow> rel_option frame_disk y z \<Longrightarrow> rel_option frame_disk x z"
  by (cases x; cases y; cases z) (auto intro: frame_disk_trans)

text \<open>The loop over the peers, as a function of the list of addresses.\<close>

definition replicate_list ::
  "env \<Rightarrow> string \<Rightarrow> string \<Rightarrow> string \<Rightarrow> string \<Rightarrow> i64 \<Rightarrow> string list \<Rightarrow> cluster \<Rightarrow> cluster" where
  "replicate_list env src op path full v addrs cl =
     foldl (\<lambda>cl b. snd (replicateStreamToPeer env src op path full v cl b)) cl addrs"

lemma replicateStreamToAll_list:
  "cl src = Some h \<Longrightarrow>
   replicateStreamToAll env src op path full v cl =
     replicate_list env src op path full v (map peer_addr (peers h)) cl"
  by (simp add: replicateStreamToAll_def replicate_list_def foldl_map)

lemma replicate_list_simps [simp]:
  "replicate_list env src op path full v [] cl = cl"
  "replicate_list env src op path full v (b # bs) cl =
     replicate_list env src op path full v bs (snd (replicateStreamToPeer env src op path full v cl b))"
  by (simp_all add: replicate_list_def)

lemma replicate_list_other:
  "b \<notin> set addrs \<Longrightarrow> replicate_list env src op path full v addrs cl b = cl b"
  by (induction addrs arbitrary: cl) (auto simp: replicateStreamToPeer_other)

lemma replicate_list_frame:
  "rel_option frame_disk (cl b) (replicate_list env src op path full v addrs cl b)"
proof (induction addrs arbitrary: cl)
  case (Cons c cs)
  then show ?case
    using replicateStreamToPeer_frame rel_option_frame_trans by (metis replicate_list_simps(2))
qed (simp add: option.rel_refl)

lemma replicateStreamToAll_frame:
  "rel_option frame_disk (cl b) (replicateStreamToAll env src op path full v cl b)"
  by (cases "cl src") (simp_all add: replicateStreamToAll_list replicate_list_frame
      option.rel_refl, simp add: replicateStreamToAll_def option.rel_refl)

section \<open>The store is atomic on the serving machine\<close>

lemma tmpOf_neq [simp]: "tmpOf p \<noteq> p" "p \<noteq> tmpOf p"
  by (simp_all add: tmpOf_def)

lemma store_to_disk_Inr:
  assumes "store_to_disk flt full bufs rerr d = Inr d'"
  shows "rerr = None" "map_of d' = (map_of d)(tmpOf full := None, full \<mapsto> FFile (concat bufs))"
proof -
  obtain d0 d1 where s: "os_Create flt (tmpOf full) d = Inr d0"
    "write_chunks flt 0 (tmpOf full) bufs d0 = Inr d1" "rerr = None"
    "os_Rename flt (tmpOf full) full d1 = Inr d'"
    using assms by (auto simp: store_to_disk_def Let_def split: sum.splits option.splits)
  then show "rerr = None" by simp
  have d0: "map_of d0 = (map_of d)(tmpOf full \<mapsto> FFile [])" using os_Create_Inr [OF s(1)] .
  then have "map_of d1 = (map_of d0)(tmpOf full \<mapsto> FFile ([] @ concat bufs))"
    by (intro write_chunks_Inr [OF s(2)]) simp
  then show "map_of d' = (map_of d)(tmpOf full := None, full \<mapsto> FFile (concat bufs))"
    using os_Rename_Inr [OF s(4)] d0 by (auto simp: fun_eq_iff)
qed

lemma store_to_disk_Inl:
  assumes "store_to_disk flt full bufs rerr d = Inl (r, d')"
  shows "same_except {tmpOf full} d d'" "\<forall>resp. r = Reply resp \<longrightarrow> srs_error resp \<noteq> []"
proof -
  have create: "same_except {tmpOf full} d d0" if "os_Create flt (tmpOf full) d = Inr d0" for d0
    using os_Create_Inr [OF that] by (simp add: same_except_def)
  have wr: "same_except {tmpOf full} d0 d1"
    if "os_Create flt (tmpOf full) d = Inr d0"
      "write_chunks flt 0 (tmpOf full) bufs d0 = Inr d1" for d0 d1
    using write_chunks_Inr [OF that(2), of "[]"] os_Create_Inr [OF that(1)]
    by (simp add: same_except_def)
  have remove: "same_except {tmpOf full} d (rm flt (tmpOf full) x)"
    if "same_except {tmpOf full} d x" for x
    using that by (rule same_except_trans) (simp add: rm_same_except)
  show "same_except {tmpOf full} d d'"
    using assms create wr write_chunks_Inl
    by (auto simp: store_to_disk_def Let_def split: sum.splits option.splits
        intro!: remove intro: same_except_trans)
  show "\<forall>resp. r = Reply resp \<longrightarrow> srs_error resp \<noteq> []"
    using assms
    by (auto simp: store_to_disk_def Let_def store_error_def split: sum.splits option.splits)
qed

text \<open>The three ways a \<open>StoreFile\<close> call can go at a running server.\<close>

lemma StoreFile_cases [consumes 1, case_names refused failed stored]:
  assumes "cl a = Some h"
  obtains
    (refused) "snd (rpc_StoreFile env a (cs, rerr) cl) = cl"
      "\<forall>r. fst (rpc_StoreFile env a (cs, rerr) cl) = Reply r \<longrightarrow> srs_error r \<noteq> [] \<or>
        (cs \<noteq> [] \<and> dedupTable h (dedupKey (sch_client (hd cs)) (sch_seq (hd cs))) = Some (SavedStore r))"
  | (failed) d r where
      "rpc_StoreFile env a (cs, rerr) cl = (r, cl(a \<mapsto> h\<lparr>disk := d\<rparr>))"
      "same_except {tmpOf (outPath h (sch_path (hd cs)))} (disk h) d"
      "\<forall>resp. r = Reply resp \<longrightarrow> srs_error resp \<noteq> []"
  | (stored) d v h1 where
      "primary h" "rerr = None" "cs \<noteq> []"
      "dedupTable h (dedupKey (sch_client (hd cs)) (sch_seq (hd cs))) = None"
      "map_of d = (map_of (disk h))(tmpOf (outPath h (sch_path (hd cs))) := None,
         outPath h (sch_path (hd cs)) \<mapsto> FFile (concat (map sch_data cs)))"
      "v = i64_add (get0 (versions h) (outPath h (sch_path (hd cs)))) 1"
      "h1 = h\<lparr>disk := d, versions := (versions h)(outPath h (sch_path (hd cs)) \<mapsto> v)\<rparr>"
      "rpc_StoreFile env a (cs, rerr) cl = (Reply \<lparr>srs_version = v, srs_error = []\<rparr>,
         at_server a (save_response (dedupKey (sch_client (hd cs)) (sch_seq (hd cs)))
             (SavedStore \<lparr>srs_version = v, srs_error = []\<rparr>))
           (replicateStreamToAll env a ''store'' (sch_path (hd cs))
             (outPath h (sch_path (hd cs))) v (cl(a \<mapsto> h1))))"
proof (cases "primary h \<and> cs \<noteq> [] \<and> dedupTable h (dedupKey (sch_client (hd cs)) (sch_seq (hd cs))) = None")
  case False
  then show thesis
    using assms
    by (intro refused)
      (auto simp: rpc_StoreFile_def store_error_def not_primary_msg_def Let_def
        split: list.splits option.splits saved.splits)
next
  case True
  then obtain c cs' where cs: "cs = c # cs'" by (cases cs) auto
  show thesis
  proof (cases "store_to_disk (os_faults env a) (outPath h (sch_path c)) (map sch_data cs) rerr (disk h)")
    case (Inl x)
    obtain r d where x: "x = (r, d)" by (cases x)
    show thesis
      using Inl True assms store_to_disk_Inl [OF Inl [unfolded x]]
      by (intro failed [of r d]) (auto simp: rpc_StoreFile_def Let_def cs x)
  next
    case (Inr d)
    show thesis
      using True assms Inr store_to_disk_Inr [OF Inr]
      by (intro stored [of d]) (auto simp: rpc_StoreFile_def Let_def cs)
  qed
qed

lemma at_server_other: "b \<noteq> a \<Longrightarrow> at_server a f cl b = cl b"
  by (simp add: at_server_def split: option.splits)

lemma at_server_same: "cl a = Some h \<Longrightarrow> at_server a f cl a = Some (f h)"
  by (simp add: at_server_def)

lemma save_response_sel [simp]:
  "disk (save_response k r h) = disk h" "versions (save_response k r h) = versions h"
  "primary (save_response k r h) = primary h" "outputDir (save_response k r h) = outputDir h"
  "dedupTable (save_response k r h) = (dedupTable h)(k \<mapsto> r)"
  "peers (save_response k r h) = peers h"
  "inputDir (save_response k r h) = inputDir h"
  by (simp_all add: save_response_def)

lemma after_replication:
  assumes "cl a = Some h" "a \<notin> peer_addr ` set (peers h)"
  shows "at_server a f (replicateStreamToAll env a op path full v cl) a = Some (f h)"
proof -
  have "replicateStreamToAll env a op path full v cl a = Some h"
    using assms by (simp add: replicateStreamToAll_list replicate_list_other)
  then show ?thesis by (rule at_server_same)
qed

section \<open>Abstract view of a server: file names to contents and versions\<close>

definition view :: "server \<Rightarrow> string \<Rightarrow> (bytes \<times> i64) option" where
  "view h n =
     (case map_of (disk h) (outPath h n) of
        Some (FFile b) \<Rightarrow> Some (b, get0 (versions h) (outPath h n))
      | _ \<Rightarrow> None)"

text \<open>
  A good name is one path element, not a dot entry, without the suffix that the write path
  uses for its temporary files.
\<close>

definition good_name :: "string \<Rightarrow> bool" where
  "good_name n \<longleftrightarrow> ordinary n \<and> drop (length n - 4) n \<noteq> ''.tmp''"

definition server_ok :: "server \<Rightarrow> bool" where
  "server_ok h \<longleftrightarrow> outputDir h \<noteq> [] \<and>
     (\<forall>n. ordinary n \<longrightarrow> map_of (disk h) (dir_prefix (outputDir h) @ n) \<noteq> Some FDir)"

lemma outPath_ordinary:
  "outputDir h \<noteq> [] \<Longrightarrow> ordinary n \<Longrightarrow> outPath h n = dir_prefix (outputDir h) @ n"
  by (simp add: outPath_def path_Base_ordinary path_Join_ordinary)

lemma ordinary_tmp: "ordinary n \<Longrightarrow> ordinary (n @ ''.tmp'')"
  by (auto simp: ordinary_def append_eq_Cons_conv)

lemma outPath_no_dir:
  assumes "server_ok h" "ordinary n"
  shows "map_of (disk h) (outPath h n) \<noteq> Some FDir" "map_of (disk h) (tmpOf (outPath h n)) \<noteq> Some FDir"
  using assms ordinary_tmp [of n] by (auto simp: server_ok_def outPath_ordinary tmpOf_def)

lemma outPath_eq_iff:
  "server_ok h \<Longrightarrow> ordinary n \<Longrightarrow> ordinary m \<Longrightarrow> outPath h n = outPath h m \<longleftrightarrow> n = m"
  by (simp add: server_ok_def outPath_ordinary)

lemma good_name_not_tmp:
  "server_ok h \<Longrightarrow> good_name n \<Longrightarrow> ordinary m \<Longrightarrow> outPath h n \<noteq> tmpOf (outPath h m)"
  by (auto simp: good_name_def server_ok_def outPath_ordinary tmpOf_def)

lemma good_ordinary: "good_name n \<Longrightarrow> ordinary n"
  by (simp add: good_name_def)

text \<open>
  The effects a write has on one replica, and what they mean for its view. The role of the
  server in the cluster stays as it is.
\<close>

definition same_role :: "server \<Rightarrow> server \<Rightarrow> bool" where
  "same_role h h' \<longleftrightarrow> outputDir h' = outputDir h \<and> inputDir h' = inputDir h \<and>
     primary h' = primary h \<and> peers h' = peers h"

lemma frame_same_role: "frame_disk h h' \<Longrightarrow> same_role h h'"
  by (simp add: same_role_def frame_disk_sel)

datatype change = Put bytes i64 | Del

fun effect :: "change \<Rightarrow> string \<Rightarrow> server \<Rightarrow> server \<Rightarrow> bool" where
  "effect (Put b v) n h h' \<longleftrightarrow> same_role h h' \<and>
     (\<forall>p. p \<noteq> tmpOf (outPath h n) \<longrightarrow>
        map_of (disk h') p = ((map_of (disk h))(outPath h n \<mapsto> FFile b)) p) \<and>
     map_of (disk h') (tmpOf (outPath h n)) \<in> {None, map_of (disk h) (tmpOf (outPath h n))} \<and>
     versions h' = (versions h)(outPath h n \<mapsto> v)"
| "effect Del n h h' \<longleftrightarrow> same_role h h' \<and>
     map_of (disk h') = (map_of (disk h))(outPath h n := None) \<and>
     versions h' = (versions h)(outPath h n := None)"

fun apply_change :: "change \<Rightarrow> string \<Rightarrow> (string \<rightharpoonup> bytes \<times> i64) \<Rightarrow> (string \<rightharpoonup> bytes \<times> i64)" where
  "apply_change (Put b v) n m = m(n \<mapsto> (b, v))"
| "apply_change Del n m = m(n := None)"

lemma effect_role: "effect c n h h' \<Longrightarrow> same_role h h'"
  by (cases c) auto

lemma effect_frame:
  "effect c n h h' \<Longrightarrow> p \<noteq> outPath h n \<Longrightarrow> p \<noteq> tmpOf (outPath h n) \<Longrightarrow> map_of (disk h') p = map_of (disk h) p"
  by (cases c) auto

lemma effect_view:
  assumes "effect c n h h'" "server_ok h" "good_name n" "good_name m"
  shows "view h' m = apply_change c n (view h) m"
proof -
  have "outPath h' m = outPath h m"
    using effect_role [OF assms(1)] by (simp add: outPath_def same_role_def)
  then show ?thesis
    using assms good_name_not_tmp [OF assms(2,4) good_ordinary [OF assms(3)]]
      outPath_eq_iff [OF assms(2) good_ordinary [OF assms(4)] good_ordinary [OF assms(3)]]
    by (cases c) (auto simp: view_def split: option.split fnode.split)
qed

lemma effect_server_ok:
  assumes "effect c n h h'" "server_ok h"
  shows "server_ok h'"
proof -
  have out: "outputDir h' = outputDir h"
    using effect_role [OF assms(1)] by (simp add: same_role_def)
  have "map_of (disk h') p \<noteq> Some FDir" if "map_of (disk h) p \<noteq> Some FDir" for p
    using assms(1) that
    by (cases c; cases "p = tmpOf (outPath h n)"; cases "p = outPath h n") auto
  then show ?thesis using assms(2) out by (simp add: server_ok_def)
qed

text \<open>
  A replica that does not make a change to file \<open>n\<close>: at most the temporary file is touched, its
  view is as before.
\<close>

definition kept :: "string \<Rightarrow> server \<Rightarrow> server \<Rightarrow> bool" where
  "kept n h h' \<longleftrightarrow> same_role h h' \<and> versions h' = versions h \<and> same_except {tmpOf (outPath h n)} (disk h) (disk h')"

lemma kept_refl [simp]: "kept n h h"
  by (simp add: kept_def same_role_def)

lemma kept_view:
  assumes "kept n h h'" "server_ok h" "good_name n" "good_name m"
  shows "view h' m = view h m"
proof -
  have "outPath h' m = outPath h m" using assms(1) by (simp add: outPath_def kept_def same_role_def)
  then show ?thesis
    using assms(1) good_name_not_tmp [OF assms(2,4) good_ordinary [OF assms(3)]]
    by (simp add: view_def kept_def same_except_def split: option.split fnode.split)
qed

section \<open>What a peer makes of the change\<close>

lemma healthy_sel [simp]: "os_faults healthy a = no_faults" "links healthy a = LinkUp"
  by (simp_all add: healthy_def)

lemma store_to_disk_ok:
  assumes "map_of d full \<noteq> Some FDir" "map_of d (tmpOf full) \<noteq> Some FDir"
  shows "\<exists>d'. store_to_disk no_faults full bufs None d = Inr d'"
proof -
  have c: "os_Create no_faults (tmpOf full) d = Inr (AList.update (tmpOf full) (FFile []) d)"
    using assms(2) by (rule os_Create_ok)
  obtain d1 where w: "write_chunks no_faults 0 (tmpOf full) bufs (AList.update (tmpOf full) (FFile []) d) = Inr d1"
    using write_chunks_ok by blast
  have d1: "map_of d1 = (map_of d)(tmpOf full \<mapsto> FFile (concat bufs))"
    using write_chunks_Inr [OF w, of "[]"] by (auto simp: fun_eq_iff)
  then show ?thesis using assms(1)
    by (simp add: store_to_disk_def c w os_Rename_def)
qed

lemma replicate_stream_data: "map rch_data (replicate_stream op path v bufs) = bufs"
  by (cases bufs) (simp_all add: replicate_stream_def comp_def)

text \<open>A store stream does on the peer's disk what \<open>StoreFile\<close> does on the primary's.\<close>

lemma Replicate_store_eq:
  assumes "bufs \<noteq> []"
  shows "snd (rpc_Replicate flt (replicate_stream ''store'' n v bufs, rerr) h) =
    (case store_to_disk flt (outPath h n) bufs rerr (disk h) of
       Inl (r, d) \<Rightarrow> h\<lparr>disk := d\<rparr>
     | Inr d \<Rightarrow> h\<lparr>disk := d, versions := (versions h)(outPath h n \<mapsto> v)\<rparr>)"
proof -
  obtain c cs where c: "replicate_stream ''store'' n v bufs = c # cs" "rch_op c = ''store''" "rch_path c = n" "rch_version c = v"
    using assms by (cases bufs) (simp_all add: replicate_stream_def)
  then have m: "map rch_data (c # cs) = bufs" using replicate_stream_data [of "''store''" n v bufs] by simp
  show ?thesis
    unfolding rpc_Replicate_def store_to_disk_def
    by (simp add: c m Let_def del: list.map split: sum.split option.split prod.split)
qed

lemma replicate_stream_take: "take k (replicate_stream op n v bufs) = replicate_stream op n v (take k bufs)"
  by (cases bufs; cases k) (simp_all add: replicate_stream_def take_map)

lemma Replicate_store_cases:
  "effect (Put (concat bufs) v) n hb (snd (rpc_Replicate flt (replicate_stream ''store'' n v bufs, rerr) hb)) \<and>
     rerr = None \<and> bufs \<noteq> [] \<or>
   kept n hb (snd (rpc_Replicate flt (replicate_stream ''store'' n v bufs, rerr) hb))"
proof (cases "bufs = []")
  case True
  then show ?thesis by (cases rerr) (simp_all add: replicate_stream_def rpc_Replicate_def)
next
  case False
  show ?thesis
  proof (cases "store_to_disk flt (outPath hb n) bufs rerr (disk hb)")
    case (Inl x)
    obtain r d where x: "x = (r, d)" by (cases x)
    then show ?thesis
      using Inl store_to_disk_Inl(1) [OF Inl [unfolded x]]
      by (simp add: Replicate_store_eq [OF False] kept_def same_role_def)
  next
    case (Inr d)
    then show ?thesis
      using store_to_disk_Inr [OF Inr] False by (auto simp: Replicate_store_eq [OF False] same_role_def)
  qed
qed

text \<open>
  A stream reaches the peer completely over a link that is up, whether or not its answer comes
  back, and does its work when the disk of the peer has no faults.
\<close>

definition delivers :: "env \<Rightarrow> string \<Rightarrow> bool" where
  "delivers env b \<longleftrightarrow> links env b = LinkUp \<or> links env b = LinkNoReply"

definition reached :: "env \<Rightarrow> string \<Rightarrow> bool" where
  "reached env b \<longleftrightarrow> delivers env b \<and> os_faults env b = no_faults"

definition unreached :: "env \<Rightarrow> string \<Rightarrow> bool" where
  "unreached env b \<longleftrightarrow> links env b = LinkDown \<or> links env b = LinkCut 0"

text \<open>A peer that gets a file makes the change, or keeps what it had.\<close>

definition takes_or_keeps :: "bool \<Rightarrow> bool \<Rightarrow> change \<Rightarrow> string \<Rightarrow> server \<Rightarrow> server \<Rightarrow> bool" where
  "takes_or_keeps must mustnot c n h h' \<longleftrightarrow>
     (effect c n h h' \<or> kept n h h') \<and> (must \<longrightarrow> effect c n h h') \<and> (mustnot \<longrightarrow> kept n h h')"

lemma call_Replicate_at:
  "cl b = Some hb \<Longrightarrow> snd (call_Replicate env b strm cl) b = Some
     (case links env b of
        LinkDown \<Rightarrow> hb
      | LinkCut k \<Rightarrow> snd (rpc_Replicate (os_faults env b) (take k (fst strm), Some ''transport is closing'') hb)
      | _ \<Rightarrow> snd (rpc_Replicate (os_faults env b) strm hb))"
  by (simp add: call_Replicate_def Let_def split: link.split prod.split)

lemma peer_store:
  assumes "cl src = Some h" "os_faults env src = no_faults" "map_of (disk h) full = Some (FFile data)"
    "cl b = Some hb" "server_ok hb" "ordinary n"
  shows "\<exists>hb'. snd (replicateStreamToPeer env src ''store'' n full v cl b) b = Some hb' \<and>
    takes_or_keeps (data \<noteq> [] \<and> reached env b) (data = [] \<or> \<not> delivers env b) (Put data v) n hb hb'"
proof -
  let ?bufs = "chunks_of chunkSize data"
  let ?st = "replicate_stream ''store'' n v"
  have ne: "?bufs = [] \<longleftrightarrow> data = []" and cat: "concat ?bufs = data"
    by (simp_all add: chunks_of_eq_Nil chunkSize_def)
  have eq: "snd (replicateStreamToPeer env src ''store'' n full v cl b) b =
      snd (call_Replicate env b (?st ?bufs, None) cl) b"
    using assms(1-3)
    by (simp add: replicateStreamToPeer_def os_Open_def read_chunks_def os_simps split: prod.splits)
  have full: "takes_or_keeps (data \<noteq> [] \<and> flt = no_faults) (data = []) (Put data v) n hb
      (snd (rpc_Replicate flt (?st ?bufs, None) hb))" for flt
  proof (cases "data = []")
    case True
    then show ?thesis
      using ne Replicate_store_cases [of ?bufs v n hb flt None] by (auto simp: takes_or_keeps_def)
  next
    case False
    have "effect (Put data v) n hb (snd (rpc_Replicate no_faults (?st ?bufs, None) hb))"
    proof -
      obtain d where d: "store_to_disk no_faults (outPath hb n) ?bufs None (disk hb) = Inr d"
        using store_to_disk_ok [OF outPath_no_dir [OF assms(5,6)]] by blast
      have "?bufs \<noteq> []" using False ne by simp
      then show ?thesis
        using store_to_disk_Inr(2) [OF d] by (auto simp: Replicate_store_eq d cat same_role_def)
    qed
    then show ?thesis
      using False Replicate_store_cases [of ?bufs v n hb flt None] by (auto simp: takes_or_keeps_def cat)
  qed
  have part: "kept n hb (snd (rpc_Replicate flt (?st bufs, Some e) hb))" for flt bufs e
    using Replicate_store_cases [of bufs v n hb flt "Some e"] by simp
  show ?thesis
    unfolding eq call_Replicate_at [of cl b hb, OF assms(4)]
    using full [of "os_faults env b"] part
    by (cases "links env b") (auto simp: takes_or_keeps_def reached_def delivers_def replicate_stream_take)
qed

text \<open>Creation and deletion are one message, which takes effect even if the link is cut after it.\<close>

lemma peer_message:
  assumes "op = ''create'' \<or> op = ''delete''" "cl b = Some hb" "os_faults env b = no_faults"
    and "\<And>rerr. effect c n hb (snd (rpc_Replicate no_faults
      ([\<lparr>rch_op = op, rch_path = n, rch_version = v, rch_data = []\<rparr>], rerr) hb))"
  shows "\<exists>hb'. snd (replicateStreamToPeer env src op n full v cl b) b = Some hb' \<and>
    takes_or_keeps (reached env b) (unreached env b) c n hb hb'"
proof -
  let ?m = "\<lparr>rch_op = op, rch_path = n, rch_version = v, rch_data = []\<rparr>"
  have eq: "snd (replicateStreamToPeer env src op n full v cl b) b = snd (call_Replicate env b ([?m], None) cl) b"
    using assms(1) by (auto simp: replicateStreamToPeer_def split: prod.splits)
  have none: "snd (rpc_Replicate no_faults ([], Some e) hb) = hb" for e by (simp add: rpc_Replicate_def)
  show ?thesis
  proof (cases "links env b")
    case (LinkCut k)
    then show ?thesis
      unfolding eq call_Replicate_at [of cl b hb, OF assms(2)] using assms(3,4) none
      by (cases k) (simp_all add: takes_or_keeps_def reached_def delivers_def unreached_def)
  qed (use assms(3,4) in \<open>simp_all add: eq call_Replicate_at [of cl b hb, OF assms(2)] takes_or_keeps_def
      reached_def delivers_def unreached_def\<close>)
qed

lemma peer_create:
  assumes "cl b = Some hb" "server_ok hb" "ordinary n" "os_faults env b = no_faults"
  shows "\<exists>hb'. snd (replicateStreamToPeer env src ''create'' n full v cl b) b = Some hb' \<and>
    takes_or_keeps (reached env b) (unreached env b) (Put [] v) n hb hb'"
  by (rule peer_message [where cl = cl and b = b, OF _ assms(1,4)])
    (use outPath_no_dir(1) [OF assms(2,3)] in \<open>simp_all add: rpc_Replicate_def os_WriteFile_def Let_def same_role_def\<close>)

lemma peer_delete:
  assumes "cl b = Some hb" "server_ok hb" "ordinary n" "os_faults env b = no_faults"
  shows "\<exists>hb'. snd (replicateStreamToPeer env src ''delete'' n full v cl b) b = Some hb' \<and>
    takes_or_keeps (reached env b) (unreached env b) Del n hb hb'"
  by (rule peer_message [where cl = cl and b = b, OF _ assms(1,4)])
    (use outPath_no_dir(1) [OF assms(2,3)] in \<open>simp_all add: rpc_Replicate_def rm_ok Let_def same_role_def\<close>)

text \<open>The outcome at one peer depends on the source and on that peer only.\<close>

lemma call_Replicate_local:
  "cl b = cl' b \<Longrightarrow> snd (call_Replicate env b strm cl) b = snd (call_Replicate env b strm cl') b"
  by (auto simp: call_Replicate_def Let_def split: option.splits link.splits prod.splits)

lemma replicateStreamToPeer_local:
  assumes "cl src = cl' src" "cl b = cl' b"
  shows "snd (replicateStreamToPeer env src op path full v cl b) b =
    snd (replicateStreamToPeer env src op path full v cl' b) b"
proof -
  have pr: "snd (case x of (r, c) \<Rightarrow> (f r, c)) = snd x" for x :: "string outcome \<times> cluster" and f
    by (simp add: case_prod_beta)
  show ?thesis
    unfolding replicateStreamToPeer_def assms(1)
    using call_Replicate_local [of cl b cl', OF assms(2)] assms(2)
    by (auto simp: pr split: option.split sum.split prod.split)
qed

lemma replicate_list_at:
  assumes "distinct addrs" "src \<notin> set addrs" "b \<in> set addrs"
  shows "replicate_list env src op path full v addrs cl b =
    snd (replicateStreamToPeer env src op path full v cl b) b"
  using assms
proof (induction addrs arbitrary: cl)
  case (Cons c cs)
  let ?cl = "snd (replicateStreamToPeer env src op path full v cl c)"
  show ?case
  proof (cases "b = c")
    case True
    then show ?thesis using Cons.prems by (simp add: replicate_list_other)
  next
    case False
    have "?cl src = cl src" "?cl b = cl b"
      using Cons.prems False by (auto intro: replicateStreamToPeer_other)
    then show ?thesis
      using Cons False replicateStreamToPeer_local [of ?cl src cl b] by simp
  qed
qed simp

section \<open>A cluster with primary \<open>a\<close>\<close>

definition replicas :: "string \<Rightarrow> cluster \<Rightarrow> string set" where
  "replicas a cl = (case cl a of None \<Rightarrow> {} | Some h \<Rightarrow> insert a (peer_addr ` set (peers h)))"

definition cluster_ok :: "string \<Rightarrow> cluster \<Rightarrow> bool" where
  "cluster_ok a cl \<longleftrightarrow>
     (case cl a of
        None \<Rightarrow> False
      | Some h \<Rightarrow> primary h \<and> distinct (map peer_addr (peers h)) \<and> a \<notin> peer_addr ` set (peers h)) \<and>
     (\<forall>b \<in> replicas a cl. \<exists>hb. cl b = Some hb \<and> server_ok hb)"

definition no_entry :: "string \<Rightarrow> string \<Rightarrow> i64 \<Rightarrow> cluster \<Rightarrow> bool" where
  "no_entry a client sq cl \<longleftrightarrow>
     (case cl a of None \<Rightarrow> False | Some h \<Rightarrow> dedupTable h (dedupKey client sq) = None)"

text \<open>The primary runs; its peers may be down.\<close>

definition primary_ok :: "string \<Rightarrow> cluster \<Rightarrow> bool" where
  "primary_ok a cl \<longleftrightarrow>
     (case cl a of
        None \<Rightarrow> False
      | Some h \<Rightarrow> primary h \<and> distinct (map peer_addr (peers h)) \<and> a \<notin> peer_addr ` set (peers h)) \<and>
     (\<forall>b \<in> replicas a cl. \<forall>hb. cl b = Some hb \<longrightarrow> server_ok hb)"

lemma cluster_primary_ok: "cluster_ok a cl \<Longrightarrow> primary_ok a cl"
  by (auto simp: cluster_ok_def primary_ok_def)

lemma primary_okD:
  assumes "primary_ok a cl"
  obtains h where "cl a = Some h" "primary h" "server_ok h"
  using assms by (fastforce simp: primary_ok_def replicas_def split: option.splits)

text \<open>One replica makes the change \<open>c\<close> to file \<open>n\<close>.\<close>

definition changed :: "change \<Rightarrow> string \<Rightarrow> server \<Rightarrow> server \<Rightarrow> bool" where
  "changed c n h h' \<longleftrightarrow> same_role h h' \<and> server_ok h' \<and>
     (\<forall>m. good_name m \<longrightarrow> view h' m = apply_change c n (view h) m) \<and>
     (\<forall>p. p \<noteq> outPath h n \<longrightarrow> p \<noteq> tmpOf (outPath h n) \<longrightarrow> map_of (disk h') p = map_of (disk h) p)"

text \<open>Every replica of \<open>cl\<close> makes the change \<open>c\<close> to file \<open>n\<close> on the way to \<open>cl'\<close>.\<close>

definition all_change :: "string \<Rightarrow> change \<Rightarrow> string \<Rightarrow> cluster \<Rightarrow> cluster \<Rightarrow> bool" where
  "all_change a c n cl cl' \<longleftrightarrow>
     (\<forall>b \<in> replicas a cl. \<exists>h h'. cl b = Some h \<and> cl' b = Some h' \<and> changed c n h h')"

text \<open>
  The primary \<open>a\<close> makes the change. Of its peers, the ones that are down stay down; a running
  one makes the change or keeps its files, the ones in \<open>must\<close> make it and the ones in
  \<open>mustnot\<close> keep them. Every other process is as before.
\<close>

definition partly_changed ::
  "(string \<Rightarrow> bool) \<Rightarrow> (string \<Rightarrow> bool) \<Rightarrow> string \<Rightarrow> change \<Rightarrow> string \<Rightarrow> cluster \<Rightarrow> cluster \<Rightarrow> bool" where
  "partly_changed must mustnot a c n cl cl' \<longleftrightarrow>
     (\<forall>b. if b = a then \<exists>h h'. cl a = Some h \<and> cl' a = Some h' \<and> changed c n h h'
          else if b \<in> replicas a cl \<and> cl b \<noteq> None then
            \<exists>h h'. cl b = Some h \<and> cl' b = Some h' \<and> (changed c n h h' \<or> kept n h h') \<and>
              (must b \<longrightarrow> changed c n h h') \<and> (mustnot b \<longrightarrow> kept n h h')
          else cl' b = cl b)"

lemma effect_changed: "effect c n h h' \<Longrightarrow> server_ok h \<Longrightarrow> good_name n \<Longrightarrow> changed c n h h'"
  using effect_role effect_server_ok effect_view effect_frame by (simp add: changed_def)

lemma partly_all:
  assumes "partly_changed must mustnot a c n cl cl'" "cluster_ok a cl" "\<And>b. b \<in> replicas a cl \<Longrightarrow> b \<noteq> a \<Longrightarrow> must b"
  shows "all_change a c n cl cl'"
  unfolding all_change_def
proof
  fix b assume b: "b \<in> replicas a cl"
  then have "cl b \<noteq> None" using assms(2) by (auto simp: cluster_ok_def)
  then show "\<exists>h h'. cl b = Some h \<and> cl' b = Some h' \<and> changed c n h h'"
    using b assms(1,3) unfolding partly_changed_def by metis
qed

lemma all_change_ok:
  assumes "all_change a c n cl cl'" "cluster_ok a cl"
  shows "cluster_ok a cl'" "replicas a cl' = replicas a cl"
proof -
  obtain h where h: "cl a = Some h" using assms(2) by (auto simp: cluster_ok_def split: option.splits)
  then have "a \<in> replicas a cl" by (simp add: replicas_def)
  then obtain h' where h': "cl' a = Some h'" "primary h' = primary h" "peers h' = peers h"
    using assms(1) h by (force simp: all_change_def changed_def same_role_def)
  show rep: "replicas a cl' = replicas a cl" using h h' by (simp add: replicas_def)
  show "cluster_ok a cl'"
    using assms h h' unfolding cluster_ok_def rep by (auto simp: all_change_def changed_def)
qed

lemma replicated_change:
  assumes ok: "primary_ok a cl" and h: "cl a = Some h" and n: "good_name n"
    and own: "effect c n h (save_response k r h1)" and peers: "peers h1 = peers h"
    and peer: "\<And>b hb. cl b = Some hb \<Longrightarrow> server_ok hb \<Longrightarrow> b \<in> replicas a cl \<Longrightarrow> b \<noteq> a \<Longrightarrow>
      \<exists>hb'. snd (replicateStreamToPeer env a op n full v (cl(a \<mapsto> h1)) b) b = Some hb' \<and>
        takes_or_keeps (must b) (mustnot b) c n hb hb'"
  shows "partly_changed must mustnot a c n cl
    (at_server a (save_response k r) (replicateStreamToAll env a op n full v (cl(a \<mapsto> h1))))"
    (is "partly_changed must mustnot a c n cl ?cl'")
proof -
  have dist: "distinct (map peer_addr (peers h))" "a \<notin> peer_addr ` set (peers h)"
    and oks: "\<And>b hb. b \<in> replicas a cl \<Longrightarrow> cl b = Some hb \<Longrightarrow> server_ok hb"
    using ok h by (auto simp: primary_ok_def)
  have aa: "\<exists>h h'. cl a = Some h \<and> ?cl' a = Some h' \<and> changed c n h h'"
  proof -
    have "?cl' a = Some (save_response k r h1)" using dist(2) peers by (intro after_replication) auto
    then show ?thesis using effect_changed [OF own _ n] h oks [of a h] by (auto simp: replicas_def)
  qed
  have up: "\<exists>hb hb'. cl b = Some hb \<and> ?cl' b = Some hb' \<and> (changed c n hb hb' \<or> kept n hb hb') \<and>
      (must b \<longrightarrow> changed c n hb hb') \<and> (mustnot b \<longrightarrow> kept n hb hb')"
    if b: "b \<noteq> a" "b \<in> replicas a cl" "cl b = Some hb" for b hb
  proof -
    have "b \<in> set (map peer_addr (peers h1))" using b h peers by (auto simp: replicas_def)
    then have "?cl' b = snd (replicateStreamToPeer env a op n full v (cl(a \<mapsto> h1)) b) b"
      using b(1) dist peers
      by (simp add: at_server_other replicateStreamToAll_list [where h = h1] replicate_list_at)
    then obtain hb' where "?cl' b = Some hb'" "takes_or_keeps (must b) (mustnot b) c n hb hb'"
      using peer [OF b(3) oks [OF b(2,3)] b(2,1)] by auto
    then show ?thesis using b(3) effect_changed [OF _ oks [OF b(2,3)] n] by (auto simp: takes_or_keeps_def)
  qed
  have out: "?cl' b = cl b" if b: "b \<noteq> a" "b \<notin> replicas a cl \<or> cl b = None" for b
  proof (cases "b \<in> replicas a cl")
    case True
    then have "cl b = None" using b(2) by simp
    then show ?thesis
      using replicateStreamToAll_frame [of "cl(a \<mapsto> h1)" b env a op n full v] b(1) by (simp add: at_server_other)
  next
    case False
    then have "b \<notin> set (map peer_addr (peers h1))" using h peers by (auto simp: replicas_def)
    then show ?thesis
      using b(1) by (simp add: at_server_other replicateStreamToAll_list [where h = h1] replicate_list_other)
  qed
  show ?thesis unfolding partly_changed_def using aa up out by auto
qed

lemma no_entryD: "no_entry a cid sq cl \<Longrightarrow> cl a = Some h \<Longrightarrow> dedupTable h (dedupKey cid sq) = None"
  by (simp add: no_entry_def)

lemma cluster_okD:
  assumes "cluster_ok a cl"
  obtains h where "cl a = Some h" "primary h" "server_ok h"
  using assms by (fastforce simp: cluster_ok_def replicas_def split: option.splits)

text \<open>The version a file gets with its next store, on the primary.\<close>

definition next_version :: "string \<Rightarrow> cluster \<Rightarrow> string \<Rightarrow> i64" where
  "next_version a cl n = (case cl a of None \<Rightarrow> 0
     | Some h \<Rightarrow> i64_add (get0 (versions h) (outPath h n)) 1)"

text \<open>A store on a healthy primary, whatever its peers, their disks and the links to them do.\<close>

lemma StoreFile_any:
  assumes ok: "primary_ok a cl" and n: "good_name (sch_path c)"
    and new: "no_entry a (sch_client c) (sch_seq c) cl" and flt: "os_faults env a = no_faults"
    and data: "data = concat (map sch_data (c # cs))"
  defines "v \<equiv> next_version a cl (sch_path c)"
  shows "fst (rpc_StoreFile env a (c # cs, None) cl) = Reply \<lparr>srs_version = v, srs_error = []\<rparr>"
    "partly_changed (\<lambda>b. data \<noteq> [] \<and> reached env b) (\<lambda>b. data = [] \<or> \<not> delivers env b) a (Put data v) (sch_path c) cl
       (snd (rpc_StoreFile env a (c # cs, None) cl))"
proof -
  obtain h where h: "cl a = Some h" "primary h" "server_ok h" using ok by (rule primary_okD)
  note key = no_entryD [OF new h(1)]
  let ?full = "outPath h (sch_path c)"
  have v: "v = i64_add (get0 (versions h) ?full) 1" using h(1) by (simp add: v_def next_version_def)
  obtain d where d: "store_to_disk no_faults ?full (map sch_data (c # cs)) None (disk h) = Inr d"
    using store_to_disk_ok [OF outPath_no_dir [OF h(3) good_ordinary [OF n]]] by blast
  note dm = store_to_disk_Inr(2) [OF d, folded data]
  define h1 where "h1 = h\<lparr>disk := d, versions := (versions h)(?full \<mapsto> v)\<rparr>"
  have eq: "rpc_StoreFile env a (c # cs, None) cl =
      (Reply \<lparr>srs_version = v, srs_error = []\<rparr>,
       at_server a (save_response (dedupKey (sch_client c) (sch_seq c))
           (SavedStore \<lparr>srs_version = v, srs_error = []\<rparr>))
         (replicateStreamToAll env a ''store'' (sch_path c) ?full v (cl(a \<mapsto> h1))))"
    using h key d by (simp add: rpc_StoreFile_def Let_def v h1_def flt)
  then show "fst (rpc_StoreFile env a (c # cs, None) cl) = Reply \<lparr>srs_version = v, srs_error = []\<rparr>"
    by simp
  show "partly_changed (\<lambda>b. data \<noteq> [] \<and> reached env b) (\<lambda>b. data = [] \<or> \<not> delivers env b) a (Put data v) (sch_path c) cl
       (snd (rpc_StoreFile env a (c # cs, None) cl))"
    unfolding eq snd_conv
  proof (rule replicated_change [OF ok h(1) n])
    show "effect (Put data v) (sch_path c) h
        (save_response (dedupKey (sch_client c) (sch_seq c)) (SavedStore \<lparr>srs_version = v, srs_error = []\<rparr>) h1)"
      using dm by (auto simp: same_role_def h1_def)
  next
    fix b hb assume "cl b = Some hb" "server_ok hb" "b \<noteq> a"
    then show "\<exists>hb'. snd (replicateStreamToPeer env a ''store'' (sch_path c) ?full v (cl(a \<mapsto> h1)) b) b = Some hb' \<and>
        takes_or_keeps (data \<noteq> [] \<and> reached env b) (data = [] \<or> \<not> delivers env b) (Put data v) (sch_path c) hb hb'"
      using dm flt by (intro peer_store [where h = h1] good_ordinary [OF n]) (auto simp: h1_def)
  qed (simp add: h1_def)
qed

lemma healthy_reached [simp]: "reached healthy b"
  by (simp add: reached_def delivers_def)

lemma StoreFile_ok:
  assumes ok: "cluster_ok a cl" and n: "good_name (sch_path c)"
    and new: "no_entry a (sch_client c) (sch_seq c) cl"
    and data: "concat (map sch_data (c # cs)) \<noteq> []"
  defines "v \<equiv> next_version a cl (sch_path c)"
  shows "fst (rpc_StoreFile healthy a (c # cs, None) cl) = Reply \<lparr>srs_version = v, srs_error = []\<rparr>"
    "all_change a (Put (concat (map sch_data (c # cs))) v) (sch_path c) cl
       (snd (rpc_StoreFile healthy a (c # cs, None) cl))"
proof -
  note s = StoreFile_any [OF cluster_primary_ok [OF ok] n new healthy_sel(1) refl, of cs, folded v_def]
  show "fst (rpc_StoreFile healthy a (c # cs, None) cl) = Reply \<lparr>srs_version = v, srs_error = []\<rparr>" by (rule s(1))
  show "all_change a (Put (concat (map sch_data (c # cs))) v) (sch_path c) cl
       (snd (rpc_StoreFile healthy a (c # cs, None) cl))"
    by (rule partly_all [OF s(2) ok]) (use data in simp)
qed

lemma view_None: "server_ok h \<Longrightarrow> good_name n \<Longrightarrow> view h n = None \<longleftrightarrow> map_of (disk h) (outPath h n) = None"
  using outPath_no_dir(1) [OF _ good_ordinary]
  by (auto simp: view_def split: option.splits fnode.splits)

lemma CreateFile_any:
  assumes ok: "primary_ok a cl" and n: "good_name (frq_path q)"
    and new: "no_entry a (frq_client q) (frq_seq q) cl"
    and flt: "\<And>b. b \<in> replicas a cl \<Longrightarrow> os_faults env b = no_faults"
    and absent: "view (the (cl a)) (frq_path q) = None"
  defines "i \<equiv> i64_add (nextHandle (the (cl a))) 1"
  shows "fst (rpc_CreateFile env a q cl) = Reply \<lparr>crs_handle = i, crs_error = []\<rparr>"
    "partly_changed (reached env) (unreached env) a (Put [] 1) (frq_path q) cl (snd (rpc_CreateFile env a q cl))"
proof -
  obtain h where h: "cl a = Some h" "primary h" "server_ok h" using ok by (rule primary_okD)
  note key = no_entryD [OF new h(1)]
  have fa: "os_faults env a = no_faults" using flt [of a] h(1) by (simp add: replicas_def)
  let ?full = "outPath h (frq_path q)"
  have none: "map_of (disk h) ?full = None" using absent h n by (simp add: view_None)
  define h1 where "h1 = h\<lparr>disk := AList.update ?full (FFile []) (disk h),
    versions := (versions h)(?full \<mapsto> 1), nextHandle := i,
    handles := (handles h)(i \<mapsto> \<lparr>fh_path = ?full, fh_isWrite = True\<rparr>)\<rparr>"
  have eq: "rpc_CreateFile env a q cl =
      (Reply \<lparr>crs_handle = i, crs_error = []\<rparr>,
       at_server a (save_response (dedupKey (frq_client q) (frq_seq q))
           (SavedCreate \<lparr>crs_handle = i, crs_error = []\<rparr>))
         (replicateStreamToAll env a ''create'' (frq_path q) ?full 1 (cl(a \<mapsto> h1))))"
    using h key none by (simp add: rpc_CreateFile_def Let_def i_def h1_def os_simps fa)
  then show "fst (rpc_CreateFile env a q cl) = Reply \<lparr>crs_handle = i, crs_error = []\<rparr>"
    by simp
  show "partly_changed (reached env) (unreached env) a (Put [] 1) (frq_path q) cl (snd (rpc_CreateFile env a q cl))"
    unfolding eq snd_conv
  proof (rule replicated_change [OF ok h(1) n])
    fix b hb assume "cl b = Some hb" "server_ok hb" "b \<in> replicas a cl" "b \<noteq> a"
    then show "\<exists>hb'. snd (replicateStreamToPeer env a ''create'' (frq_path q) ?full 1 (cl(a \<mapsto> h1)) b) b
        = Some hb' \<and> takes_or_keeps (reached env b) (unreached env b) (Put [] 1) (frq_path q) hb hb'"
      by (intro peer_create good_ordinary [OF n]) (auto simp: flt)
  qed (auto simp: h1_def same_role_def)
qed

lemma CreateFile_refused:
  assumes ok: "primary_ok a cl" and n: "good_name (frq_path q)"
    and new: "no_entry a (frq_client q) (frq_seq q) cl" and flt: "os_faults env a = no_faults"
    and there: "view (the (cl a)) (frq_path q) \<noteq> None"
  shows "rpc_CreateFile env a q cl = (Reply \<lparr>crs_handle = 0, crs_error = ''file already exists: '' @ frq_path q\<rparr>, cl)"
proof -
  obtain h where h: "cl a = Some h" "primary h" "server_ok h" using ok by (rule primary_okD)
  have "map_of (disk h) (outPath h (frq_path q)) \<noteq> None" using there h(1) by (auto simp: view_def split: option.splits)
  then have "os_Stat no_faults (outPath h (frq_path q)) (disk h) = StatOk" by (auto simp: os_Stat_def)
  then show ?thesis using h no_entryD [OF new h(1)] flt by (simp add: rpc_CreateFile_def Let_def)
qed

lemma CreateFile_ok:
  assumes ok: "cluster_ok a cl" and n: "good_name (frq_path q)"
    and new: "no_entry a (frq_client q) (frq_seq q) cl"
    and absent: "view (the (cl a)) (frq_path q) = None"
  defines "i \<equiv> i64_add (nextHandle (the (cl a))) 1"
  shows "fst (rpc_CreateFile healthy a q cl) = Reply \<lparr>crs_handle = i, crs_error = []\<rparr>"
    "all_change a (Put [] 1) (frq_path q) cl (snd (rpc_CreateFile healthy a q cl))"
proof -
  note s = CreateFile_any [OF cluster_primary_ok [OF ok] n new healthy_sel(1) absent, folded i_def]
  show "fst (rpc_CreateFile healthy a q cl) = Reply \<lparr>crs_handle = i, crs_error = []\<rparr>" by (rule s(1))
  show "all_change a (Put [] 1) (frq_path q) cl (snd (rpc_CreateFile healthy a q cl))"
    by (rule partly_all [OF s(2) ok]) simp
qed

lemma DeleteFile_any:
  assumes ok: "primary_ok a cl" and n: "good_name (frq_path q)"
    and new: "no_entry a (frq_client q) (frq_seq q) cl"
    and flt: "\<And>b. b \<in> replicas a cl \<Longrightarrow> os_faults env b = no_faults"
  shows "fst (rpc_DeleteFile env a q cl) = Reply []"
    "partly_changed (reached env) (unreached env) a Del (frq_path q) cl (snd (rpc_DeleteFile env a q cl))"
proof -
  obtain h where h: "cl a = Some h" "primary h" "server_ok h" using ok by (rule primary_okD)
  note key = no_entryD [OF new h(1)]
  have fa: "os_faults env a = no_faults" using flt [of a] h(1) by (simp add: replicas_def)
  let ?full = "outPath h (frq_path q)"
  have nodir: "map_of (disk h) ?full \<noteq> Some FDir" using outPath_no_dir(1) [OF h(3) good_ordinary [OF n]] .
  define d where "d = rm no_faults ?full (disk h)"
  have dm: "map_of d = (map_of (disk h))(?full := None)" using nodir by (simp add: d_def rm_ok)
  define h1 where "h1 = h\<lparr>disk := d, versions := (versions h)(?full := None)\<rparr>"
  have eq: "rpc_DeleteFile env a q cl =
      (Reply [], at_server a (save_response (dedupKey (frq_client q) (frq_seq q)) (SavedDelete []))
         (replicateStreamToAll env a ''delete'' (frq_path q) ?full 0 (cl(a \<mapsto> h1))))"
    using h key nodir fa
    by (auto simp: rpc_DeleteFile_def Let_def h1_def d_def rm_def os_Remove_def
        split: option.splits fnode.splits)
  then show "fst (rpc_DeleteFile env a q cl) = Reply []" by simp
  show "partly_changed (reached env) (unreached env) a Del (frq_path q) cl (snd (rpc_DeleteFile env a q cl))"
    unfolding eq snd_conv
  proof (rule replicated_change [OF ok h(1) n])
    fix b hb assume "cl b = Some hb" "server_ok hb" "b \<in> replicas a cl" "b \<noteq> a"
    then show "\<exists>hb'. snd (replicateStreamToPeer env a ''delete'' (frq_path q) ?full 0 (cl(a \<mapsto> h1)) b) b
        = Some hb' \<and> takes_or_keeps (reached env b) (unreached env b) Del (frq_path q) hb hb'"
      by (intro peer_delete good_ordinary [OF n]) (auto simp: flt)
  qed (auto simp: h1_def same_role_def dm)
qed

lemma DeleteFile_ok:
  assumes ok: "cluster_ok a cl" and n: "good_name (frq_path q)"
    and new: "no_entry a (frq_client q) (frq_seq q) cl"
  shows "fst (rpc_DeleteFile healthy a q cl) = Reply []"
    "all_change a Del (frq_path q) cl (snd (rpc_DeleteFile healthy a q cl))"
proof -
  note s = DeleteFile_any [OF cluster_primary_ok [OF ok] n new healthy_sel(1)]
  show "fst (rpc_DeleteFile healthy a q cl) = Reply []" by (rule s(1))
  show "all_change a Del (frq_path q) cl (snd (rpc_DeleteFile healthy a q cl))"
    by (rule partly_all [OF s(2) ok]) simp
qed

section \<open>Requests delivered again\<close>

definition leads :: "string \<Rightarrow> cluster \<Rightarrow> bool" where
  "leads a cl \<longleftrightarrow> (\<exists>h. cl a = Some h \<and> primary h)"

definition table_at :: "string \<Rightarrow> cluster \<Rightarrow> string \<Rightarrow> saved option" where
  "table_at a cl k = (case cl a of None \<Rightarrow> None | Some h \<Rightarrow> dedupTable h k)"

definition saved_store :: "string \<Rightarrow> StoreChunk \<Rightarrow> cluster \<Rightarrow> StoreResponse option" where
  "saved_store a c cl =
     (case table_at a cl (dedupKey (sch_client c) (sch_seq c)) of Some (SavedStore r) \<Rightarrow> Some r | _ \<Rightarrow> None)"

definition saved_create :: "string \<Rightarrow> FileRequest \<Rightarrow> cluster \<Rightarrow> CreateResponse option" where
  "saved_create a q cl =
     (case table_at a cl (dedupKey (frq_client q) (frq_seq q)) of Some (SavedCreate r) \<Rightarrow> Some r | _ \<Rightarrow> None)"

definition saved_delete :: "string \<Rightarrow> FileRequest \<Rightarrow> cluster \<Rightarrow> string option" where
  "saved_delete a q cl =
     (case table_at a cl (dedupKey (frq_client q) (frq_seq q)) of Some (SavedDelete r) \<Rightarrow> Some r | _ \<Rightarrow> None)"

lemma saved_after:
  assumes "primary h1"
  shows "leads a (at_server a (save_response k r) (replicateStreamToAll env a op p full v (cl(a \<mapsto> h1))))"
    "table_at a (at_server a (save_response k r) (replicateStreamToAll env a op p full v (cl(a \<mapsto> h1)))) k = Some r"
proof -
  have "rel_option frame_disk (Some h1) (replicateStreamToAll env a op p full v (cl(a \<mapsto> h1)) a)"
    using replicateStreamToAll_frame [of "cl(a \<mapsto> h1)" a] by simp
  then obtain h2 where h2: "replicateStreamToAll env a op p full v (cl(a \<mapsto> h1)) a = Some h2" "frame_disk h1 h2"
    by (cases "replicateStreamToAll env a op p full v (cl(a \<mapsto> h1)) a") auto
  then show "leads a (at_server a (save_response k r) (replicateStreamToAll env a op p full v (cl(a \<mapsto> h1))))"
    "table_at a (at_server a (save_response k r) (replicateStreamToAll env a op p full v (cl(a \<mapsto> h1)))) k = Some r"
    using assms frame_disk_sel(1) [OF h2(2)]
    by (auto simp: leads_def table_at_def at_server_same)
qed

lemma table_other:
  assumes "k' \<noteq> k"
  shows "table_at a (at_server a (save_response k r)
    (replicateStreamToAll env a op p full v (cl(a \<mapsto> h1)))) k' = dedupTable h1 k'"
proof -
  have "rel_option frame_disk (Some h1) (replicateStreamToAll env a op p full v (cl(a \<mapsto> h1)) a)"
    using replicateStreamToAll_frame [of "cl(a \<mapsto> h1)" a] by simp
  then obtain h2 where h2: "replicateStreamToAll env a op p full v (cl(a \<mapsto> h1)) a = Some h2" "frame_disk h1 h2"
    by (cases "replicateStreamToAll env a op p full v (cl(a \<mapsto> h1)) a") auto
  then show ?thesis
    using assms frame_disk_sel(2) [OF h2(2)] by (auto simp: table_at_def at_server_same)
qed

text \<open>A call writes only its own entry of the table of responses.\<close>

lemma StoreFile_table:
  "k \<noteq> dedupKey (sch_client c) (sch_seq c) \<Longrightarrow>
   table_at a (snd (rpc_StoreFile env a (c # cs, rerr) cl)) k = table_at a cl k"
  by (cases "cl a") (auto simp: rpc_StoreFile_def Let_def table_other table_at_def [of a cl]
      table_at_def [of a "cl(a \<mapsto> x)" for x] split: option.splits saved.splits sum.splits prod.splits)

lemma CreateFile_table:
  "k \<noteq> dedupKey (frq_client q) (frq_seq q) \<Longrightarrow>
   table_at a (snd (rpc_CreateFile env a q cl)) k = table_at a cl k"
  by (cases "cl a") (auto simp: rpc_CreateFile_def Let_def table_other table_at_def [of a cl]
      split: option.splits saved.splits sum.splits)

lemma DeleteFile_table:
  "k \<noteq> dedupKey (frq_client q) (frq_seq q) \<Longrightarrow>
   table_at a (snd (rpc_DeleteFile env a q cl)) k = table_at a cl k"
  by (cases "cl a") (auto simp: rpc_DeleteFile_def Let_def table_other table_at_def [of a cl]
      split: option.splits saved.splits sum.splits prod.splits bool.splits)

lemma no_entry_table:
  "cluster_ok a cl \<Longrightarrow> no_entry a c sq cl \<longleftrightarrow> table_at a cl (dedupKey c sq) = None"
  by (auto simp: cluster_ok_def no_entry_def table_at_def split: option.splits)

interpretation store_replay: replay "\<lambda>(env, cs, rerr) c cl. rpc_StoreFile env a (c # cs, rerr) cl"
  "saved_store a" "leads a" "\<lambda>r. srs_error r = []" for a
proof unfold_locales
  fix e :: "env \<times> StoreChunk list \<times> string option" and c cl r cl'
  obtain env cs rerr where e: "e = (env, cs, rerr)" by (cases e)
  {
    assume "leads a cl" "saved_store a c cl = Some r"
    then show "(case e of (env, cs, rerr) \<Rightarrow> \<lambda>c. rpc_StoreFile env a (c # cs, rerr)) c cl = (Reply r, cl)"
      by (auto simp: e leads_def saved_store_def table_at_def rpc_StoreFile_def Let_def
          split: option.splits saved.splits)
  next
    assume s: "(case e of (env, cs, rerr) \<Rightarrow> \<lambda>c. rpc_StoreFile env a (c # cs, rerr)) c cl = (Reply r, cl')"
      "srs_error r = []"
    then obtain h where h: "cl a = Some h" by (cases "cl a") (auto simp: e rpc_StoreFile_def)
    then show "leads a cl' \<and> saved_store a c cl' = Some r"
    proof (cases rule: StoreFile_cases [where env = env and cs = "c # cs" and rerr = rerr])
      case refused
      then have "dedupTable h (dedupKey (sch_client c) (sch_seq c)) = Some (SavedStore r)" "cl' = cl"
        using s by (auto simp: e)
      moreover have "primary h"
        using s h by (auto simp: e rpc_StoreFile_def store_error_def not_primary_msg_def split: if_splits)
      ultimately show ?thesis using h by (auto simp: leads_def saved_store_def table_at_def)
    next
      case (failed d x)
      then show ?thesis using s by (auto simp: e)
    next
      case (stored d v h1)
      then show ?thesis using s saved_after [of h1] by (auto simp: e saved_store_def)
    qed
  }
qed

interpretation create_replay: replay "\<lambda>env q cl. rpc_CreateFile env a q cl"
  "saved_create a" "leads a" "\<lambda>r. crs_error r = []" for a
proof unfold_locales
  fix env q cl r cl'
  assume s: "rpc_CreateFile env a q cl = (Reply r, cl')" "crs_error r = []"
  then obtain h where h: "cl a = Some h" "primary h"
    by (auto simp: rpc_CreateFile_def not_primary_msg_def split: option.splits if_splits)
  show "leads a cl' \<and> saved_create a q cl' = Some r"
    using s h saved_after
    by (auto simp: rpc_CreateFile_def Let_def saved_create_def split: option.splits saved.splits sum.splits if_splits)
      (auto simp: leads_def table_at_def)
qed (auto simp: rpc_CreateFile_def leads_def saved_create_def table_at_def Let_def
    split: option.splits saved.splits)

interpretation delete_replay: replay "\<lambda>env q cl. rpc_DeleteFile env a q cl"
  "saved_delete a" "leads a" "\<lambda>r. r = []" for a
proof unfold_locales
  fix env q cl r cl'
  assume s: "rpc_DeleteFile env a q cl = (Reply r, cl')" "r = []"
  then obtain h where h: "cl a = Some h" "primary h"
    by (auto simp: rpc_DeleteFile_def not_primary_msg_def split: option.splits if_splits)
  show "leads a cl' \<and> saved_delete a q cl' = Some r"
    using s h saved_after
    by (auto simp: rpc_DeleteFile_def Let_def saved_delete_def split: option.splits saved.splits sum.splits
        prod.splits bool.splits)
      (auto simp: leads_def table_at_def)
qed (auto simp: rpc_DeleteFile_def leads_def saved_delete_def table_at_def Let_def
    split: option.splits saved.splits)

section \<open>The deployed cluster\<close>

definition compose :: cluster where
  "compose =
     [''s1:50051'' \<mapsto> compose_server compose_disk ''s1'' ''s1:50051'' True,
      ''s2:50052'' \<mapsto> compose_server compose_disk ''s2'' ''s2:50052'' False,
      ''s3:50053'' \<mapsto> compose_server compose_disk ''s3'' ''s3:50053'' False]"

lemma compose_server_sel [simp]:
  "outputDir (compose_server d i p b) = ''/data/output''" "primary (compose_server d i p b) = b"
  "inputDir (compose_server d i p b) = ''/data/input''" "serverAddr (compose_server d i p b) = p"
  "disk (compose_server d i p b) = d" "dedupTable (compose_server d i p b) = Map.empty"
  "versions (compose_server d i p b) = Map.empty" "nextHandle (compose_server d i p b) = 0"
  "serverID (compose_server d i p b) = i" "handles (compose_server d i p b) = Map.empty"
  by (simp_all add: compose_server_def)

lemma compose_server_ok: "server_ok (compose_server compose_disk i p b)"
proof -
  have "dir_prefix ''/data/output'' = ''/data/output/''" by code_simp
  then show ?thesis by (simp add: server_ok_def compose_disk_def)
qed

lemma compose_ok: "cluster_ok ''s1:50051'' compose"
  by (auto simp: cluster_ok_def replicas_def compose_def compose_server_ok)
    (auto simp: compose_server_def compose_peers_def)

lemma primes_txt_good: "good_name ''primes.txt''" by code_simp

lemma compose_no_entry: "no_entry ''s1:50051'' c k compose"
  by (simp add: no_entry_def compose_def)

section \<open>Properties of the write path\<close>

text \<open>
  C4: a store is atomic on the serving machine, whatever the operating system, the
  network and the stream do: either every file but the temporary one is as before and the
  version table is untouched, or the call reported success, the stream was complete, the
  target holds exactly the bytes received, and no other file changed.
\<close>

theorem StoreFile_atomic:
  assumes "cl a = Some h" "a \<notin> peer_addr ` set (peers h)"
  shows "\<exists>h'. snd (rpc_StoreFile env a (cs, rerr) cl) a = Some h' \<and>
    (let full = outPath h (sch_path (hd cs)) in
      same_except {tmpOf full} (disk h) (disk h') \<and> versions h' = versions h \<or>
      (\<exists>v. fst (rpc_StoreFile env a (cs, rerr) cl) = Reply \<lparr>srs_version = v, srs_error = []\<rparr>) \<and>
      rerr = None \<and> map_of (disk h') full = Some (FFile (concat (map sch_data cs))) \<and>
      same_except {full, tmpOf full} (disk h) (disk h'))"
  using assms(1)
proof (cases rule: StoreFile_cases [where env = env and cs = cs and rerr = rerr])
  case refused
  then show ?thesis using assms(1) by (auto simp: Let_def)
next
  case (failed d r)
  then show ?thesis by (auto simp: Let_def)
next
  case (stored d v h1)
  have "snd (rpc_StoreFile env a (cs, rerr) cl) a =
      Some (save_response (dedupKey (sch_client (hd cs)) (sch_seq (hd cs)))
        (SavedStore \<lparr>srs_version = v, srs_error = []\<rparr>) h1)"
    unfolding stored(8) snd_conv using assms(2) stored(7) by (intro after_replication) auto
  then show ?thesis using stored by (auto simp: Let_def same_except_def)
qed

theorem StoreFile_atomic_witness:
  "\<exists>h'. snd (rpc_StoreFile healthy ''s1:50051''
      ([\<lparr>sch_path = ''primes.txt'', sch_data = ''2'', sch_client = ''c'', sch_seq = 1\<rparr>], Some ''cut'')
      compose) ''s1:50051'' = Some h' \<and> map_of (disk h') ''/data/output/primes.txt'' = None"
proof -
  define h where "h = compose_server compose_disk ''s1'' ''s1:50051'' True"
  have a: "compose ''s1:50051'' = Some h" by (simp add: compose_def h_def)
  have b: "''s1:50051'' \<notin> peer_addr ` set (peers h)"
    by (simp add: h_def compose_server_def compose_peers_def)
  have "path_Join ''/data/output'' (path_Base ''primes.txt'') = ''/data/output/primes.txt''" by code_simp
  then have p: "outPath h ''primes.txt'' = ''/data/output/primes.txt''" by (simp add: outPath_def h_def)
  show ?thesis
    using StoreFile_atomic [where cl = compose and a = "''s1:50051''" and h = h and env = healthy
        and cs = "[\<lparr>sch_path = ''primes.txt'', sch_data = ''2'', sch_client = ''c'', sch_seq = 1\<rparr>]"
        and rerr = "Some ''cut''", OF a b]
    by (auto simp: p same_except_def tmpOf_def h_def compose_disk_def)
qed

text \<open>
  C7: a store with a new request number on a primary whose own disk works succeeds with the next
  version of the file, whatever the peers, their disks and the links to them do: errors of
  the replication are not reported. The primary then maps the name to the concatenated
  chunks and that version, every other name as before. A running backup makes the same change
  or keeps its files as they were; it makes the change when the link delivers the stream and
  its disk works, and keeps its files when the link is down or cut, or when there is no data.
  So all replicas make the change, and the cluster stays well-formed, when every backup runs
  and is reached.
\<close>

theorem StoreFile_refines_put:
  assumes "primary_ok a cl" "good_name (sch_path c)" "no_entry a (sch_client c) (sch_seq c) cl"
    "os_faults env a = no_faults" "data = concat (map sch_data (c # cs))"
    "rpc_StoreFile env a (c # cs, None) cl = (r, cl')"
  shows "r = Reply \<lparr>srs_version = next_version a cl (sch_path c), srs_error = []\<rparr> \<and>
    partly_changed (\<lambda>b. data \<noteq> [] \<and> reached env b) (\<lambda>b. data = [] \<or> \<not> delivers env b) a
      (Put data (next_version a cl (sch_path c))) (sch_path c) cl cl' \<and>
    (cluster_ok a cl \<and> data \<noteq> [] \<and> (\<forall>b \<in> replicas a cl. b \<noteq> a \<longrightarrow> reached env b) \<longrightarrow>
      all_change a (Put data (next_version a cl (sch_path c))) (sch_path c) cl cl' \<and> cluster_ok a cl')"
proof -
  note s = StoreFile_any [OF assms(1-5), unfolded assms(6) fst_conv snd_conv]
  then show ?thesis using partly_all [OF s(2)] all_change_ok(1) by blast
qed

text \<open>The link to one backup is down: the store succeeds, and that backup does not have the file.\<close>

theorem StoreFile_refines_put_witness:
  "\<exists>cl'. rpc_StoreFile (healthy\<lparr>links := (\<lambda>b. if b = ''s2:50052'' then LinkDown else LinkUp)\<rparr>) ''s1:50051''
      ([\<lparr>sch_path = ''primes.txt'', sch_data = ''2'', sch_client = ''c'', sch_seq = 1\<rparr>], None) compose =
        (Reply \<lparr>srs_version = 1, srs_error = []\<rparr>, cl') \<and>
    view (the (cl' ''s1:50051'')) ''primes.txt'' = Some (''2'', 1) \<and>
    view (the (cl' ''s3:50053'')) ''primes.txt'' = Some (''2'', 1) \<and>
    view (the (cl' ''s2:50052'')) ''primes.txt'' = None"
proof -
  let ?env = "healthy\<lparr>links := (\<lambda>b. if b = ''s2:50052'' then LinkDown else LinkUp)\<rparr>"
  let ?c = "\<lparr>sch_path = ''primes.txt'', sch_data = ''2'', sch_client = ''c'', sch_seq = 1\<rparr>"
  have n: "good_name (sch_path ?c)" by code_simp
  obtain r cl' where e: "rpc_StoreFile ?env ''s1:50051'' ([?c], None) compose = (r, cl')" by (metis surj_pair)
  have v: "next_version ''s1:50051'' compose ''primes.txt'' = 1"
    by (simp add: next_version_def compose_def i64_add_def i64_wrap_def)
  have s: "r = Reply \<lparr>srs_version = 1, srs_error = []\<rparr>"
    "partly_changed (\<lambda>b. ''2'' \<noteq> [] \<and> reached ?env b) (\<lambda>b. ''2'' = [] \<or> \<not> delivers ?env b) ''s1:50051'' (Put ''2'' 1) ''primes.txt'' compose cl'"
    using StoreFile_refines_put [OF cluster_primary_ok [OF compose_ok] n _ _ _ e, of "''2''"]
    by (simp_all add: compose_no_entry v healthy_def)
  have rp: "''s2:50052'' \<in> replicas ''s1:50051'' compose" "''s3:50053'' \<in> replicas ''s1:50051'' compose"
    by (simp_all add: replicas_def compose_def compose_server_def compose_peers_def)
  have up: "reached ?env ''s3:50053''" "\<not> delivers ?env ''s2:50052''"
    by (simp_all add: reached_def delivers_def healthy_def)
  have c2: "compose ''s2:50052'' = Some (compose_server compose_disk ''s2'' ''s2:50052'' False)" by (simp add: compose_def)
  obtain h1 h1' where "cl' ''s1:50051'' = Some h1'" "changed (Put ''2'' 1) ''primes.txt'' h1 h1'"
    using s(2) unfolding partly_changed_def by (auto dest!: spec [of _ "''s1:50051''"])
  moreover obtain h3 h3' where "cl' ''s3:50053'' = Some h3'" "changed (Put ''2'' 1) ''primes.txt'' h3 h3'"
    using s(2) rp(2) up(1) unfolding partly_changed_def
    by (auto dest!: spec [of _ "''s3:50053''"] split: if_splits) (auto simp: compose_def)
  moreover obtain h2' where "cl' ''s2:50052'' = Some h2'"
      "kept ''primes.txt'' (compose_server compose_disk ''s2'' ''s2:50052'' False) h2'"
    using s(2) rp(1) up(2) c2 unfolding partly_changed_def by (auto dest!: spec [of _ "''s2:50052''"])
  moreover have "view (compose_server compose_disk ''s2'' ''s2:50052'' False) ''primes.txt'' = None"
  proof -
    have "path_Join ''/data/output'' (path_Base ''primes.txt'') = ''/data/output/primes.txt''" by code_simp
    then show ?thesis by (simp add: view_def outPath_def compose_disk_def)
  qed
  ultimately show ?thesis
    using e s(1) primes_txt_good kept_view [OF _ compose_server_ok primes_txt_good primes_txt_good] by (simp add: changed_def)
qed

text \<open>
  C13: let the disks of the replicas work, and let the links to the backups do anything. Then
  \<open>CreateFile\<close> (with a new request number) of a name the primary has is refused and changes
  nothing; of another name it succeeds, and the primary has an empty file of version 1 under
  it; \<open>DeleteFile\<close> succeeds, and the primary no longer has the name. A running backup makes the
  same change or keeps its files, without notice to the client: it makes the change when the
  link delivers the call, and keeps its files when the call does not get through. When every
  backup runs and is reached, all replicas make the change.
\<close>

theorem Create_Delete_refine:
  assumes "primary_ok a cl" "good_name (frq_path q)" "no_entry a (frq_client q) (frq_seq q) cl"
    "\<forall>b \<in> replicas a cl. os_faults env b = no_faults"
    "rpc_CreateFile env a q cl = (r, cl')" "rpc_DeleteFile env a q cl = (r', cl'')"
  shows "(if view (the (cl a)) (frq_path q) = None
      then (\<exists>i. r = Reply \<lparr>crs_handle = i, crs_error = []\<rparr>) \<and>
        partly_changed (reached env) (unreached env) a (Put [] 1) (frq_path q) cl cl' \<and>
        (cluster_ok a cl \<and> (\<forall>b \<in> replicas a cl. b \<noteq> a \<longrightarrow> reached env b) \<longrightarrow>
          all_change a (Put [] 1) (frq_path q) cl cl' \<and> cluster_ok a cl')
      else r = Reply \<lparr>crs_handle = 0, crs_error = ''file already exists: '' @ frq_path q\<rparr> \<and> cl' = cl) \<and>
    r' = Reply [] \<and> partly_changed (reached env) (unreached env) a Del (frq_path q) cl cl'' \<and>
    (cluster_ok a cl \<and> (\<forall>b \<in> replicas a cl. b \<noteq> a \<longrightarrow> reached env b) \<longrightarrow>
      all_change a Del (frq_path q) cl cl'' \<and> cluster_ok a cl'')"
proof -
  have flt: "\<And>b. b \<in> replicas a cl \<Longrightarrow> os_faults env b = no_faults" using assms(4) by blast
  obtain h where "cl a = Some h" using assms(1) by (rule primary_okD)
  then have fa: "os_faults env a = no_faults" using flt [of a] by (simp add: replicas_def)
  note d = DeleteFile_any [OF assms(1-3) flt, unfolded assms(6) fst_conv snd_conv]
  have del: "r' = Reply [] \<and> partly_changed (reached env) (unreached env) a Del (frq_path q) cl cl'' \<and>
    (cluster_ok a cl \<and> (\<forall>b \<in> replicas a cl. b \<noteq> a \<longrightarrow> reached env b) \<longrightarrow>
      all_change a Del (frq_path q) cl cl'' \<and> cluster_ok a cl'')"
    using d partly_all [OF d(2)] all_change_ok(1) by blast
  show ?thesis
  proof (cases "view (the (cl a)) (frq_path q) = None")
    case True
    note c = CreateFile_any [OF assms(1-3) flt True, unfolded assms(5) fst_conv snd_conv]
    have "(\<exists>i. r = Reply \<lparr>crs_handle = i, crs_error = []\<rparr>) \<and>
        partly_changed (reached env) (unreached env) a (Put [] 1) (frq_path q) cl cl' \<and>
        (cluster_ok a cl \<and> (\<forall>b \<in> replicas a cl. b \<noteq> a \<longrightarrow> reached env b) \<longrightarrow>
          all_change a (Put [] 1) (frq_path q) cl cl' \<and> cluster_ok a cl')"
      using c partly_all [OF c(2)] all_change_ok(1) by blast
    then show ?thesis using del True by simp
  next
    case False
    then show ?thesis using del CreateFile_refused [OF assms(1-3) fa] assms(5) by simp
  qed
qed

theorem Create_Delete_refine_witness:
  "fst (rpc_DeleteFile healthy ''s1:50051''
      \<lparr>frq_path = ''primes.txt'', frq_client = ''c'', frq_seq = 1\<rparr> compose) = Reply [] \<and>
   all_change ''s1:50051'' Del ''primes.txt'' compose (snd (rpc_DeleteFile healthy ''s1:50051''
      \<lparr>frq_path = ''primes.txt'', frq_client = ''c'', frq_seq = 1\<rparr> compose))"
proof -
  let ?q = "\<lparr>frq_path = ''primes.txt'', frq_client = ''c'', frq_seq = 1\<rparr>"
  have n: "good_name (frq_path ?q)" by code_simp
  obtain r cl' r' cl'' where e: "rpc_CreateFile healthy ''s1:50051'' ?q compose = (r, cl')"
    "rpc_DeleteFile healthy ''s1:50051'' ?q compose = (r', cl'')" by (metis surj_pair)
  show ?thesis
    using Create_Delete_refine [OF cluster_primary_ok [OF compose_ok] n _ _ e] compose_ok
    by (simp add: compose_no_entry e(2))
qed

text \<open>
  C6: at-least-once delivery has exactly-once effect. Once \<open>StoreFile\<close>, \<open>CreateFile\<close> or
  \<open>DeleteFile\<close> has answered a request with success, any number of further deliveries of that
  request, under any behaviour of disks, links and (for a store) of the rest of the stream,
  returns the same response and leaves the whole cluster as it is.
\<close>

theorem writes_exactly_once:
  "(\<forall>r. rpc_StoreFile env a (c # cs, rerr) cl = (Reply r, cl') \<and> srs_error r = [] \<longrightarrow>
     foldl (\<lambda>(x, cl) (env, cs, rerr). rpc_StoreFile env a (c # cs, rerr) cl) (Reply r, cl') es = (Reply r, cl')) \<and>
   (\<forall>r. rpc_CreateFile env a q cl = (Reply r, cl') \<and> crs_error r = [] \<longrightarrow>
     foldl (\<lambda>(x, cl) env. rpc_CreateFile env a q cl) (Reply r, cl') envs = (Reply r, cl')) \<and>
   (rpc_DeleteFile env a q cl = (Reply [], cl') \<longrightarrow>
     foldl (\<lambda>(x, cl) env. rpc_DeleteFile env a q cl) (Reply [], cl') envs = (Reply [], cl'))"
proof (intro conjI allI impI)
  fix r assume "rpc_StoreFile env a (c # cs, rerr) cl = (Reply r, cl') \<and> srs_error r = []"
  then show "foldl (\<lambda>(x, cl) (env, cs, rerr). rpc_StoreFile env a (c # cs, rerr) cl) (Reply r, cl') es = (Reply r, cl')"
    using store_replay.again_many [where e = "(env, cs, rerr)" and q = c and s = cl and r = r and s' = cl' and es = es]
    by (simp add: case_prod_beta')
next
  fix r assume "rpc_CreateFile env a q cl = (Reply r, cl') \<and> crs_error r = []"
  then show "foldl (\<lambda>(x, cl) env. rpc_CreateFile env a q cl) (Reply r, cl') envs = (Reply r, cl')"
    using create_replay.again_many by blast
next
  assume "rpc_DeleteFile env a q cl = (Reply [], cl')"
  then show "foldl (\<lambda>(x, cl) env. rpc_DeleteFile env a q cl) (Reply [], cl') envs = (Reply [], cl')"
    using delete_replay.again_many by blast
qed

theorem writes_exactly_once_witness:
  "foldl (\<lambda>(x, cl) env. rpc_DeleteFile env ''s1:50051''
       \<lparr>frq_path = ''primes.txt'', frq_client = ''c'', frq_seq = 1\<rparr> cl)
     (rpc_DeleteFile healthy ''s1:50051'' \<lparr>frq_path = ''primes.txt'', frq_client = ''c'', frq_seq = 1\<rparr> compose)
     [healthy, healthy] =
   rpc_DeleteFile healthy ''s1:50051'' \<lparr>frq_path = ''primes.txt'', frq_client = ''c'', frq_seq = 1\<rparr> compose"
proof -
  let ?q = "\<lparr>frq_path = ''primes.txt'', frq_client = ''c'', frq_seq = 1\<rparr>"
  have n: "good_name ''primes.txt''" by code_simp
  have "fst (rpc_DeleteFile healthy ''s1:50051'' ?q compose) = Reply []"
    using n by (intro DeleteFile_ok(1) compose_ok) (simp_all add: compose_no_entry)
  then obtain cl' where e: "rpc_DeleteFile healthy ''s1:50051'' ?q compose = (Reply [], cl')"
    by (metis prod.collapse)
  show ?thesis
    using writes_exactly_once [where q = ?q and cl = compose and a = "''s1:50051''" and cl' = cl'
        and env = healthy and envs = "[healthy, healthy]"] unfolding e by blast
qed

text \<open>
  C34: the key of the table of responses separates requests: no two different pairs of
  client id and request number share a key, whatever characters the client id holds.
\<close>

theorem dedupKey_injective: "dedupKey c s = dedupKey c' s' \<longleftrightarrow> c = c' \<and> s = s'"
  by (rule dedupKey_eq_iff)

end
