(* ===== verification/Afs_Election.thy ===== *)
theory Afs_Election
  imports Afs_Replication
begin

text \<open>
  \<open>afsfs/pkg/server/election.go\<close> and \<open>heartbeat.go\<close>: who is primary. Functions on one server
  first, then the ones that call other servers, then a step relation for the whole cluster in
  which processes crash and start, messages are lost, and each background goroutine takes its
  turns.

  \<open>GetPrimary\<close> of a backup calls \<open>GetPrimary\<close> of other servers, which may call back without
  end. Every call has a deadline, counted from its own start, so the model keeps a clock in
  milliseconds: a call to a process that does not run is refused at once, a call to an
  unreachable address takes its whole deadline, and an answer that comes at the deadline or
  later is an error for the caller. A chain of calls deeper than the fuel is one that does not
  return before the deadline.
\<close>

section \<open>One server\<close>

definition heartbeatInterval :: nat where
  "heartbeatInterval = 1000"

definition heartbeatTimeout :: nat where
  "heartbeatTimeout = 3000"

definition monitorPoll :: nat where
  "monitorPoll = 500"

definition startupGrace :: nat where
  "startupGrace = 6000"

definition setKnownPrimary :: "string \<Rightarrow> server \<Rightarrow> server" where
  "setKnownPrimary addr h = h\<lparr>knownPrimaryAddr := addr, primary := (addr = serverAddr h)\<rparr>"

definition resetHeartbeat :: "nat \<Rightarrow> server \<Rightarrow> server" where
  "resetHeartbeat now h = h\<lparr>lastHeartbeat := now\<rparr>"

definition promoteToPrimary :: "nat \<Rightarrow> server \<Rightarrow> server" where
  "promoteToPrimary now h =
     (let h1 = resetHeartbeat now (h\<lparr>primary := True, knownPrimaryAddr := serverAddr h\<rparr>)
      in if senderRunning h1 then h1 else startHeartbeatSender (h1\<lparr>senderRunning := True\<rparr>))"

definition rpc_AnnouncePrimary :: "string \<Rightarrow> server \<Rightarrow> server" where
  "rpc_AnnouncePrimary primaryAddr h = startSync (setKnownPrimary primaryAddr h)"

definition rpc_Heartbeat :: "nat \<Rightarrow> string \<Rightarrow> server \<Rightarrow> bool \<times> server" where
  "rpc_Heartbeat now server_id h =
     (let h1 = h\<lparr>lastHeartbeat := now\<rparr>;
          h2 = (if primary h1 then h1
                else case filter (\<lambda>p. peer_id p = server_id) (peers h1) of
                       [] \<Rightarrow> h1
                     | p # _ \<Rightarrow> h1\<lparr>knownPrimaryAddr := peer_addr p\<rparr>)
      in (primary h2, h2))"

text \<open>
  \<open>Heartbeat\<close> checks the role and writes \<open>knownPrimaryAddr\<close> under two locks. \<open>Heartbeat_check\<close> is
  the part up to the second lock: the address that is then written, if any. \<open>rpc_Heartbeat\<close> is the
  whole handler with no other goroutine in between.
\<close>

definition Heartbeat_check :: "nat \<Rightarrow> string \<Rightarrow> server \<Rightarrow> string option \<times> server" where
  "Heartbeat_check now server_id h =
     (let h1 = h\<lparr>lastHeartbeat := now\<rparr>
      in (if primary h1 then None
          else case filter (\<lambda>p. peer_id p = server_id) (peers h1) of [] \<Rightarrow> None | p # _ \<Rightarrow> Some (peer_addr p),
          h1))"

lemma Heartbeat_split:
  "snd (rpc_Heartbeat now server_id h) =
     (case Heartbeat_check now server_id h of
        (None, h1) \<Rightarrow> h1
      | (Some addr, h1) \<Rightarrow> h1\<lparr>knownPrimaryAddr := addr\<rparr>)"
  by (simp add: rpc_Heartbeat_def Heartbeat_check_def Let_def split: list.split)

section \<open>Finding the primary\<close>

type_synonym net = "cluster \<times> nat"

type_synonym primary_rpc = "nat \<Rightarrow> string \<Rightarrow> net \<Rightarrow> string option \<times> net"

text \<open>\<open>isAlive\<close> asks for the primary and drops the answer.\<close>

definition isAlive :: "primary_rpc \<Rightarrow> string \<Rightarrow> net \<Rightarrow> bool \<times> net" where
  "isAlive rpc addr s = (case rpc 1000 addr s of (r, s') \<Rightarrow> (r \<noteq> None, s'))"

text \<open>The first peer that answers with a non-empty address.\<close>

fun ask_peers :: "primary_rpc \<Rightarrow> string list \<Rightarrow> net \<Rightarrow> string option \<times> net" where
  "ask_peers rpc [] s = (None, s)"
| "ask_peers rpc (p # ps) s =
     (case rpc 2000 p s of
        (Some addr, s') \<Rightarrow> if addr \<noteq> [] then (Some addr, s') else ask_peers rpc ps s'
      | (None, s') \<Rightarrow> ask_peers rpc ps s')"

text \<open>The check that the remembered primary answers: its peer connection, then a fresh one.\<close>

definition verify_known :: "primary_rpc \<Rightarrow> string \<Rightarrow> string list \<Rightarrow> net \<Rightarrow> bool \<times> net" where
  "verify_known rpc known addrs s =
     (case (if known \<in> set addrs then isAlive rpc known s else (False, s)) of
        (True, s1) \<Rightarrow> (True, s1)
      | (False, s1) \<Rightarrow> isAlive rpc known s1)"

text \<open>
  The handler with no other goroutine of the same server in between. The role is read before the
  pings and \<open>knownPrimaryAddr\<close> is cleared after them without another look at the role; the steps
  \<open>doubt\<close> and \<open>write_late\<close> of the cluster below take the two parts apart.
\<close>

definition GetPrimary_handler :: "primary_rpc \<Rightarrow> string \<Rightarrow> server \<Rightarrow> net \<Rightarrow> string \<times> net" where
  "GetPrimary_handler rpc a h s =
     (if primary h then (serverAddr h, s)
      else
        let known = knownPrimaryAddr h;
            addrs = map peer_addr (peers h);
            (verified, s1) =
              (if known \<noteq> [] then verify_known rpc known addrs s else (False, s))
        in if verified then (known, s1)
           else
             let s2 = (if known \<noteq> []
                       then apfst (at_server a (\<lambda>h. h\<lparr>knownPrimaryAddr := []\<rparr>)) s1 else s1)
             in (case ask_peers rpc addrs s2 of
                   (Some addr, s3) \<Rightarrow> (addr, s3)
                 | (None, s3) \<Rightarrow> ([], s3)))"

fun GetPrimary :: "nat \<Rightarrow> (string \<Rightarrow> bool) \<Rightarrow> primary_rpc" where
  "GetPrimary 0 up dl a (cl, now) = (None, cl, now + dl)"
| "GetPrimary (Suc k) up dl a (cl, now) =
     (if \<not> up a then (None, cl, now + dl)
      else case cl a of
             None \<Rightarrow> (None, cl, now)
           | Some h \<Rightarrow>
               (case GetPrimary_handler (GetPrimary k up) a h (cl, now) of
                  (r, cl', t) \<Rightarrow>
                    if t < now + dl then (Some r, cl', t) else (None, cl', now + dl)))"

definition resolvePrimaryAddr :: "primary_rpc \<Rightarrow> server \<Rightarrow> net \<Rightarrow> string \<times> net" where
  "resolvePrimaryAddr rpc h s =
     (let known = knownPrimaryAddr h
      in if known \<noteq> [] \<and> known \<noteq> serverAddr h then (known, s)
         else (case ask_peers rpc (map peer_addr (peers h)) s of
                 (Some addr, s') \<Rightarrow> (addr, s')
               | (None, s') \<Rightarrow> ([], s')))"

section \<open>Election\<close>

text \<open>The loop over the peers: the winner so far, the peers found alive, the cluster.\<close>

fun poll_peers ::
  "primary_rpc \<Rightarrow> peer list \<Rightarrow> string \<times> string \<Rightarrow> peer list \<Rightarrow> net \<Rightarrow>
   ((string \<times> string) \<times> peer list) \<times> net" where
  "poll_peers rpc [] winner live s = ((winner, live), s)"
| "poll_peers rpc (p # ps) winner live s =
     (case isAlive rpc (peer_addr p) s of
        (True, s') \<Rightarrow>
          poll_peers rpc ps
            (if peer_id p < fst winner then (peer_id p, peer_addr p) else winner)
            (live @ [p]) s'
      | (False, s') \<Rightarrow> poll_peers rpc ps winner live s')"

record announcement =
  ann_to :: string
  ann_addr :: string
  ann_id :: string

definition broadcastAnnouncePrimary :: "server \<Rightarrow> peer list \<Rightarrow> announcement list" where
  "broadcastAnnouncePrimary h livePeers =
     map (\<lambda>p. \<lparr>ann_to = peer_addr p, ann_addr = serverAddr h, ann_id = serverID h\<rparr>) livePeers"

text \<open>The part of \<open>startElection\<close> after the loop.\<close>

definition election_result ::
  "nat \<Rightarrow> (string \<times> string) \<times> peer list \<Rightarrow> server \<Rightarrow> announcement list \<times> server" where
  "election_result now res h =
     (case res of ((winnerID, winnerAddr), livePeers) \<Rightarrow>
        if winnerID = serverID h
        then (broadcastAnnouncePrimary h livePeers, promoteToPrimary now h)
        else ([], startSync (setKnownPrimary winnerAddr h)))"

definition startElection :: "primary_rpc \<Rightarrow> string \<Rightarrow> server \<Rightarrow> net \<Rightarrow> announcement list \<times> net" where
  "startElection rpc a h s =
     (case poll_peers rpc (peers h) (serverID h, serverAddr h) [] s of
        (res, cl, t) \<Rightarrow>
          (case cl a of
             None \<Rightarrow> ([], cl, t)
           | Some h1 \<Rightarrow>
               (case election_result t res h1 of (msgs, h2) \<Rightarrow> (msgs, cl(a \<mapsto> h2), t))))"

section \<open>Heartbeats\<close>

definition sendHeartbeat :: "(string \<Rightarrow> bool) \<Rightarrow> nat \<Rightarrow> string \<Rightarrow> cluster \<Rightarrow> nat \<Rightarrow> cluster" where
  "sendHeartbeat up now a cl i =
     (case cl a of
        None \<Rightarrow> cl
      | Some h \<Rightarrow>
          if i < length (peers h) then
            let p = peers h ! i;
                count = (\<lambda>f. at_server a (\<lambda>h. h\<lparr>peers := (peers h)[i := p\<lparr>peer_failCount := f\<rparr>]\<rparr>))
            in (case (if up (peer_addr p) then cl (peer_addr p) else None) of
                  None \<Rightarrow> count (i64_add (peer_failCount p) 1) cl
                | Some hp \<Rightarrow> count 0 (cl(peer_addr p \<mapsto> snd (rpc_Heartbeat now (serverID h) hp))))
          else cl)"

text \<open>One round of the sender goroutine after its sleep.\<close>

definition sender_tick :: "(string \<Rightarrow> bool) \<Rightarrow> nat \<Rightarrow> string \<Rightarrow> cluster \<Rightarrow> cluster" where
  "sender_tick up now a cl =
     (case cl a of
        None \<Rightarrow> cl
      | Some h \<Rightarrow>
          if \<not> primary h then cl(a \<mapsto> h\<lparr>gr_sender := gr_sender h - 1\<rparr>)
          else foldl (sendHeartbeat up now a) cl [0..<length (peers h)])"

text \<open>
  One round of the monitor goroutine after its sleep, in the two parts other goroutines can
  run between: the check of the clock with the poll of the peers, which gives the outcome of
  the poll when an election is on, and what follows the poll.
\<close>

definition monitor_begin ::
  "primary_rpc \<Rightarrow> string \<Rightarrow> server \<Rightarrow> net \<Rightarrow> ((string \<times> string) \<times> peer list) option \<times> net" where
  "monitor_begin rpc a h s =
     (if primary h then (None, apfst (at_server a (\<lambda>h. h\<lparr>gr_monitor := False\<rparr>)) s)
      else if heartbeatTimeout < snd s - lastHeartbeat h then
        apfst Some (poll_peers rpc (peers h) (serverID h, serverAddr h) []
          (apfst (at_server a (resetHeartbeat (snd s))) s))
      else (None, s))"

definition monitor_end ::
  "nat \<Rightarrow> (string \<times> string) \<times> peer list \<Rightarrow> server \<Rightarrow> announcement list \<times> server" where
  "monitor_end now res h =
     (case election_result now res h of
        (msgs, h1) \<Rightarrow>
          (msgs, if primary h1 then h1\<lparr>gr_monitor := False\<rparr> else resetHeartbeat now h1))"

text \<open>The whole round with no other goroutine in between.\<close>

definition monitor_tick ::
  "primary_rpc \<Rightarrow> string \<Rightarrow> server \<Rightarrow> net \<Rightarrow> announcement list \<times> net" where
  "monitor_tick rpc a h s =
     (if primary h then ([], apfst (at_server a (\<lambda>h. h\<lparr>gr_monitor := False\<rparr>)) s)
      else if heartbeatTimeout < snd s - lastHeartbeat h then
        (case startElection rpc a h (apfst (at_server a (resetHeartbeat (snd s))) s) of
           (msgs, cl1, t) \<Rightarrow>
             (msgs, at_server a (\<lambda>h. if primary h then h\<lparr>gr_monitor := False\<rparr>
                                     else resetHeartbeat t h) cl1, t))
      else ([], s))"

lemma monitor_tick_split:
  "monitor_tick rpc a h s =
     (case monitor_begin rpc a h s of
        (None, s') \<Rightarrow> ([], s')
      | (Some res, cl, t) \<Rightarrow>
          (case cl a of
             None \<Rightarrow> ([], cl, t)
           | Some h1 \<Rightarrow> (case monitor_end t res h1 of (msgs, h2) \<Rightarrow> (msgs, cl(a \<mapsto> h2), t))))"
  by (simp add: monitor_tick_def monitor_begin_def monitor_end_def startElection_def at_server_def
      case_prod_beta split: option.splits)

section \<open>Calls that only look for the primary\<close>

text \<open>
  What a search for the primary may do to a server: nothing, or, on a backup, forget a
  primary that did not answer.
\<close>

definition forgets :: "server \<Rightarrow> server \<Rightarrow> bool" where
  "forgets h h' \<longleftrightarrow> h' = h \<or> (\<not> primary h \<and> h' = h\<lparr>knownPrimaryAddr := []\<rparr>)"

lemma forgets_refl [simp]: "forgets h h"
  by (simp add: forgets_def)

lemma forgets_trans: "forgets h h' \<Longrightarrow> forgets h' h'' \<Longrightarrow> forgets h h''"
  by (auto simp: forgets_def)

lemma forgets_sel:
  assumes "forgets h h'"
  shows "primary h' = primary h" "serverAddr h' = serverAddr h" "serverID h' = serverID h"
    "peers h' = peers h" "gr_monitor h' = gr_monitor h" "gr_sender h' = gr_sender h"
    "senderRunning h' = senderRunning h" "lastHeartbeat h' = lastHeartbeat h"
  using assms by (auto simp: forgets_def)

definition cl_forgets :: "cluster \<Rightarrow> cluster \<Rightarrow> bool" where
  "cl_forgets cl cl' \<longleftrightarrow> (\<forall>b. rel_option forgets (cl b) (cl' b))"

lemma cl_forgets_refl [simp]: "cl_forgets cl cl"
  by (simp add: cl_forgets_def option.rel_refl)

lemma cl_forgets_trans: "cl_forgets cl cl' \<Longrightarrow> cl_forgets cl' cl'' \<Longrightarrow> cl_forgets cl cl''"
  unfolding cl_forgets_def
proof
  fix b assume a: "\<forall>b. rel_option forgets (cl b) (cl' b)" "\<forall>b. rel_option forgets (cl' b) (cl'' b)"
  then have "rel_option forgets (cl b) (cl' b)" "rel_option forgets (cl' b) (cl'' b)" by blast+
  then show "rel_option forgets (cl b) (cl'' b)"
    by (cases "cl b"; cases "cl' b"; cases "cl'' b") (auto intro: forgets_trans)
qed

lemma cl_forgetsD:
  "cl_forgets cl cl' \<Longrightarrow> cl b = Some h \<Longrightarrow> \<exists>h'. cl' b = Some h' \<and> forgets h h'"
  unfolding cl_forgets_def by (metis option_rel_Some1)

lemma cl_forgets_None: "cl_forgets cl cl' \<Longrightarrow> cl' b = None \<longleftrightarrow> cl b = None"
  unfolding cl_forgets_def by (metis option.rel_distinct(1) option.rel_distinct(2) option.exhaust)

definition alive_peer :: "(string \<Rightarrow> bool) \<Rightarrow> cluster \<Rightarrow> string \<Rightarrow> bool" where
  "alive_peer up cl a \<longleftrightarrow> up a \<and> cl a \<noteq> None"

definition primary_at :: "(string \<Rightarrow> bool) \<Rightarrow> cluster \<Rightarrow> string \<Rightarrow> bool" where
  "primary_at up cl a \<longleftrightarrow> up a \<and> (case cl a of None \<Rightarrow> False | Some h \<Rightarrow> primary h)"

lemma alive_peer_forgets: "cl_forgets cl cl' \<Longrightarrow> alive_peer up cl' a = alive_peer up cl a"
  by (simp add: alive_peer_def cl_forgets_None)

lemma primary_at_forgets: "cl_forgets cl cl' \<Longrightarrow> primary_at up cl a \<Longrightarrow> primary_at up cl' a"
  by (auto simp: primary_at_def forgets_sel(1) split: option.splits dest: cl_forgetsD cl_forgets_None)

definition lower_id :: "string \<times> string \<Rightarrow> peer \<Rightarrow> string \<times> string" where
  "lower_id w p = (if peer_id p < fst w then (peer_id p, peer_addr p) else w)"

text \<open>
  The peers that answer when \<open>GetPrimary\<close> is called on each in turn with a deadline of one
  second, in their order.
\<close>

fun answering :: "primary_rpc \<Rightarrow> peer list \<Rightarrow> net \<Rightarrow> peer list \<times> net" where
  "answering rpc [] s = ([], s)"
| "answering rpc (p # ps) s =
     (case rpc 1000 (peer_addr p) s of
        (r, s1) \<Rightarrow> (case answering rpc ps s1 of (qs, s2) \<Rightarrow> (if r = None then qs else p # qs, s2)))"

lemma poll_answering:
  "poll_peers rpc ps winner live s =
     (case answering rpc ps s of (ans, s') \<Rightarrow> ((foldl lower_id winner ans, live @ ans), s'))"
proof (induction ps arbitrary: winner live s)
  case (Cons p ps)
  obtain r s1 where r: "rpc 1000 (peer_addr p) s = (r, s1)" by (metis surj_pair)
  obtain qs s2 where q: "answering rpc ps s1 = (qs, s2)" by (metis surj_pair)
  show ?case using Cons by (cases r) (simp_all add: isAlive_def r q lower_id_def)
qed simp

text \<open>
  The interface between the code that looks for a primary and the RPC it calls its peers
  with: a call only forgets, and an answer comes from a running, reachable server. An election
  also relies on a reachable primary answering at once.
\<close>

locale probe =
  fixes rpc :: primary_rpc and up :: "string \<Rightarrow> bool"
  assumes quiet: "cl_forgets (fst s) (fst (snd (rpc dl a s)))"
    and answers: "fst (rpc dl a s) \<noteq> None \<Longrightarrow> alive_peer up (fst s) a"
begin

lemma isAlive_quiet: "isAlive rpc a s = (r, s') \<Longrightarrow> cl_forgets (fst s) (fst s')"
  using quiet [of s 1000 a] by (auto simp: isAlive_def case_prod_beta)

lemma isAlive_answers: "isAlive rpc a s = (True, s') \<Longrightarrow> alive_peer up (fst s) a"
  using answers [of 1000 a s] by (auto simp: isAlive_def case_prod_beta)

lemma verify_known_laws:
  assumes "verify_known rpc known addrs s = (r, s')"
  shows "cl_forgets (fst s) (fst s')" "r \<Longrightarrow> alive_peer up (fst s) known"
proof -
  obtain r1 s1 where i1: "isAlive rpc known s = (r1, s1)" by (metis surj_pair)
  obtain r2 s2 where i2: "isAlive rpc known s1 = (r2, s2)" by (metis surj_pair)
  note q = isAlive_quiet [OF i1] isAlive_quiet [OF i2]
  have a: "r1 \<Longrightarrow> alive_peer up (fst s) known" "r2 \<Longrightarrow> alive_peer up (fst s) known"
    "isAlive rpc known s = (True, s') \<Longrightarrow> alive_peer up (fst s) known"
    using isAlive_answers [of known s s1] isAlive_answers [of known s1 s2] i1 i2 alive_peer_forgets [OF q(1)]
    by simp_all
  show "cl_forgets (fst s) (fst s')"
    using assms i1 i2 q cl_forgets_trans [OF q] by (auto simp: verify_known_def split: if_splits bool.splits)
  show "r \<Longrightarrow> alive_peer up (fst s) known"
    using assms i1 i2 a by (auto simp: verify_known_def split: if_splits bool.splits)
qed

lemma ask_peers_quiet: "cl_forgets (fst s) (fst (snd (ask_peers rpc ps s)))"
proof (induction ps arbitrary: s)
  case (Cons p ps)
  obtain r s1 where r: "rpc 2000 p s = (r, s1)" by (metis surj_pair)
  have "cl_forgets (fst s) (fst s1)" using quiet [of s 2000 p] by (simp add: r)
  then show ?case
    using Cons cl_forgets_trans by (auto simp: r split: option.splits)
qed simp

end

locale primary_search = probe +
  assumes prompt: "primary_at up (fst s) a \<Longrightarrow> 0 < dl \<Longrightarrow> fst (rpc dl a s) \<noteq> None"
begin

lemma answering_laws:
  "answering rpc ps s = (ans, s') \<Longrightarrow>
   set ans \<subseteq> set ps \<and> cl_forgets (fst s) (fst s') \<and> (\<forall>p \<in> set ans. alive_peer up (fst s) (peer_addr p)) \<and>
   (\<forall>p \<in> set ps. primary_at up (fst s) (peer_addr p) \<longrightarrow> p \<in> set ans)"
proof (induction ps arbitrary: ans s s')
  case (Cons p ps)
  obtain r s1 where r: "rpc 1000 (peer_addr p) s = (r, s1)" by (metis surj_pair)
  obtain qs s2 where q: "answering rpc ps s1 = (qs, s2)" by (metis surj_pair)
  have l: "cl_forgets (fst s) (fst s1)" "r \<noteq> None \<Longrightarrow> alive_peer up (fst s) (peer_addr p)"
    "primary_at up (fst s) (peer_addr p) \<Longrightarrow> r \<noteq> None"
    using quiet [of s 1000 "peer_addr p"] answers [of 1000 "peer_addr p" s] prompt [of s "peer_addr p" 1000]
    by (simp_all add: r)
  have "ans = (if r = None then qs else p # qs)" "s' = s2" using Cons.prems by (simp_all add: r q)
  then show ?case
    using Cons.IH [OF q] l cl_forgets_trans [OF l(1)] alive_peer_forgets [OF l(1)] primary_at_forgets [OF l(1)]
    by auto
qed simp

end

lemma forget_quiet:
  assumes "cl_forgets cl cl1" "cl a = Some h" "\<not> primary h"
  shows "cl_forgets cl (at_server a (\<lambda>h. h\<lparr>knownPrimaryAddr := []\<rparr>) cl1)"
proof -
  obtain h1 where h1: "cl1 a = Some h1" "forgets h h1"
    using cl_forgetsD [OF assms(1,2)] by blast
  then have "forgets h (h1\<lparr>knownPrimaryAddr := []\<rparr>)" using assms(3) by (auto simp: forgets_def)
  then show ?thesis using assms h1 by (auto simp: cl_forgets_def at_server_def)
qed

definition self_addr :: "cluster \<Rightarrow> bool" where
  "self_addr cl \<longleftrightarrow> (\<forall>a h. cl a = Some h \<longrightarrow> serverAddr h = a)"

lemma cl_forgetsD2:
  "cl_forgets cl cl' \<Longrightarrow> cl' b = Some h' \<Longrightarrow> \<exists>h. cl b = Some h \<and> forgets h h'"
  unfolding cl_forgets_def by (metis option_rel_Some2)

lemma self_addr_forgets: "cl_forgets cl cl' \<Longrightarrow> self_addr cl \<Longrightarrow> self_addr cl'"
  by (auto simp: self_addr_def forgets_sel(2) dest!: cl_forgetsD2)

text \<open>
  The handler through its parts: the check of the known primary, and the questions to the
  peers in the state \<open>s2\<close> after it.
\<close>

lemma handler_cases:
  assumes "\<not> primary h"
  obtains v s1 s2 q s3 where
    "if knownPrimaryAddr h \<noteq> []
     then verify_known rpc (knownPrimaryAddr h) (map peer_addr (peers h)) s = (v, s1)
     else (v, s1) = (False, s)"
    "s2 = (if knownPrimaryAddr h \<noteq> []
           then apfst (at_server a (\<lambda>h. h\<lparr>knownPrimaryAddr := []\<rparr>)) s1 else s1)"
    "ask_peers rpc (map peer_addr (peers h)) s2 = (q, s3)"
    "GetPrimary_handler rpc a h s =
       (if v then (knownPrimaryAddr h, s1) else (case q of Some addr \<Rightarrow> addr | None \<Rightarrow> [], s3))"
proof -
  define vs where "vs = (if knownPrimaryAddr h \<noteq> []
      then verify_known rpc (knownPrimaryAddr h) (map peer_addr (peers h)) s else (False, s))"
  define s2 where "s2 = (if knownPrimaryAddr h \<noteq> []
      then apfst (at_server a (\<lambda>h. h\<lparr>knownPrimaryAddr := []\<rparr>)) (snd vs) else snd vs)"
  define qs where "qs = ask_peers rpc (map peer_addr (peers h)) s2"
  show thesis
    using assms
    by (intro that [of "fst vs" "snd vs" s2 "fst qs" "snd qs"])
      (simp_all add: vs_def s2_def qs_def GetPrimary_handler_def Let_def case_prod_beta split: option.split)
qed

definition reports_running :: "primary_rpc \<Rightarrow> (string \<Rightarrow> bool) \<Rightarrow> bool" where
  "reports_running rpc up \<longleftrightarrow> (\<forall>dl a s addr s'. self_addr (fst s) \<longrightarrow>
     rpc dl a s = (Some addr, s') \<longrightarrow> addr = [] \<or> alive_peer up (fst s) addr)"

context probe
begin

lemma handler_quiet:
  assumes "fst s a = Some h"
  shows "cl_forgets (fst s) (fst (snd (GetPrimary_handler rpc a h s)))"
proof (cases "primary h")
  case False
  obtain v s1 s2 q s3 where h:
    "if knownPrimaryAddr h \<noteq> []
     then verify_known rpc (knownPrimaryAddr h) (map peer_addr (peers h)) s = (v, s1)
     else (v, s1) = (False, s)"
    "s2 = (if knownPrimaryAddr h \<noteq> []
           then apfst (at_server a (\<lambda>h. h\<lparr>knownPrimaryAddr := []\<rparr>)) s1 else s1)"
    "ask_peers rpc (map peer_addr (peers h)) s2 = (q, s3)"
    "GetPrimary_handler rpc a h s =
       (if v then (knownPrimaryAddr h, s1) else (case q of Some addr \<Rightarrow> addr | None \<Rightarrow> [], s3))"
    by (rule handler_cases [OF False])
  have f1: "cl_forgets (fst s) (fst s1)" using h(1) verify_known_laws(1) by (auto split: if_splits)
  have "cl_forgets (fst s) (fst s2)"
    using f1 forget_quiet [OF f1 assms False] by (simp add: h(2))
  then have "cl_forgets (fst s) (fst s3)"
    using ask_peers_quiet [of s2] cl_forgets_trans h(3) by (metis snd_conv)
  then show ?thesis using f1 by (simp add: h(4))
qed (simp add: GetPrimary_handler_def)

lemma ask_peers_running:
  "reports_running rpc up \<Longrightarrow> self_addr (fst s) \<Longrightarrow>
   ask_peers rpc ps s = (Some addr, s') \<Longrightarrow> alive_peer up (fst s) addr"
proof (induction ps arbitrary: s)
  case (Cons p ps)
  obtain r s1 where r: "rpc 2000 p s = (r, s1)" by (metis surj_pair)
  have f: "cl_forgets (fst s) (fst s1)" using quiet [of s 2000 p] by (simp add: r)
  show ?case
  proof (cases "r = None \<or> r = Some []")
    case True
    then have "ask_peers rpc ps s1 = (Some addr, s')" using Cons.prems(3) by (auto simp: r)
    then show ?thesis
      using Cons.IH [OF Cons.prems(1) self_addr_forgets [OF f Cons.prems(2)]] alive_peer_forgets [OF f]
      by simp
  next
    case False
    then have "rpc 2000 p s = (Some addr, s1)" "addr \<noteq> []"
      using Cons.prems(3) r by (auto split: option.splits if_splits)
    then show ?thesis using Cons.prems(1,2) unfolding reports_running_def by blast
  qed
qed simp

lemma handler_running:
  assumes "reports_running rpc up" "self_addr (fst s)" "fst s a = Some h" "up a"
    "GetPrimary_handler rpc a h s = (addr, s')" "addr \<noteq> []"
  shows "alive_peer up (fst s) addr"
proof (cases "primary h")
  case True
  then show ?thesis
    using assms(2-5) by (auto simp: GetPrimary_handler_def self_addr_def alive_peer_def)
next
  case False
  obtain v s1 s2 q s3 where h:
    "if knownPrimaryAddr h \<noteq> []
     then verify_known rpc (knownPrimaryAddr h) (map peer_addr (peers h)) s = (v, s1)
     else (v, s1) = (False, s)"
    "s2 = (if knownPrimaryAddr h \<noteq> []
           then apfst (at_server a (\<lambda>h. h\<lparr>knownPrimaryAddr := []\<rparr>)) s1 else s1)"
    "ask_peers rpc (map peer_addr (peers h)) s2 = (q, s3)"
    "GetPrimary_handler rpc a h s =
       (if v then (knownPrimaryAddr h, s1) else (case q of Some addr \<Rightarrow> addr | None \<Rightarrow> [], s3))"
    by (rule handler_cases [OF False])
  have f1: "cl_forgets (fst s) (fst s1)" and v: "v \<Longrightarrow> alive_peer up (fst s) (knownPrimaryAddr h)"
    using h(1) verify_known_laws by (auto split: if_splits)
  have f2: "cl_forgets (fst s) (fst s2)"
    using f1 forget_quiet [OF f1 assms(3) False] by (simp add: h(2))
  have "q = Some x \<Longrightarrow> alive_peer up (fst s) x" for x
    using ask_peers_running [OF assms(1) self_addr_forgets [OF f2 assms(2)]] h(3)
      alive_peer_forgets [OF f2] by blast
  then show ?thesis using v assms(5,6) h(4) by (auto split: if_splits option.splits)
qed

end

text \<open>The RPC itself meets the interfaces, at every depth of the chain of calls.\<close>

lemma GetPrimary_answers: "fst (GetPrimary k up dl a s) \<noteq> None \<Longrightarrow> alive_peer up (fst s) a"
  by (cases k; cases s) (auto simp: alive_peer_def split: option.splits if_splits)

lemma GetPrimary_quiet: "cl_forgets (fst s) (fst (snd (GetPrimary k up dl a s)))"
proof (induction k arbitrary: dl a s)
  case 0
  then show ?case by (cases s) simp
next
  case (Suc k)
  have "probe (GetPrimary k up) up" by unfold_locales (use Suc GetPrimary_answers in blast)+
  from probe.handler_quiet [OF this, of s a] show ?case
    by (cases s) (auto simp: case_prod_beta split: option.split)
qed

lemma GetPrimary_prompt:
  "primary_at up cl a \<Longrightarrow> 0 < dl \<Longrightarrow>
   GetPrimary (Suc k) up dl a (cl, now) = (Some (serverAddr (the (cl a))), cl, now)"
  by (auto simp: primary_at_def GetPrimary_handler_def split: option.splits)

interpretation gpk: probe "GetPrimary k up" up for k up
  by unfold_locales (rule GetPrimary_quiet, rule GetPrimary_answers)

interpretation gp: primary_search "GetPrimary (Suc k) up" up for k up
proof unfold_locales
  fix dl a and s :: net
  show "primary_at up (fst s) a \<Longrightarrow> 0 < dl \<Longrightarrow> fst (GetPrimary (Suc k) up dl a s) \<noteq> None"
    using GetPrimary_prompt [of up "fst s" a dl k "snd s"] by simp
qed

lemma GetPrimary_running: "reports_running (GetPrimary k up) up"
proof (induction k)
  case (Suc k)
  show ?case unfolding reports_running_def
  proof (intro allI impI)
    fix dl a s addr s'
    assume sa: "self_addr (fst s)" and c: "GetPrimary (Suc k) up dl a s = (Some addr, s')"
    obtain cl now where s: "s = (cl, now)" by (metis surj_pair)
    obtain h cl1 t where h: "up a" "cl a = Some h"
        "GetPrimary_handler (GetPrimary k up) a h (cl, now) = (addr, cl1, t)"
      using c by (auto simp: s split: if_splits option.splits prod.splits)
    then show "addr = [] \<or> alive_peer up (fst s) addr"
      using gpk.handler_running [OF Suc, of "(cl, now)" a h addr "(cl1, t)"] sa by (auto simp: s)
  qed
qed (auto simp: reports_running_def)

section \<open>A group of backups without a primary\<close>

text \<open>
  \<open>leaderless up cl B\<close>: the addresses \<open>B\<close> run backups that know no primary, or remember one
  that is gone or is in \<open>B\<close> itself; whatever peer they could ask is in \<open>B\<close> or gone; and each
  has a peer in \<open>B\<close>. This is the cluster right after its primary has crashed, as long as two
  backups survive.
\<close>

definition silent :: "(string \<Rightarrow> bool) \<Rightarrow> cluster \<Rightarrow> string set \<Rightarrow> string \<Rightarrow> bool" where
  "silent up cl B x \<longleftrightarrow> x \<in> B \<or> \<not> alive_peer up cl x"

definition leaderless_server :: "(string \<Rightarrow> bool) \<Rightarrow> cluster \<Rightarrow> string set \<Rightarrow> server \<Rightarrow> bool" where
  "leaderless_server up cl B h \<longleftrightarrow>
     \<not> primary h \<and> (knownPrimaryAddr h = [] \<or> silent up cl B (knownPrimaryAddr h)) \<and>
     (\<forall>p \<in> set (peers h). silent up cl B (peer_addr p)) \<and> (\<exists>p \<in> set (peers h). peer_addr p \<in> B)"

definition leaderless :: "(string \<Rightarrow> bool) \<Rightarrow> cluster \<Rightarrow> string set \<Rightarrow> bool" where
  "leaderless up cl B \<longleftrightarrow> (\<forall>a \<in> B. \<exists>h. cl a = Some h \<and> leaderless_server up cl B h)"

lemma silent_forgets: "cl_forgets cl cl' \<Longrightarrow> silent up cl' B x = silent up cl B x"
  by (simp add: silent_def alive_peer_forgets)

lemma leaderless_forgets:
  assumes f: "cl_forgets cl cl'" and l: "leaderless up cl B"
  shows "leaderless up cl' B"
  unfolding leaderless_def
proof
  fix a assume "a \<in> B"
  with l obtain h where h: "cl a = Some h" "leaderless_server up cl B h"
    by (auto simp: leaderless_def)
  obtain h' where h': "cl' a = Some h'" "forgets h h'" using cl_forgetsD [OF f h(1)] by blast
  then show "\<exists>h. cl' a = Some h \<and> leaderless_server up cl' B h"
    using h by (auto simp: leaderless_server_def silent_forgets [OF f] forgets_def)
qed

text \<open>
  What a call in such a cluster may do: it gives no answer, and a call to a member takes its
  whole deadline.
\<close>

locale mute_probe = probe +
  fixes B :: "string set"
  assumes mute: "leaderless up cl B \<Longrightarrow> silent up cl B x \<Longrightarrow> dl \<le> 2000 \<Longrightarrow>
     rpc dl x (cl, now) = (r, cl', t) \<Longrightarrow> r = None \<and> now \<le> t \<and> (x \<in> B \<longrightarrow> now + dl \<le> t)"
begin

lemma ask_peers_mute:
  "leaderless up cl B \<Longrightarrow> \<forall>x \<in> set xs. silent up cl B x \<Longrightarrow>
   ask_peers rpc xs (cl, now) = (r, cl', t) \<Longrightarrow>
   r = None \<and> now \<le> t \<and> (set xs \<inter> B \<noteq> {} \<longrightarrow> now + 2000 \<le> t)"
proof (induction xs arbitrary: cl now)
  case (Cons x xs)
  obtain r1 cl1 t1 where c: "rpc 2000 x (cl, now) = (r1, cl1, t1)" by (metis prod_cases3)
  have m: "r1 = None" "now \<le> t1" "x \<in> B \<longrightarrow> now + 2000 \<le> t1"
    using mute [OF Cons.prems(1) _ _ c] Cons.prems(2) by auto
  have f: "cl_forgets cl cl1" using quiet [of "(cl, now)" 2000 x] by (simp add: c)
  have "r = None \<and> t1 \<le> t \<and> (set xs \<inter> B \<noteq> {} \<longrightarrow> t1 + 2000 \<le> t)"
  proof (rule Cons.IH)
    show "leaderless up cl1 B" using leaderless_forgets [OF f] Cons.prems(1) .
    show "\<forall>x \<in> set xs. silent up cl1 B x" using Cons.prems(2) by (simp add: silent_forgets [OF f])
    show "ask_peers rpc xs (cl1, t1) = (r, cl', t)" using Cons.prems(3) by (simp add: c m(1))
  qed
  then show ?case using m by auto
qed simp

lemma isAlive_mute:
  assumes "leaderless up cl B" "silent up cl B x" "isAlive rpc x (cl, now) = (r, cl', t)"
  shows "\<not> r" "now \<le> t" "leaderless up cl' B" "cl_forgets cl cl'"
proof -
  obtain r1 cl1 t1 where c: "rpc 1000 x (cl, now) = (r1, cl1, t1)" by (metis prod_cases3)
  have e: "r = (r1 \<noteq> None)" "cl1 = cl'" "t1 = t" using assms(3) by (simp_all add: isAlive_def c)
  show "\<not> r" "now \<le> t" using mute [OF assms(1,2) _ c] e by simp_all
  show "cl_forgets cl cl'" using isAlive_quiet [OF assms(3)] by simp
  then show "leaderless up cl' B" using leaderless_forgets assms(1) by blast
qed

lemma verify_known_mute:
  assumes "leaderless up cl B" "silent up cl B x" "verify_known rpc x addrs (cl, now) = (r, cl', t)"
  shows "\<not> r" "now \<le> t"
proof -
  obtain r1 cl1 t1 where c: "isAlive rpc x (cl, now) = (r1, cl1, t1)" by (metis prod_cases3)
  note m = isAlive_mute [OF assms(1,2) c]
  obtain r2 cl2 t2 where c2: "isAlive rpc x (cl1, t1) = (r2, cl2, t2)" by (metis prod_cases3)
  have s1: "silent up cl1 B x" using assms(2) by (simp add: silent_forgets [OF m(4)])
  note m2 = isAlive_mute [OF m(3) s1 c2]
  show "\<not> r" "now \<le> t"
    using assms(3) m m2 c c2 by (auto simp: verify_known_def split: if_splits)
qed

lemma handler_mute:
  assumes "leaderless up cl B" "a \<in> B" "cl a = Some h"
    "GetPrimary_handler rpc a h (cl, now) = (r, cl', t)"
  shows "now + 2000 \<le> t"
proof -
  have l: "leaderless_server up cl B h" using assms(1-3) by (force simp: leaderless_def)
  then have np: "\<not> primary h" by (simp add: leaderless_server_def)
  obtain v s1 s2 q s3 where h:
    "if knownPrimaryAddr h \<noteq> []
     then verify_known rpc (knownPrimaryAddr h) (map peer_addr (peers h)) (cl, now) = (v, s1)
     else (v, s1) = (False, (cl, now))"
    "s2 = (if knownPrimaryAddr h \<noteq> []
           then apfst (at_server a (\<lambda>h. h\<lparr>knownPrimaryAddr := []\<rparr>)) s1 else s1)"
    "ask_peers rpc (map peer_addr (peers h)) s2 = (q, s3)"
    "GetPrimary_handler rpc a h (cl, now) =
       (if v then (knownPrimaryAddr h, s1) else (case q of Some addr \<Rightarrow> addr | None \<Rightarrow> [], s3))"
    by (rule handler_cases [OF np])
  have v: "\<not> v" "now \<le> snd s1" and f1: "cl_forgets cl (fst s1)"
    using h(1) l verify_known_mute [OF assms(1), of "knownPrimaryAddr h" _ now v "fst s1" "snd s1"]
      verify_known_laws(1) [of "knownPrimaryAddr h" _ "(cl, now)" v s1]
    by (auto simp: leaderless_server_def split: if_splits)
  have f2: "cl_forgets cl (fst s2)"
    using f1 forget_quiet [OF f1 assms(3) np] by (simp add: h(2))
  have B: "set (map peer_addr (peers h)) \<inter> B \<noteq> {}"
    and sil: "\<forall>x \<in> set (map peer_addr (peers h)). silent up (fst s2) B x"
    using l by (auto simp: leaderless_server_def silent_forgets [OF f2])
  have "ask_peers rpc (map peer_addr (peers h)) (fst s2, snd s2) = (q, fst s3, snd s3)"
    using h(3) by simp
  from ask_peers_mute [OF leaderless_forgets [OF f2 assms(1)] sil this] B
  have "snd s2 + 2000 \<le> snd s3" by simp
  moreover have "snd s2 = snd s1" by (simp add: h(2))
  ultimately show ?thesis using v h(4) assms(4) by auto
qed

lemma poll_mute:
  "leaderless up cl B \<Longrightarrow> \<forall>p \<in> set ps. silent up cl B (peer_addr p) \<Longrightarrow>
   \<exists>cl' t. poll_peers rpc ps w live (cl, now) = ((w, live), cl', t) \<and> cl_forgets cl cl' \<and> now \<le> t"
proof (induction ps arbitrary: cl now)
  case (Cons p ps)
  obtain r cl1 t1 where c: "isAlive rpc (peer_addr p) (cl, now) = (r, cl1, t1)" by (metis prod_cases3)
  have sp: "silent up cl B (peer_addr p)" using Cons.prems(2) by simp
  note m = isAlive_mute [OF Cons.prems(1) sp c]
  have "\<forall>p \<in> set ps. silent up cl1 B (peer_addr p)"
    using Cons.prems(2) by (simp add: silent_forgets [OF m(4)])
  from Cons.IH [OF m(3) this, of t1] obtain cl' t where
    "poll_peers rpc ps w live (cl1, t1) = ((w, live), cl', t)" "cl_forgets cl1 cl'" "t1 \<le> t" by blast
  then show ?case using m c cl_forgets_trans [OF m(4)] by auto
qed simp

end

lemma GetPrimary_mute:
  "leaderless up cl B \<Longrightarrow> silent up cl B x \<Longrightarrow> dl \<le> 2000 \<Longrightarrow>
   GetPrimary k up dl x (cl, now) = (r, cl', t) \<Longrightarrow> r = None \<and> now \<le> t \<and> (x \<in> B \<longrightarrow> now + dl \<le> t)"
proof (induction k arbitrary: cl x dl now r cl' t)
  case (Suc k)
  have m: "mute_probe (GetPrimary k up) up B" by unfold_locales (use Suc.IH in blast)
  show ?case
  proof (cases "up x \<and> x \<in> B")
    case True
    then obtain h where h: "cl x = Some h" using Suc.prems(1) by (auto simp: leaderless_def)
    obtain r1 cl1 t1 where hd: "GetPrimary_handler (GetPrimary k up) x h (cl, now) = (r1, cl1, t1)"
      by (metis prod_cases3)
    have "now + 2000 \<le> t1"
      using mute_probe.handler_mute [OF m Suc.prems(1) _ h hd] True by simp
    then show ?thesis using Suc.prems(3,4) True by (simp add: h hd split: if_splits)
  next
    case False
    then show ?thesis
      using Suc.prems(1,2,4)
      by (auto simp: silent_def alive_peer_def leaderless_def split: option.splits if_splits)
  qed
qed auto

interpretation gpm: mute_probe "GetPrimary k up" up B for k up B
  by unfold_locales (rule GetPrimary_mute)

section \<open>The result of an election\<close>

lemma lower_id_fold:
  "foldl lower_id w ps = (i, addr) \<Longrightarrow>
   i \<le> fst w \<and> (\<forall>p \<in> set ps. i \<le> peer_id p) \<and>
   ((i, addr) = w \<or> (i < fst w \<and> (\<exists>p \<in> set ps. i = peer_id p \<and> addr = peer_addr p)))"
proof (induction ps arbitrary: w)
  case (Cons p ps)
  have "foldl lower_id (lower_id w p) ps = (i, addr)" using Cons.prems by simp
  from Cons.IH [OF this] show ?case by (auto simp: lower_id_def split: if_splits)
qed auto

lemma promote_sel [simp]:
  "primary (promoteToPrimary now h)" "knownPrimaryAddr (promoteToPrimary now h) = serverAddr h"
  "serverAddr (promoteToPrimary now h) = serverAddr h" "gr_monitor (promoteToPrimary now h) = gr_monitor h"
  "peers (promoteToPrimary now h) = peers h" "serverID (promoteToPrimary now h) = serverID h"
  by (simp_all add: promoteToPrimary_def resetHeartbeat_def startHeartbeatSender_def Let_def)

lemma setKnown_sel [simp]:
  "primary (startSync (setKnownPrimary p h)) = (p = serverAddr h)"
  "knownPrimaryAddr (startSync (setKnownPrimary p h)) = p"
  "serverAddr (startSync (setKnownPrimary p h)) = serverAddr h"
  "gr_monitor (startSync (setKnownPrimary p h)) = gr_monitor h"
  "serverID (startSync (setKnownPrimary p h)) = serverID h"
  "peers (startSync (setKnownPrimary p h)) = peers h"
  by (simp_all add: startSync_def setKnownPrimary_def)

lemma reset_sel [simp]:
  "primary (resetHeartbeat t h) = primary h" "knownPrimaryAddr (resetHeartbeat t h) = knownPrimaryAddr h"
  "serverAddr (resetHeartbeat t h) = serverAddr h" "serverID (resetHeartbeat t h) = serverID h"
  "gr_monitor (resetHeartbeat t h) = gr_monitor h" "peers (resetHeartbeat t h) = peers h"
  by (simp_all add: resetHeartbeat_def)

text \<open>The outcome of a poll by the server \<open>h\<close> whose answering peers are \<open>ans\<close>.\<close>

definition poll_of :: "server \<Rightarrow> peer list \<Rightarrow> (string \<times> string) \<times> peer list" where
  "poll_of h ans = (foldl lower_id (serverID h, serverAddr h) ans, ans)"

lemma election_result_poll:
  assumes "serverID h1 = serverID h" "serverAddr h1 = serverAddr h"
  shows "(\<forall>p \<in> set ans. serverID h \<le> peer_id p) \<and>
      election_result t (poll_of h ans) h1 = (broadcastAnnouncePrimary h1 ans, promoteToPrimary t h1)
    \<or> (\<exists>p \<in> set ans. peer_id p < serverID h \<and> (\<forall>q \<in> set ans. peer_id p \<le> peer_id q) \<and>
      election_result t (poll_of h ans) h1 = ([], startSync (setKnownPrimary (peer_addr p) h1)))"
proof -
  obtain i addr where w: "foldl lower_id (serverID h, serverAddr h) ans = (i, addr)" by (metis surj_pair)
  show ?thesis
    using lower_id_fold [OF w] assms by (auto simp: election_result_def poll_of_def w)
qed

lemma startElection_answering:
  assumes "cl a = Some h" "answering (GetPrimary (Suc k) up) (peers h) (cl, now) = (ans, cl1, t)"
  shows "\<exists>h1. cl1 a = Some h1 \<and> forgets h h1 \<and>
    startElection (GetPrimary (Suc k) up) a h (cl, now) =
      (case election_result t (poll_of h ans) h1 of (msgs, h2) \<Rightarrow> (msgs, cl1(a \<mapsto> h2), t))"
proof -
  have "cl_forgets cl cl1" using gp.answering_laws [OF assms(2)] by simp
  then obtain h1 where h1: "cl1 a = Some h1" "forgets h h1" using cl_forgetsD [where cl = cl and b = a] assms(1) by blast
  then show ?thesis
    by (intro exI [of _ h1]) (simp add: startElection_def poll_answering assms(2) poll_of_def del: GetPrimary.simps)
qed

text \<open>
  C10: An election calls \<open>GetPrimary\<close> once on each peer in turn; \<open>ans\<close> are the peers that answer
  within a second. They all run and are reachable, and a reachable primary is among them. If
  no answering peer has a smaller id, the server becomes primary and announces itself to
  exactly the peers that answered; otherwise it announces nothing and takes the answering
  peer with the smallest id as primary. No other server is changed, except that a backup may
  forget a primary that did not answer.
\<close>

theorem election_lowest_answering_id:
  assumes "cl a = Some h"
    and "answering (GetPrimary (Suc k) up) (peers h) (cl, now) = (ans, cl1, t1)"
    and "startElection (GetPrimary (Suc k) up) a h (cl, now) = (msgs, cl', t)"
  shows "set ans \<subseteq> set (peers h) \<and>
    (\<forall>p \<in> set ans. alive_peer up cl (peer_addr p)) \<and>
    (\<forall>p \<in> set (peers h). primary_at up cl (peer_addr p) \<longrightarrow> p \<in> set ans) \<and>
    (\<forall>b. b \<noteq> a \<longrightarrow> rel_option forgets (cl b) (cl' b)) \<and>
    (\<exists>h'. cl' a = Some h' \<and>
      (if \<forall>p \<in> set ans. serverID h \<le> peer_id p
       then primary h' \<and> knownPrimaryAddr h' = serverAddr h \<and>
         msgs = map (\<lambda>p. \<lparr>ann_to = peer_addr p, ann_addr = serverAddr h, ann_id = serverID h\<rparr>) ans
       else msgs = [] \<and> (\<exists>p \<in> set ans. (\<forall>q \<in> set ans. peer_id p \<le> peer_id q) \<and>
         knownPrimaryAddr h' = peer_addr p \<and> (primary h' \<longleftrightarrow> peer_addr p = serverAddr h))))"
proof -
  obtain h1 where e: "cl1 a = Some h1" "forgets h h1"
      "startElection (GetPrimary (Suc k) up) a h (cl, now) =
        (case election_result t1 (poll_of h ans) h1 of (m, h2) \<Rightarrow> (m, cl1(a \<mapsto> h2), t1))"
    using startElection_answering [of cl a h, OF assms(1,2)] by blast
  have l: "set ans \<subseteq> set (peers h)" "cl_forgets cl cl1" "\<forall>p \<in> set ans. alive_peer up cl (peer_addr p)"
      "\<forall>p \<in> set (peers h). primary_at up cl (peer_addr p) \<longrightarrow> p \<in> set ans"
    using gp.answering_laws [OF assms(2)] by simp_all
  obtain h2 where r: "election_result t1 (poll_of h ans) h1 = (msgs, h2)" "cl' = cl1(a \<mapsto> h2)"
    using assms(3) e(3) by (auto split: prod.splits)
  have f: "\<forall>b. b \<noteq> a \<longrightarrow> rel_option forgets (cl b) (cl' b)"
    using l(2) r(2) by (simp add: cl_forgets_def)
  note sel = forgets_sel [OF e(2)]
  have "if \<forall>p \<in> set ans. serverID h \<le> peer_id p
     then primary h2 \<and> knownPrimaryAddr h2 = serverAddr h \<and>
       msgs = map (\<lambda>p. \<lparr>ann_to = peer_addr p, ann_addr = serverAddr h, ann_id = serverID h\<rparr>) ans
     else msgs = [] \<and> (\<exists>p \<in> set ans. (\<forall>q \<in> set ans. peer_id p \<le> peer_id q) \<and>
       knownPrimaryAddr h2 = peer_addr p \<and> (primary h2 \<longleftrightarrow> peer_addr p = serverAddr h))"
    using election_result_poll [of h1 h ans t1, OF sel(3) sel(2)]
  proof (elim disjE bexE conjE)
    assume "\<forall>p \<in> set ans. serverID h \<le> peer_id p"
      "election_result t1 (poll_of h ans) h1 = (broadcastAnnouncePrimary h1 ans, promoteToPrimary t1 h1)"
    then show ?thesis using r(1) sel by (simp add: broadcastAnnouncePrimary_def)
  next
    fix p assume p: "p \<in> set ans" "peer_id p < serverID h" "\<forall>q \<in> set ans. peer_id p \<le> peer_id q"
      "election_result t1 (poll_of h ans) h1 = ([], startSync (setKnownPrimary (peer_addr p) h1))"
    then have "\<not> (\<forall>p \<in> set ans. serverID h \<le> peer_id p)" by (auto simp: not_le)
    then show ?thesis using p r(1) sel by auto
  qed
  then show ?thesis using l f r(2) by simp
qed

theorem election_lowest_answering_id_witness:
  "\<exists>msgs cl' t h'. startElection (GetPrimary (Suc 0) (\<lambda>_. True)) ''s2:50052''
      (compose_server compose_disk ''s2'' ''s2:50052'' False) (compose, 5000) = (msgs, cl', t) \<and>
    cl' ''s2:50052'' = Some h' \<and> msgs = [] \<and> knownPrimaryAddr h' = ''s1:50051''"
proof -
  let ?h = "compose_server compose_disk ''s2'' ''s2:50052'' False"
  let ?p1 = "\<lparr>peer_id = ''s1'', peer_addr = ''s1:50051'', peer_failCount = 0\<rparr>"
  let ?p3 = "\<lparr>peer_id = ''s3'', peer_addr = ''s3:50053'', peer_failCount = 0\<rparr>"
  obtain msgs cl' t where e: "startElection (GetPrimary (Suc 0) (\<lambda>_. True)) ''s2:50052'' ?h
      (compose, 5000) = (msgs, cl', t)" by (metis prod_cases3)
  obtain ans cl1 t1 where an: "answering (GetPrimary (Suc 0) (\<lambda>_. True)) (peers ?h) (compose, 5000) = (ans, cl1, t1)"
    by (metis prod_cases3)
  have h: "compose ''s2:50052'' = Some ?h" by (simp add: compose_def)
  have ps: "peers ?h = [?p1, ?p3]" by (simp add: compose_server_def compose_peers_def)
  have pr: "primary_at (\<lambda>_. True) compose ''s1:50051''" by (simp add: primary_at_def compose_def)
  have lt: "''s1'' < ''s2''" "''s1'' < ''s3''" by code_simp+
  note el = election_lowest_answering_id [of compose "''s2:50052''" ?h 0 "\<lambda>_. True" 5000, OF h an e]
  have in1: "?p1 \<in> set ans" and sub: "set ans \<subseteq> {?p1, ?p3}" using el pr by (simp_all add: ps)
  then have c: "\<not> (\<forall>p \<in> set ans. serverID ?h \<le> peer_id p)" using lt(1) by force
  then obtain h' p where p: "cl' ''s2:50052'' = Some h'" "p \<in> set ans" "\<forall>q \<in> set ans. peer_id p \<le> peer_id q"
      "knownPrimaryAddr h' = peer_addr p" and m: "msgs = []"
    using el by (simp only: if_False) blast
  have "p = ?p1 \<or> p = ?p3" using p(2) sub by auto
  moreover have "peer_id p \<le> ''s1''" using p(3) in1 by force
  ultimately have "msgs = [] \<and> knownPrimaryAddr h' = ''s1:50051''" using p(4) m lt(2) by auto
  then show ?thesis using e p(1) by blast
qed

section \<open>Elections after the loss of a primary\<close>

text \<open>
  C23: In a cluster whose primary is gone and in which at least two backups survive, no backup
  answers the liveness probe of another: the probe is \<open>GetPrimary\<close>, whose handler asks its
  peers in turn with a longer deadline than the probe has. So the election of every member
  finds no live peer: it makes itself primary, whatever its id, and announces that to nobody.
  This holds for every depth of the chain of calls.
\<close>

theorem leaderless_election_promotes_itself:
  assumes "leaderless up cl B" "a \<in> B" "cl a = Some h"
  shows "\<exists>cl' t h'. startElection (GetPrimary k up) a h (cl, now) = ([], cl', t) \<and>
    cl' a = Some h' \<and> primary h' \<and> (\<forall>b. b \<noteq> a \<longrightarrow> rel_option forgets (cl b) (cl' b))"
proof -
  have "\<forall>p \<in> set (peers h). silent up cl B (peer_addr p)"
    using assms by (fastforce simp: leaderless_def leaderless_server_def)
  from gpm.poll_mute [OF assms(1) this] obtain cl1 t where
    p: "poll_peers (GetPrimary k up) (peers h) (serverID h, serverAddr h) [] (cl, now) =
      (((serverID h, serverAddr h), []), cl1, t)" "cl_forgets cl cl1" by blast
  then obtain h1 where "cl1 a = Some h1" "forgets h h1"
    using cl_forgetsD [where cl = cl and cl' = cl1 and b = a] assms(3) by blast
  then show ?thesis
    using p(2) forgets_sel(3) [of h h1]
    by (simp add: startElection_def p(1) election_result_def broadcastAnnouncePrimary_def
        cl_forgets_def del: GetPrimary.simps)
qed

text \<open>The deployment after the crash of its first primary.\<close>

definition orphaned :: cluster where
  "orphaned = compose(''s1:50051'' := None)"

lemma orphaned_leaderless: "leaderless (\<lambda>_. True) orphaned {''s2:50052'', ''s3:50053''}"
  by (simp add: leaderless_def leaderless_server_def orphaned_def compose_def compose_server_def
      compose_peers_def silent_def alive_peer_def)

theorem leaderless_election_promotes_itself_witness:
  "\<exists>cl' t h'. startElection (GetPrimary 9 (\<lambda>_. True)) ''s3:50053''
      (compose_server compose_disk ''s3'' ''s3:50053'' False) (orphaned, 9000) = ([], cl', t) \<and>
    cl' ''s3:50053'' = Some h' \<and> primary h'"
proof -
  have "orphaned ''s3:50053'' = Some (compose_server compose_disk ''s3'' ''s3:50053'' False)"
    by (simp add: orphaned_def compose_def)
  then show ?thesis
    using leaderless_election_promotes_itself [OF orphaned_leaderless, of "''s3:50053''" _ 9 9000] by blast
qed

section \<open>What GetPrimary reports\<close>

text \<open>
  C19: When every process runs under its own address, a non-empty answer of \<open>GetPrimary\<close> is
  the address of a process that runs and is reachable. The call changes no server, except
  that a backup forgets a primary that did not answer.
\<close>

theorem GetPrimary_reports_running:
  assumes "\<forall>b h. cl b = Some h \<longrightarrow> serverAddr h = b"
    and "GetPrimary k up dl a (cl, now) = (Some addr, cl', t)" and "addr \<noteq> []"
  shows "up addr \<and> cl addr \<noteq> None \<and> (\<forall>b. rel_option forgets (cl b) (cl' b))"
proof -
  have "alive_peer up cl addr"
    using GetPrimary_running [of k up] assms
    by (auto simp: reports_running_def self_addr_def simp del: split_paired_All) (metis fst_conv)
  moreover have "cl_forgets cl cl'" using GetPrimary_quiet [of "(cl, now)" k up dl a] assms(2) by simp
  ultimately show ?thesis by (simp add: alive_peer_def cl_forgets_def)
qed

theorem GetPrimary_reports_running_witness:
  "GetPrimary 3 (\<lambda>_. True) 2000 ''s2:50052'' (compose, 0) = (Some ''s1:50051'', compose, 0) \<and>
   compose ''s1:50051'' \<noteq> None"
proof -
  have c: "GetPrimary 3 (\<lambda>_. True) 2000 ''s2:50052'' (compose, 0) = (Some ''s1:50051'', compose, 0)"
    by (simp add: eval_nat_numeral GetPrimary_handler_def compose_def compose_server_def compose_peers_def)
  show ?thesis
    using GetPrimary_reports_running [OF _ c] c by (auto simp: compose_def)
qed

section \<open>The cluster as a state machine\<close>

text \<open>
  The state: the processes, the clock, the announcements in flight, for each server the outcome
  of the poll its monitor has made and not yet acted on, and the writes to \<open>knownPrimaryAddr\<close> that
  a handler has decided on and not yet made. A step is one turn of one goroutine, a message
  delivered or lost, a call from outside, a crash or a start. Each step chooses its own network
  (\<open>up\<close>) and call depth.

  A handler of \<open>Heartbeat\<close> or \<open>GetPrimary\<close> can run in one piece (\<open>sender\<close>, \<open>ask\<close>) or be overtaken by
  other goroutines between its look at the role and its write: \<open>beat\<close> and \<open>doubt\<close> are the part up
  to there, \<open>write_late\<close> is the write, at any time after the pings of \<open>doubt\<close> have ended. The
  questions to the peers with which \<open>GetPrimary\<close> goes on are steps \<open>ask\<close> of those peers.
\<close>

record late_write =
  lw_at :: string
  lw_addr :: string
  lw_time :: nat

record world =
  w_cl :: cluster
  w_now :: nat
  w_msgs :: "announcement list"
  w_polls :: "string \<rightharpoonup> (string \<times> string) \<times> peer list"
  w_late :: "late_write list"

inductive cluster_step :: "world \<Rightarrow> world \<Rightarrow> bool" where
  time: "w_now w \<le> t \<Longrightarrow> cluster_step w (w\<lparr>w_now := t\<rparr>)"
| sender: "w_cl w a = Some h \<Longrightarrow> 0 < gr_sender h \<Longrightarrow>
    cluster_step w (w\<lparr>w_cl := sender_tick up (w_now w) a (w_cl w)\<rparr>)"
| grace: "w_cl w a = Some h \<Longrightarrow> gr_monitor h \<Longrightarrow>
    cluster_step w (w\<lparr>w_cl := (w_cl w)(a \<mapsto> resetHeartbeat (w_now w) h)\<rparr>)"
| poll: "w_cl w a = Some h \<Longrightarrow> gr_monitor h \<Longrightarrow> w_polls w a = None \<Longrightarrow>
    monitor_begin (GetPrimary (Suc k) up) a h (w_cl w, w_now w) = (res, cl', t) \<Longrightarrow>
    cluster_step w (w\<lparr>w_cl := cl', w_now := t, w_polls := (w_polls w)(a := res)\<rparr>)"
| decide: "w_cl w a = Some h \<Longrightarrow> w_polls w a = Some res \<Longrightarrow> monitor_end (w_now w) res h = (msgs, h') \<Longrightarrow>
    cluster_step w (w\<lparr>w_cl := (w_cl w)(a \<mapsto> h'), w_msgs := w_msgs w @ msgs,
      w_polls := (w_polls w)(a := None)\<rparr>)"
| deliver: "w_msgs w = xs @ m # ys \<Longrightarrow>
    cluster_step w (w\<lparr>w_cl := at_server (ann_to m) (rpc_AnnouncePrimary (ann_addr m)) (w_cl w),
      w_msgs := xs @ ys\<rparr>)"
| lose: "w_msgs w = xs @ m # ys \<Longrightarrow> cluster_step w (w\<lparr>w_msgs := xs @ ys\<rparr>)"
| ask: "GetPrimary k up dl a (w_cl w, w_now w) = (r, cl', t) \<Longrightarrow>
    cluster_step w (w\<lparr>w_cl := cl', w_now := t\<rparr>)"
| beat: "w_cl w b = Some hb \<Longrightarrow> 0 < gr_sender hb \<Longrightarrow> i < length (peers hb) \<Longrightarrow> peer_addr (peers hb ! i) = a \<Longrightarrow> a \<noteq> b \<Longrightarrow>
    w_cl w a = Some h \<Longrightarrow> Heartbeat_check (w_now w) (serverID hb) h = (known, h') \<Longrightarrow>
    cluster_step w (w\<lparr>w_cl := (w_cl w)(a \<mapsto> h', b \<mapsto> hb\<lparr>peers := (peers hb)[i := (peers hb ! i)\<lparr>peer_failCount := 0\<rparr>]\<rparr>),
      w_late := w_late w @ (case known of None \<Rightarrow> [] | Some x \<Rightarrow> [\<lparr>lw_at = a, lw_addr = x, lw_time = w_now w\<rparr>])\<rparr>)"
| doubt: "w_cl w a = Some h \<Longrightarrow> \<not> primary h \<Longrightarrow> knownPrimaryAddr h \<noteq> [] \<Longrightarrow>
    verify_known (GetPrimary k up) (knownPrimaryAddr h) (map peer_addr (peers h)) (w_cl w, w_now w) = (False, cl', t) \<Longrightarrow>
    cluster_step w (w\<lparr>w_cl := cl', w_late := w_late w @ [\<lparr>lw_at = a, lw_addr = [], lw_time = t\<rparr>]\<rparr>)"
| write_late: "w_late w = xs @ l # ys \<Longrightarrow> lw_time l \<le> w_now w \<Longrightarrow>
    cluster_step w (w\<lparr>w_cl := at_server (lw_at l) (\<lambda>h. h\<lparr>knownPrimaryAddr := lw_addr l\<rparr>) (w_cl w),
      w_late := xs @ ys\<rparr>)"
| crash: "cluster_step w (w\<lparr>w_cl := (w_cl w)(a := None), w_polls := (w_polls w)(a := None),
    w_late := filter (\<lambda>l. lw_at l \<noteq> a) (w_late w)\<rparr>)"
| start: "w_cl w a = None \<Longrightarrow> NewHandler dial flt (w_now w) d i o' sid a ps prim = Inr h \<Longrightarrow>
    cluster_step w (w\<lparr>w_cl := (w_cl w)(a \<mapsto> h)\<rparr>)"

text \<open>
  How a step other than a late write may treat a process that survives it. It keeps its address,
  id and peers. It stops being primary only by an announcement that names another server, or
  when its own election was won by another; it becomes primary only by an election it won or
  by being named. A monitor that has ended does not come back. A primary knows itself, or it
  was primary before and knows what it knew.
\<close>

definition named :: "world \<Rightarrow> string \<Rightarrow> server \<Rightarrow> bool \<Rightarrow> bool" where
  "named w a h own \<longleftrightarrow>
     (\<exists>m \<in> set (w_msgs w). ann_to m = a \<and> (ann_addr m = serverAddr h) = own) \<or>
     (\<exists>i addr live. w_polls w a = Some ((i, addr), live) \<and>
        (i = serverID h \<or> addr = serverAddr h) = own)"

definition role_step :: "world \<Rightarrow> string \<Rightarrow> server \<Rightarrow> server \<Rightarrow> bool" where
  "role_step w a h h' \<longleftrightarrow> serverAddr h' = serverAddr h \<and> serverID h' = serverID h \<and>
     (primary h' \<noteq> primary h \<longrightarrow> named w a h (primary h')) \<and>
     (gr_monitor h' \<longrightarrow> gr_monitor h) \<and> map peer_addr (peers h') = map peer_addr (peers h) \<and>
     (primary h' \<longrightarrow> knownPrimaryAddr h' = serverAddr h' \<or> primary h \<and> knownPrimaryAddr h' = knownPrimaryAddr h)"

definition cl_role :: "world \<Rightarrow> cluster \<Rightarrow> cluster \<Rightarrow> bool" where
  "cl_role w cl cl' \<longleftrightarrow> (\<forall>b. rel_option (role_step w b) (cl b) (cl' b))"

lemma role_step_refl [simp]: "role_step w a h h"
  by (simp add: role_step_def)

lemma role_step_trans: "role_step w a h h' \<Longrightarrow> role_step w a h' h'' \<Longrightarrow> role_step w a h h''"
  unfolding role_step_def named_def by (cases "primary h'"; cases "primary h"; cases "primary h''") auto

lemma cl_role_refl [simp]: "cl_role w cl cl"
  by (simp add: cl_role_def option.rel_refl)

lemma cl_role_trans:
  assumes "cl_role w cl cl'" "cl_role w cl' cl''"
  shows "cl_role w cl cl''"
  unfolding cl_role_def
proof
  fix b
  have "rel_option (role_step w b) (cl b) (cl' b)" "rel_option (role_step w b) (cl' b) (cl'' b)"
    using assms by (auto simp: cl_role_def)
  then show "rel_option (role_step w b) (cl b) (cl'' b)"
    by (cases "cl b"; cases "cl' b"; cases "cl'' b") (auto intro: role_step_trans)
qed

lemma cl_role_update: "cl b = Some h \<Longrightarrow> role_step w b h h' \<Longrightarrow> cl_role w cl (cl(b \<mapsto> h'))"
  by (simp add: cl_role_def option.rel_refl)

lemma cl_role_at_server:
  "(\<And>h. cl b = Some h \<Longrightarrow> role_step w b h (f h)) \<Longrightarrow> cl_role w cl (at_server b f cl)"
  by (auto simp: at_server_def cl_role_update split: option.split)

lemma forgets_role: "forgets h h' \<Longrightarrow> role_step w a h h'"
  by (auto simp: forgets_def role_step_def)

lemma cl_forgets_role: "cl_forgets cl cl' \<Longrightarrow> cl_role w cl cl'"
  unfolding cl_forgets_def cl_role_def by (metis forgets_role option.rel_mono_strong)

lemma Heartbeat_sel:
  "serverAddr (snd (rpc_Heartbeat now i h)) = serverAddr h" "serverID (snd (rpc_Heartbeat now i h)) = serverID h"
  "primary (snd (rpc_Heartbeat now i h)) = primary h"
  "gr_monitor (snd (rpc_Heartbeat now i h)) = gr_monitor h"
  "peers (snd (rpc_Heartbeat now i h)) = peers h"
  "primary h \<Longrightarrow> knownPrimaryAddr (snd (rpc_Heartbeat now i h)) = knownPrimaryAddr h"
  by (simp_all add: rpc_Heartbeat_def Let_def split: list.splits)

lemma Heartbeat_role: "role_step w a h (snd (rpc_Heartbeat now i h))"
  by (auto simp: role_step_def Heartbeat_sel)

lemma reset_role: "role_step w a h (resetHeartbeat t h)"
  by (simp add: role_step_def)

lemma no_monitor_role: "role_step w a h (h\<lparr>gr_monitor := False\<rparr>)"
  by (simp add: role_step_def)

lemma count_role:
  assumes "cl a = Some h" "map peer_addr (peers h) = map peer_addr ps" "i < length ps"
  shows "cl_role w cl (at_server a (\<lambda>h. h\<lparr>peers := (peers h)[i := (ps ! i)\<lparr>peer_failCount := f\<rparr>]\<rparr>) cl)"
proof (rule cl_role_at_server)
  fix h' assume "cl a = Some h'"
  then have "h' = h" using assms(1) by simp
  moreover have "map peer_addr ((peers h)[i := (ps ! i)\<lparr>peer_failCount := f\<rparr>]) = map peer_addr (peers h)"
    using assms(2,3) by (simp add: map_update) (metis list_update_id nth_map)
  ultimately show "role_step w a h' (h'\<lparr>peers := (peers h')[i := (ps ! i)\<lparr>peer_failCount := f\<rparr>]\<rparr>)"
    by (simp add: role_step_def)
qed

lemma sendHeartbeat_role: "cl_role w cl (sendHeartbeat up now a cl i)"
proof (cases "cl a")
  case (Some h)
  show ?thesis
  proof (cases "i < length (peers h)")
    case True
    let ?p = "peers h ! i"
    show ?thesis
    proof (cases "if up (peer_addr ?p) then cl (peer_addr ?p) else None")
      case None
      then show ?thesis
        using count_role [where cl = cl and a = a and h = h and ps = "peers h" and i = i] Some True
        by (simp add: sendHeartbeat_def Let_def)
    next
      case hp: (Some hp)
      let ?cl = "cl(peer_addr ?p \<mapsto> snd (rpc_Heartbeat now (serverID h) hp))"
      have p: "cl (peer_addr ?p) = Some hp" using hp by (auto split: if_splits)
      obtain h1 where h1: "?cl a = Some h1" "peers h1 = peers h"
        using Some p by (cases "peer_addr ?p = a") (auto simp: Heartbeat_sel)
      have "cl_role w cl ?cl" by (rule cl_role_update [where cl = cl, OF p Heartbeat_role])
      moreover have "cl_role w ?cl (at_server a (\<lambda>h. h\<lparr>peers := (peers h)[i := ?p\<lparr>peer_failCount := 0\<rparr>]\<rparr>) ?cl)"
        using count_role [where cl = ?cl and a = a and h = h1 and ps = "peers h" and i = i] h1 True by simp
      ultimately show ?thesis
        using cl_role_trans Some True hp by (simp add: sendHeartbeat_def Let_def)
    qed
  qed (simp add: sendHeartbeat_def Some)
qed (simp add: sendHeartbeat_def)

lemma sender_tick_role: "cl_role w cl (sender_tick up now a cl)"
proof -
  have "cl_role w cl (foldl (sendHeartbeat up now a) cl is)" for "is"
    by (induction "is" arbitrary: cl) (auto intro: cl_role_trans sendHeartbeat_role)
  moreover have "role_step w a h (h\<lparr>gr_sender := n\<rparr>)" for h n by (simp add: role_step_def)
  ultimately show ?thesis
    by (auto simp: sender_tick_def cl_role_update split: option.splits)
qed

lemma monitor_begin_role:
  assumes "cl a = Some h" "monitor_begin (GetPrimary (Suc k) up) a h (cl, now) = (res, cl', t)"
  shows "cl_role w cl cl'"
proof (cases "\<not> primary h \<and> heartbeatTimeout < now - lastHeartbeat h")
  case True
  let ?cl = "at_server a (resetHeartbeat now) cl"
  obtain wn lv where "poll_peers (GetPrimary (Suc k) up) (peers h) (serverID h, serverAddr h) [] (?cl, now) =
      ((wn, lv), cl', t)"
    using assms True
    by (auto simp: monitor_begin_def apfst_def map_prod_def split: prod.splits simp del: GetPrimary.simps)
  then have "cl_forgets ?cl cl'"
    using gp.answering_laws [where ps = "peers h" and s = "(?cl, now)"]
    by (auto simp: poll_answering simp del: GetPrimary.simps split: prod.splits)
  then have "cl_role w ?cl cl'" by (rule cl_forgets_role)
  moreover have "cl_role w cl ?cl" by (rule cl_role_at_server) (rule reset_role)
  ultimately show ?thesis using cl_role_trans by blast
next
  case False
  then show ?thesis
    using assms by (auto simp: monitor_begin_def no_monitor_role simp del: GetPrimary.simps
        intro!: cl_role_at_server split: if_splits)
qed

lemma monitor_end_role:
  assumes "w_polls w a = Some res" "monitor_end now res h = (msgs, h')"
  shows "role_step w a h h'"
proof -
  obtain i addr live where res: "res = ((i, addr), live)" by (metis surj_pair)
  then show ?thesis
    using assms
    by (auto simp: monitor_end_def election_result_def role_step_def named_def split: if_splits)
qed

lemma Announce_role:
  "m \<in> set (w_msgs w) \<Longrightarrow> ann_to m = a \<Longrightarrow> role_step w a h (rpc_AnnouncePrimary (ann_addr m) h)"
  by (auto simp: rpc_AnnouncePrimary_def role_step_def named_def)

lemma beat_role:
  assumes "cl b = Some hb" "i < length (peers hb)" "a \<noteq> b" "cl a = Some h" "Heartbeat_check now sid h = (known, h')"
  shows "cl_role w cl (cl(a \<mapsto> h', b \<mapsto> hb\<lparr>peers := (peers hb)[i := (peers hb ! i)\<lparr>peer_failCount := 0\<rparr>]\<rparr>))"
proof -
  have "role_step w a h h'" using assms(5) by (auto simp: Heartbeat_check_def Let_def role_step_def)
  then have "cl_role w cl (cl(a \<mapsto> h'))" by (rule cl_role_update [where cl = cl, OF assms(4)])
  moreover have "(cl(a \<mapsto> h')) b = Some hb" using assms(1,3) by simp
  ultimately show ?thesis
    using count_role [where cl = "cl(a \<mapsto> h')" and a = b and h = hb and ps = "peers hb" and i = i and f = 0] assms(2) cl_role_trans
    by (simp add: at_server_def)
qed

text \<open>
  The processes that start or stop in a step, the one in which a late write is made, and how the
  others are treated.
\<close>

lemma step_roles:
  assumes "cluster_step w w'"
  shows "(\<exists>b. w_cl w' = (w_cl w)(b := None) \<and> w_late w' = filter (\<lambda>l. lw_at l \<noteq> b) (w_late w)) \<or>
    (\<exists>l \<in> set (w_late w). set (w_late w') \<subseteq> set (w_late w) \<and>
       w_cl w' = at_server (lw_at l) (\<lambda>h. h\<lparr>knownPrimaryAddr := lw_addr l\<rparr>) (w_cl w)) \<or>
    (\<exists>b h dial flt d i o' sid ps prim. w_cl w b = None \<and> w_cl w' = (w_cl w)(b \<mapsto> h) \<and>
       NewHandler dial flt (w_now w) d i o' sid b ps prim = Inr h) \<or>
    cl_role w (w_cl w) (w_cl w')"
  using assms
proof cases
  case (poll a h k up res cl' t)
  then show ?thesis using monitor_begin_role by auto
next
  case (decide a h res msgs h')
  then show ?thesis using cl_role_update monitor_end_role by auto
next
  case (deliver xs m ys)
  have "cl_role w (w_cl w) (at_server (ann_to m) (rpc_AnnouncePrimary (ann_addr m)) (w_cl w))"
    by (rule cl_role_at_server) (simp add: Announce_role deliver)
  then show ?thesis using deliver by simp
next
  case (ask k up dl a r cl' t)
  then have "cl_forgets (w_cl w) cl'" using GetPrimary_quiet [of "(w_cl w, w_now w)" k up dl a] by simp
  then show ?thesis using ask cl_forgets_role by simp
next
  case (beat b hb i a h known h')
  then show ?thesis using beat_role [of "w_cl w" b hb i a h "w_now w" "serverID hb" known h'] by simp
next
  case (doubt a h k up cl' t)
  then have "cl_forgets (w_cl w) cl'"
    using gpk.verify_known_laws(1) [of k up "knownPrimaryAddr h" "map peer_addr (peers h)" "(w_cl w, w_now w)" False "(cl', t)"] by simp
  then show ?thesis using doubt cl_forgets_role by simp
next
  case (write_late xs l ys)
  then have "\<exists>l \<in> set (w_late w). set (w_late w') \<subseteq> set (w_late w) \<and>
      w_cl w' = at_server (lw_at l) (\<lambda>h. h\<lparr>knownPrimaryAddr := lw_addr l\<rparr>) (w_cl w)"
    by (intro bexI [of _ l]) auto
  then show ?thesis by blast
next
  case (start a dial flt d i o' sid ps prim h)
  have "\<exists>b h dial flt d i o' sid ps prim. w_cl w b = None \<and> w_cl w' = (w_cl w)(b \<mapsto> h) \<and>
       NewHandler dial flt (w_now w) d i o' sid b ps prim = Inr h"
    using start by (intro exI conjI) (assumption | simp)+
  then show ?thesis by blast
qed (auto simp: sender_tick_role cl_role_update reset_role)

lemma NewHandler_roles:
  assumes "NewHandler dial flt now d i o' sid a ps prim = Inr h"
  shows "serverAddr h = a" "primary h = prim" "knownPrimaryAddr h = (if prim then a else [])"
    "gr_monitor h \<longleftrightarrow> \<not> prim"
  using assms
  by (auto simp: NewHandler_def initVersion_def startHeartbeatSender_def startSync_def
      startHeartbeatMonitor_def Let_def split: sum.splits prod.splits if_splits)

text \<open>
  What holds in every state: a process runs under its own address; a primary remembers as
  primary itself, nothing, or one of its peers; and a pending write is one of a running
  process and clears its memory or names one of its peers.
\<close>

definition late_ok :: "cluster \<Rightarrow> late_write \<Rightarrow> bool" where
  "late_ok cl l \<longleftrightarrow> (\<exists>h. cl (lw_at l) = Some h \<and> (lw_addr l = [] \<or> lw_addr l \<in> set (map peer_addr (peers h))))"

definition knows_ok :: "server \<Rightarrow> bool" where
  "knows_ok h \<longleftrightarrow> (primary h \<longrightarrow> knownPrimaryAddr h = serverAddr h \<or> knownPrimaryAddr h = [] \<or>
     knownPrimaryAddr h \<in> set (map peer_addr (peers h)))"

definition role_inv :: "world \<Rightarrow> bool" where
  "role_inv w \<longleftrightarrow> (\<forall>a h. w_cl w a = Some h \<longrightarrow> serverAddr h = a \<and> knows_ok h) \<and>
     (\<forall>l \<in> set (w_late w). late_ok (w_cl w) l)"

text \<open>Every primary remembers itself.\<close>

definition knows_self :: "world \<Rightarrow> bool" where
  "knows_self w \<longleftrightarrow> (\<forall>a h. w_cl w a = Some h \<longrightarrow> primary h \<longrightarrow> knownPrimaryAddr h = serverAddr h)"

lemma cl_roleD: "cl_role w cl cl' \<Longrightarrow> cl' b = Some h' \<Longrightarrow> \<exists>h. cl b = Some h \<and> role_step w b h h'"
  unfolding cl_role_def by (metis option_rel_Some2)

lemma cl_roleD1: "cl_role w cl cl' \<Longrightarrow> cl b = Some h \<Longrightarrow> \<exists>h'. cl' b = Some h' \<and> role_step w b h h'"
  unfolding cl_role_def by (metis option_rel_Some1)

lemma role_step_knows: "role_step w a h h' \<Longrightarrow> knows_ok h \<Longrightarrow> knows_ok h'"
  unfolding role_step_def knows_ok_def by metis

lemma late_ok_role: "late_ok cl l \<Longrightarrow> cl_role w cl cl' \<Longrightarrow> late_ok cl' l"
proof -
  assume "late_ok cl l" "cl_role w cl cl'"
  then obtain h h' where "cl (lw_at l) = Some h" "cl' (lw_at l) = Some h'" "role_step w (lw_at l) h h'"
      "lw_addr l = [] \<or> lw_addr l \<in> set (map peer_addr (peers h))"
    unfolding late_ok_def using cl_roleD1 by blast
  then show "late_ok cl' l" unfolding late_ok_def role_step_def by metis
qed

lemma late_new: "cluster_step w w' \<Longrightarrow> l \<in> set (w_late w') \<Longrightarrow> l \<in> set (w_late w) \<or> late_ok (w_cl w) l"
proof (erule cluster_step.cases, goal_cases)
  case (9 w b hb i a h known h')
  have "late_ok (w_cl w) \<lparr>lw_at = a, lw_addr = x, lw_time = w_now w\<rparr>" if k: "known = Some x" for x
  proof -
    obtain p ps where "filter (\<lambda>p. peer_id p = serverID hb) (peers h) = p # ps" "x = peer_addr p"
      using 9(10) k by (auto simp: Heartbeat_check_def Let_def split: if_splits list.splits)
    then have "x \<in> set (map peer_addr (peers h))" by (metis filter_eq_ConsD in_set_conv_decomp list.set_map imageI)
    then show ?thesis using 9(9) by (simp add: late_ok_def)
  qed
  then show ?case using 9 by (auto split: option.splits)
qed (auto simp: late_ok_def)

lemma role_inv_step:
  assumes "cluster_step w w'" "role_inv w"
  shows "role_inv w'"
proof -
  have inv: "\<And>a h. w_cl w a = Some h \<Longrightarrow> serverAddr h = a \<and> knows_ok h" "\<And>l. l \<in> set (w_late w) \<Longrightarrow> late_ok (w_cl w) l"
    using assms(2) by (auto simp: role_inv_def)
  have new: "\<And>l. l \<in> set (w_late w') \<Longrightarrow> late_ok (w_cl w) l" using late_new [OF assms(1)] inv(2) by blast
  show ?thesis
    using step_roles [OF assms(1)]
  proof (elim disjE exE conjE bexE)
    fix b assume "w_cl w' = (w_cl w)(b := None)" "w_late w' = filter (\<lambda>l. lw_at l \<noteq> b) (w_late w)"
    then show ?thesis using inv by (auto simp: role_inv_def late_ok_def)
  next
    fix l assume l: "l \<in> set (w_late w)" "w_cl w' = at_server (lw_at l) (\<lambda>h. h\<lparr>knownPrimaryAddr := lw_addr l\<rparr>) (w_cl w)"
    obtain h where h: "w_cl w (lw_at l) = Some h" "lw_addr l = [] \<or> lw_addr l \<in> set (map peer_addr (peers h))"
      using inv(2) [OF l(1)] by (auto simp: late_ok_def)
    have cl': "w_cl w' = (w_cl w)(lw_at l \<mapsto> h\<lparr>knownPrimaryAddr := lw_addr l\<rparr>)" using l(2) h(1) by (simp add: at_server_def)
    have "knows_ok (h\<lparr>knownPrimaryAddr := lw_addr l\<rparr>)" using h(2) by (auto simp: knows_ok_def)
    moreover have "late_ok (w_cl w') x" if "late_ok (w_cl w) x" for x using that h(1) by (auto simp: cl' late_ok_def)
    ultimately show ?thesis using inv(1) new h(1) by (auto simp: role_inv_def cl')
  next
    fix b h dial flt d i o' sid ps prim
    assume b: "w_cl w b = None" "w_cl w' = (w_cl w)(b \<mapsto> h)" "NewHandler dial flt (w_now w) d i o' sid b ps prim = Inr h"
    have "serverAddr h = b \<and> knows_ok h" using NewHandler_roles [OF b(3)] by (simp add: knows_ok_def)
    moreover have "late_ok (w_cl w') x" if "late_ok (w_cl w) x" for x using that b(1,2) by (auto simp: late_ok_def)
    ultimately show ?thesis using inv(1) new b(2) by (auto simp: role_inv_def)
  next
    assume r: "cl_role w (w_cl w) (w_cl w')"
    have "serverAddr h' = a \<and> knows_ok h'" if h': "w_cl w' a = Some h'" for a h'
    proof -
      obtain h where "w_cl w a = Some h" "role_step w a h h'" using cl_roleD [where cl = "w_cl w" and cl' = "w_cl w'", OF r h'] by blast
      then show ?thesis using inv(1) role_step_knows by (fastforce simp: role_step_def)
    qed
    then show ?thesis using late_ok_role [OF new r] by (auto simp: role_inv_def)
  qed
qed

lemma knows_self_step:
  assumes "cluster_step w w'" "w_late w = []" "knows_self w"
  shows "knows_self w'"
  using step_roles [OF assms(1)]
proof (elim disjE exE conjE bexE)
  fix b h dial flt d i o' sid ps prim
  assume b: "w_cl w' = (w_cl w)(b \<mapsto> h)" "NewHandler dial flt (w_now w) d i o' sid b ps prim = Inr h"
  then show ?thesis using NewHandler_roles [OF b(2)] assms(3) by (auto simp: knows_self_def)
next
  assume r: "cl_role w (w_cl w) (w_cl w')"
  show ?thesis
    unfolding knows_self_def
  proof (intro allI impI)
    fix a h' assume h': "w_cl w' a = Some h'" "primary h'"
    obtain h where "w_cl w a = Some h" "role_step w a h h'" using cl_roleD [where cl = "w_cl w" and cl' = "w_cl w'", OF r h'(1)] by blast
    then show "knownPrimaryAddr h' = serverAddr h'" using h'(2) assms(3) by (auto simp: role_step_def knows_self_def)
  qed
qed (use assms(2,3) in \<open>auto simp: knows_self_def split: if_splits\<close>)

text \<open>
  C15: In every state the cluster reaches, a process runs under its own address, and a primary
  remembers as primary itself, one of its peers, or nobody. In a run in which no handler of
  \<open>Heartbeat\<close> or \<open>GetPrimary\<close> is overtaken between its look at the role and its write, a primary
  always remembers itself.
\<close>

theorem reachable_roles:
  assumes "role_inv w"
  shows "(cluster_step\<^sup>*\<^sup>* w w' \<longrightarrow> role_inv w') \<and>
    ((\<lambda>x y. cluster_step x y \<and> w_late y = [])\<^sup>*\<^sup>* w w' \<longrightarrow> w_late w = [] \<longrightarrow> knows_self w \<longrightarrow> knows_self w')"
proof (intro conjI impI)
  show "role_inv w'" if "cluster_step\<^sup>*\<^sup>* w w'"
    using that assms by (induction rule: rtranclp_induct) (auto intro: role_inv_step)
  show "knows_self w'" if "(\<lambda>x y. cluster_step x y \<and> w_late y = [])\<^sup>*\<^sup>* w w'" "w_late w = []" "knows_self w"
  proof -
    have "knows_self w' \<and> w_late w' = []"
      using that by (induction rule: rtranclp_induct) (auto intro: knows_self_step)
    then show ?thesis by blast
  qed
qed

definition compose_world :: world where
  "compose_world = \<lparr>w_cl = compose, w_now = 0, w_msgs = [], w_polls = Map.empty, w_late = []\<rparr>"

lemma compose_world_roles: "role_inv compose_world" "knows_self compose_world"
  by (auto simp: role_inv_def knows_self_def knows_ok_def compose_world_def compose_def compose_server_def split: if_splits)

theorem reachable_roles_witness:
  "role_inv (compose_world\<lparr>w_now := 4000, w_cl := compose(''s1:50051'' := None)\<rparr>) \<and>
   knows_self (compose_world\<lparr>w_now := 4000, w_cl := compose(''s1:50051'' := None)\<rparr>)"
proof -
  let ?w = "compose_world\<lparr>w_now := 4000, w_cl := compose(''s1:50051'' := None)\<rparr>"
  have s: "cluster_step compose_world (compose_world\<lparr>w_now := 4000\<rparr>)" "cluster_step (compose_world\<lparr>w_now := 4000\<rparr>) ?w"
    using time [of compose_world 4000] crash [of "compose_world\<lparr>w_now := 4000\<rparr>" "''s1:50051''"]
    by (simp_all add: compose_world_def)
  then have "cluster_step\<^sup>*\<^sup>* compose_world ?w" by (meson converse_rtranclp_into_rtranclp r_into_rtranclp)
  moreover have "(\<lambda>x y. cluster_step x y \<and> w_late y = [])\<^sup>*\<^sup>* compose_world ?w"
    by (rule converse_rtranclp_into_rtranclp [of _ _ "compose_world\<lparr>w_now := 4000\<rparr>"])
      (use s in \<open>auto simp: compose_world_def\<close>)
  ultimately show ?thesis
    using reachable_roles [OF compose_world_roles(1), of ?w] compose_world_roles(2) by (simp add: compose_world_def)
qed

text \<open>
  C16: A step in which a running process changes its role finds an announcement to it or the
  outcome of its own election that names the new primary: itself when it becomes primary,
  another server when it stops. Neither a heartbeat nor a question changes a role, and a
  monitor that has ended is not started again: a server that was primary once and is told of
  another primary never calls an election. This covers handlers that are overtaken and write
  late.
\<close>

theorem role_changes_have_a_cause:
  assumes "cluster_step w w'" "w_cl w a = Some h" "w_cl w' a = Some h'"
  shows "(primary h' \<noteq> primary h \<longrightarrow> named w a h (primary h')) \<and>
    (gr_monitor h' \<longrightarrow> gr_monitor h)"
  using step_roles [OF assms(1)]
proof (elim disjE exE conjE)
  assume "cl_role w (w_cl w) (w_cl w')"
  then show ?thesis using cl_roleD [of w "w_cl w" "w_cl w'" a h'] assms(2,3) by (auto simp: role_step_def)
qed (use assms(2,3) in \<open>auto simp: at_server_def split: if_splits option.splits\<close>)

theorem role_changes_have_a_cause_witness:
  "\<exists>w' h'. cluster_step (compose_world\<lparr>w_msgs := [\<lparr>ann_to = ''s1:50051'', ann_addr = ''s2:50052'', ann_id = ''s2''\<rparr>]\<rparr>) w' \<and>
    w_cl w' ''s1:50051'' = Some h' \<and> \<not> primary h' \<and> \<not> gr_monitor h'"
proof -
  let ?m = "\<lparr>ann_to = ''s1:50051'', ann_addr = ''s2:50052'', ann_id = ''s2''\<rparr>"
  let ?w = "compose_world\<lparr>w_msgs := [?m]\<rparr>"
  let ?h = "compose_server compose_disk ''s1'' ''s1:50051'' True"
  let ?h' = "rpc_AnnouncePrimary ''s2:50052'' ?h"
  let ?w' = "compose_world\<lparr>w_msgs := [], w_cl := compose(''s1:50051'' \<mapsto> ?h')\<rparr>"
  have s: "cluster_step ?w ?w'"
    using deliver [of ?w "[]" ?m "[]"] by (simp add: compose_world_def at_server_def compose_def)
  have h: "w_cl ?w ''s1:50051'' = Some ?h" by (simp add: compose_world_def compose_def)
  have h': "w_cl ?w' ''s1:50051'' = Some ?h'" by simp
  have "\<not> gr_monitor ?h'"
    using role_changes_have_a_cause [OF s h h'] by (simp add: compose_server_def)
  moreover have "\<not> primary ?h'" by (simp add: rpc_AnnouncePrimary_def)
  ultimately show ?thesis using s h' by blast
qed

section \<open>Two primaries\<close>

lemma leaderless_reset:
  assumes "leaderless up cl B"
  shows "leaderless up (at_server a (resetHeartbeat now) cl) B"
proof -
  let ?cl = "at_server a (resetHeartbeat now) cl"
  have "alive_peer up ?cl = alive_peer up cl"
    by (auto simp: fun_eq_iff alive_peer_def at_server_def split: option.splits)
  then have "silent up ?cl B = silent up cl B" by (simp add: fun_eq_iff silent_def)
  then have "leaderless_server up ?cl B h = leaderless_server up cl B h"
    "leaderless_server up cl B (resetHeartbeat now h) = leaderless_server up cl B h" for h
    by (simp_all add: leaderless_server_def)
  then show ?thesis
    using assms by (fastforce simp: leaderless_def at_server_def split: option.splits)
qed

lemma leaderless_poll:
  assumes "leaderless up cl B" "a \<in> B" "cl a = Some h" "heartbeatTimeout < now - lastHeartbeat h"
  shows "\<exists>cl' t. monitor_begin (GetPrimary k up) a h (cl, now) =
      (Some ((serverID h, serverAddr h), []), cl', t) \<and> now \<le> t \<and> leaderless up cl' B \<and>
    (\<forall>b. b \<noteq> a \<longrightarrow> rel_option forgets (cl b) (cl' b)) \<and>
    (\<exists>h'. cl' a = Some h' \<and> serverID h' = serverID h \<and> serverAddr h' = serverAddr h)"
proof -
  let ?cl = "at_server a (resetHeartbeat now) cl"
  note l = leaderless_reset [OF assms(1), of a now]
  have ls: "leaderless_server up ?cl B (resetHeartbeat now h)"
    using l assms(2,3) by (auto simp: leaderless_def at_server_def)
  then have "\<forall>p \<in> set (peers h). silent up ?cl B (peer_addr p)" by (simp add: leaderless_server_def)
  from gpm.poll_mute [OF l this] obtain cl' t where
    p: "poll_peers (GetPrimary k up) (peers h) (serverID h, serverAddr h) [] (?cl, now) =
      (((serverID h, serverAddr h), []), cl', t)" "cl_forgets ?cl cl'" "now \<le> t" by blast
  have f: "rel_option forgets (?cl b) (cl' b)" for b using p(2) by (simp add: cl_forgets_def)
  obtain h' where h': "cl' a = Some h'" "forgets (resetHeartbeat now h) h'"
    using cl_forgetsD [OF p(2), of a "resetHeartbeat now h"] assms(3) by (auto simp: at_server_def)
  have o: "b \<noteq> a \<Longrightarrow> rel_option forgets (cl b) (cl' b)" for b
    using f [of b] by (simp add: at_server_other)
  show ?thesis
    using assms(4) ls p(1,3) leaderless_forgets [OF p(2) l] h' forgets_sel(2,3) [OF h'(2)] o
    by (simp add: monitor_begin_def leaderless_server_def del: GetPrimary.simps)
qed

lemma decide_self:
  assumes "w_cl w a = Some h" "w_polls w a = Some ((serverID h, addr), [])"
  shows "cluster_step w (w\<lparr>w_cl := (w_cl w)(a \<mapsto> (promoteToPrimary (w_now w) h)\<lparr>gr_monitor := False\<rparr>),
    w_polls := (w_polls w)(a := None)\<rparr>)"
  using decide [OF assms, of "[]" "(promoteToPrimary (w_now w) h)\<lparr>gr_monitor := False\<rparr>"]
  by (simp add: monitor_end_def election_result_def broadcastAnnouncePrimary_def)

text \<open>
  C24: Two primaries. When the primary is gone and two backups, both reachable, have missed its
  heartbeats, there is a run in which both become primary, and no announcement is in flight
  that would undo it: each polls the other before either has decided, and neither gets an
  answer in time.
\<close>

theorem split_brain_reachable:
  assumes l: "leaderless up (w_cl w) B" and ab: "a \<in> B" "b \<in> B" "a \<noteq> b"
    and h: "w_cl w a = Some ha" "w_cl w b = Some hb"
    and mon: "gr_monitor ha" "gr_monitor hb" "w_polls w a = None" "w_polls w b = None"
    and late: "heartbeatTimeout < w_now w - lastHeartbeat ha" "heartbeatTimeout < w_now w - lastHeartbeat hb"
  shows "\<exists>w' ha' hb'. cluster_step\<^sup>*\<^sup>* w w' \<and> w_cl w' a = Some ha' \<and> w_cl w' b = Some hb' \<and>
    primary ha' \<and> primary hb' \<and> w_msgs w' = w_msgs w"
proof -
  obtain cl1 t1 ha1 where p1: "monitor_begin (GetPrimary (Suc 0) up) a ha (w_cl w, w_now w) =
      (Some ((serverID ha, serverAddr ha), []), cl1, t1)" "w_now w \<le> t1" "leaderless up cl1 B"
      "\<forall>c. c \<noteq> a \<longrightarrow> rel_option forgets (w_cl w c) (cl1 c)" "cl1 a = Some ha1" "serverID ha1 = serverID ha"
    using leaderless_poll [OF l ab(1) h(1) late(1)] by blast
  obtain hb1 where hb1: "cl1 b = Some hb1" "forgets hb hb1"
    using p1(4) ab(3) h(2) by (metis option_rel_Some1)
  note sel = forgets_sel [OF hb1(2)]
  define w1 where "w1 = w\<lparr>w_cl := cl1, w_now := t1, w_polls := (w_polls w)(a \<mapsto> ((serverID ha, serverAddr ha), []))\<rparr>"
  have s1: "cluster_step w w1" unfolding w1_def by (rule poll [OF h(1) mon(1,3) p1(1)])
  have late1: "heartbeatTimeout < t1 - lastHeartbeat hb1" using late(2) p1(2) by (simp add: sel)
  obtain cl2 t2 hb2 where p2: "monitor_begin (GetPrimary (Suc 0) up) b hb1 (cl1, t1) =
      (Some ((serverID hb1, serverAddr hb1), []), cl2, t2)"
      "\<forall>c. c \<noteq> b \<longrightarrow> rel_option forgets (cl1 c) (cl2 c)" "cl2 b = Some hb2" "serverID hb2 = serverID hb1"
    using leaderless_poll [OF p1(3) ab(2) hb1(1) late1] by blast
  obtain ha2 where ha2: "cl2 a = Some ha2" "serverID ha2 = serverID ha"
    using p2(2) ab(3) p1(5,6) forgets_sel(3) by (metis option_rel_Some1)
  define w2 where "w2 = w1\<lparr>w_cl := cl2, w_now := t2, w_polls := (w_polls w1)(b \<mapsto> ((serverID hb1, serverAddr hb1), []))\<rparr>"
  have s2: "cluster_step w1 w2"
    unfolding w2_def by (rule poll) (use hb1 p2 mon ab sel in \<open>simp_all add: w1_def\<close>)
  define ha3 where "ha3 = (promoteToPrimary t2 ha2)\<lparr>gr_monitor := False\<rparr>"
  define w3 where "w3 = w2\<lparr>w_cl := cl2(a \<mapsto> ha3), w_polls := (w_polls w2)(a := None)\<rparr>"
  have s3: "cluster_step w2 w3"
    using decide_self [of w2 a ha2 "serverAddr ha"] ab(3) ha2
    by (simp add: w3_def ha3_def w2_def w1_def)
  define hb3 where "hb3 = (promoteToPrimary t2 hb2)\<lparr>gr_monitor := False\<rparr>"
  define w4 where "w4 = w3\<lparr>w_cl := (w_cl w3)(b \<mapsto> hb3), w_polls := (w_polls w3)(b := None)\<rparr>"
  have s4: "cluster_step w3 w4"
    using decide_self [of w3 b hb2 "serverAddr hb1"] ab(3) p2(3,4)
    by (simp add: w4_def hb3_def w3_def w2_def w1_def)
  have "cluster_step\<^sup>*\<^sup>* w w4" using s1 s2 s3 s4 by (meson converse_rtranclp_into_rtranclp r_into_rtranclp)
  moreover have "w_cl w4 a = Some ha3" "w_cl w4 b = Some hb3" "w_msgs w4 = w_msgs w"
    using ab(3) by (simp_all add: w4_def w3_def w2_def w1_def)
  ultimately show ?thesis by (auto simp: ha3_def hb3_def)
qed

theorem split_brain_reachable_witness:
  "\<exists>w' h2 h3. cluster_step\<^sup>*\<^sup>* (compose_world\<lparr>w_cl := orphaned, w_now := 9000\<rparr>) w' \<and>
    w_cl w' ''s2:50052'' = Some h2 \<and> w_cl w' ''s3:50053'' = Some h3 \<and> primary h2 \<and> primary h3 \<and>
    w_msgs w' = []"
proof -
  let ?w = "compose_world\<lparr>w_cl := orphaned, w_now := 9000\<rparr>"
  have l: "leaderless (\<lambda>_. True) (w_cl ?w) {''s2:50052'', ''s3:50053''}"
    using orphaned_leaderless by simp
  have h: "w_cl ?w ''s2:50052'' = Some (compose_server compose_disk ''s2'' ''s2:50052'' False)"
    "w_cl ?w ''s3:50053'' = Some (compose_server compose_disk ''s3'' ''s3:50053'' False)"
    by (simp_all add: orphaned_def compose_def)
  show ?thesis
    using split_brain_reachable [OF l _ _ _ h]
    by (simp add: compose_world_def compose_server_def heartbeatTimeout_def)
qed

section \<open>A write that comes too late\<close>

text \<open>
  C25: A primary that does not remember itself. When the primary is gone and a backup that
  remembers it has missed its heartbeats, there is a run in which \<open>GetPrimary\<close> on that backup
  pings the old primary in vain while the backup's own election makes it primary, and then
  clears \<open>knownPrimaryAddr\<close> without another look at the role: the server ends as a primary that
  remembers no primary.
\<close>

theorem late_write_overtakes_promotion:
  assumes l: "leaderless up (w_cl w) B" and a: "a \<in> B" and h: "w_cl w a = Some h"
    and mon: "gr_monitor h" "w_polls w a = None" and late: "heartbeatTimeout < w_now w - lastHeartbeat h"
    and known: "knownPrimaryAddr h \<noteq> []"
  shows "\<exists>w' h'. cluster_step\<^sup>*\<^sup>* w w' \<and> w_cl w' a = Some h' \<and> primary h' \<and> knownPrimaryAddr h' = [] \<and>
    w_late w' = w_late w \<and> w_msgs w' = w_msgs w"
proof -
  have ls: "leaderless_server up (w_cl w) B h" using l a h by (force simp: leaderless_def)
  obtain v cl1 t1 where v: "verify_known (GetPrimary (Suc 0) up) (knownPrimaryAddr h) (map peer_addr (peers h)) (w_cl w, w_now w) =
      (v, cl1, t1)" by (metis prod_cases3)
  have nv: "\<not> v" using gpm.verify_known_mute(1) [OF l _ v] ls known by (auto simp: leaderless_server_def)
  have f1: "cl_forgets (w_cl w) cl1" using gpk.verify_known_laws(1) [OF v] by simp
  obtain h1 where h1: "cl1 a = Some h1" "forgets h h1" using cl_forgetsD [where cl = "w_cl w", OF f1 h] by blast
  note sel = forgets_sel [OF h1(2)]
  define lw where "lw = \<lparr>lw_at = a, lw_addr = [], lw_time = t1\<rparr>"
  define w1 where "w1 = w\<lparr>w_cl := cl1, w_late := w_late w @ [lw]\<rparr>"
  have s1: "cluster_step w w1"
    unfolding w1_def lw_def by (rule doubt [OF h _ known]) (use ls v nv in \<open>auto simp: leaderless_server_def\<close>)
  have l1: "leaderless up cl1 B" using f1 l by (rule leaderless_forgets)
  have late1: "heartbeatTimeout < w_now w - lastHeartbeat h1" using late by (simp add: sel)
  obtain cl2 t2 h2 where p: "monitor_begin (GetPrimary (Suc 0) up) a h1 (cl1, w_now w) =
      (Some ((serverID h1, serverAddr h1), []), cl2, t2)" "cl2 a = Some h2" "serverID h2 = serverID h1"
    using leaderless_poll [OF l1 a h1(1) late1] by blast
  define w2 where "w2 = w1\<lparr>w_cl := cl2, w_now := t2, w_polls := (w_polls w)(a \<mapsto> ((serverID h1, serverAddr h1), []))\<rparr>"
  have s2: "cluster_step w1 w2"
    using poll [of w1 a h1 0 up "Some ((serverID h1, serverAddr h1), [])" cl2 t2] h1(1) mon p(1) sel
    by (simp add: w2_def w1_def)
  define h3 where "h3 = (promoteToPrimary t2 h2)\<lparr>gr_monitor := False\<rparr>"
  define w3 where "w3 = w2\<lparr>w_cl := cl2(a \<mapsto> h3), w_polls := (w_polls w2)(a := None)\<rparr>"
  have s3: "cluster_step w2 w3"
    using decide_self [of w2 a h2 "serverAddr h1"] p(2,3) by (simp add: w3_def h3_def w2_def)
  define w4 where "w4 = w3\<lparr>w_now := max t1 t2\<rparr>"
  have s4: "cluster_step w3 w4" unfolding w4_def by (rule time) (simp add: w3_def w2_def)
  define w5 where "w5 = w4\<lparr>w_cl := at_server a (\<lambda>h. h\<lparr>knownPrimaryAddr := []\<rparr>) (w_cl w4), w_late := w_late w\<rparr>"
  have s5: "cluster_step w4 w5"
    using write_late [of w4 "w_late w" lw "[]"] by (simp add: w5_def w4_def w3_def w2_def w1_def lw_def)
  have "cluster_step\<^sup>*\<^sup>* w w5" using s1 s2 s3 s4 s5 by (meson converse_rtranclp_into_rtranclp r_into_rtranclp)
  moreover have "w_cl w5 a = Some (h3\<lparr>knownPrimaryAddr := []\<rparr>)" "w_msgs w5 = w_msgs w"
    by (simp_all add: w5_def w4_def w3_def w2_def w1_def at_server_def)
  ultimately show ?thesis by (auto simp: h3_def w5_def)
qed

text \<open>The deployment whose backups have had a heartbeat of the primary that then crashed.\<close>

definition orphaned_known :: cluster where
  "orphaned_known = orphaned(''s2:50052'' \<mapsto> snd (rpc_Heartbeat 0 ''s1'' (compose_server compose_disk ''s2'' ''s2:50052'' False)))"

theorem late_write_overtakes_promotion_witness:
  "\<exists>w' h'. cluster_step\<^sup>*\<^sup>* (compose_world\<lparr>w_cl := orphaned_known, w_now := 9000\<rparr>) w' \<and>
    w_cl w' ''s2:50052'' = Some h' \<and> primary h' \<and> knownPrimaryAddr h' = []"
proof -
  let ?w = "compose_world\<lparr>w_cl := orphaned_known, w_now := 9000\<rparr>"
  let ?h = "snd (rpc_Heartbeat 0 ''s1'' (compose_server compose_disk ''s2'' ''s2:50052'' False))"
  have l: "leaderless (\<lambda>_. True) (w_cl ?w) {''s2:50052'', ''s3:50053''}"
    by (simp add: leaderless_def leaderless_server_def orphaned_known_def orphaned_def compose_def compose_server_def
        compose_peers_def silent_def alive_peer_def rpc_Heartbeat_def)
  have h: "w_cl ?w ''s2:50052'' = Some ?h" by (simp add: orphaned_known_def)
  show ?thesis
    using late_write_overtakes_promotion [OF l _ h]
    by (simp add: compose_world_def compose_server_def compose_peers_def rpc_Heartbeat_def heartbeatTimeout_def) blast
qed

end
