(* ===== verification/Afs_Sync.thy ===== *)
theory Afs_Sync
  imports Afs_Election
begin

text \<open>
  \<open>SyncState\<close> of \<open>afsfs/pkg/server/handler.go\<close>, which streams the files of a primary, and
  \<open>syncFromPrimaryWithRetry\<close>, with which a starting or demoted server takes them over. The
  stream is received against the state the primary has when the call starts.
\<close>

section \<open>The sending side\<close>

definition sync_entries :: "string \<Rightarrow> i64 \<Rightarrow> bytes list \<Rightarrow> SyncEntry list" where
  "sync_entries name version bufs =
     (case bufs of
        [] \<Rightarrow> []
      | b # bs \<Rightarrow>
          \<lparr>sye_path = name, sye_data = b, sye_version = version\<rparr> #
          map (\<lambda>b. \<lparr>sye_path = [], sye_data = b, sye_version = version\<rparr>) bs)"

fun send_files :: "faults \<Rightarrow> server \<Rightarrow> (string \<times> bool) list \<Rightarrow> SyncEntry recv" where
  "send_files flt h [] = ([], None)"
| "send_files flt h ((name, isDir) # es) =
     (if isDir then send_files flt h es
      else
        let fullPath = path_Join (outputDir h) name;
            version = get0 (versions h) fullPath
        in (case os_Open flt fullPath (disk h) of
              Inl e \<Rightarrow> send_files flt h es
            | Inr f \<Rightarrow>
                (case read_chunks flt chunkSize fullPath f of
                   (bufs, Some readErr) \<Rightarrow> (sync_entries name version bufs, Some readErr)
                 | (bufs, None) \<Rightarrow>
                     (case send_files flt h es of
                        (cs, st) \<Rightarrow> (sync_entries name version bufs @ cs, st)))))"

definition rpc_SyncState :: "faults \<Rightarrow> server \<Rightarrow> SyncEntry recv" where
  "rpc_SyncState flt h =
     (case os_ReadDir flt (outputDir h) (disk h) of
        Inl e \<Rightarrow> ([], None)
      | Inr entries \<Rightarrow> send_files flt h entries)"

section \<open>The receiving side\<close>

text \<open>The local variables of the receive loop; \<open>sy_open\<close> is \<open>curTmp != nil\<close>.\<close>

record sync_state =
  sy_curPath :: string
  sy_curVersion :: i64
  sy_open :: bool
  sy_curFull :: string
  sy_writes :: nat
  sy_server :: server

definition sync_init :: "server \<Rightarrow> sync_state" where
  "sync_init h = \<lparr>sy_curPath = [], sy_curVersion = 0, sy_open = False, sy_curFull = [],
     sy_writes = 0, sy_server = h\<rparr>"

text \<open>The file in progress is renamed into place, with its version; a rename error is dropped.\<close>

definition sync_finalize :: "faults \<Rightarrow> sync_state \<Rightarrow> sync_state" where
  "sync_finalize flt st =
     (if sy_open st then
        let h = sy_server st
        in st\<lparr>sy_open := False,
             sy_server := h\<lparr>
               disk := (case os_Rename flt (tmpOf (sy_curFull st)) (sy_curFull st) (disk h) of
                          Inl e \<Rightarrow> disk h | Inr d \<Rightarrow> d),
               versions := (versions h)(sy_curFull st \<mapsto> sy_curVersion st)\<rparr>\<rparr>
      else st)"

definition sync_write :: "faults \<Rightarrow> bytes \<Rightarrow> sync_state \<Rightarrow> sync_state" where
  "sync_write flt b st =
     (if sy_open st \<and> b \<noteq> [] then
        let h = sy_server st; tmp = tmpOf (sy_curFull st)
        in (case os_Write flt (sy_writes st) tmp b (disk h) of
              Inl e \<Rightarrow> st\<lparr>sy_open := False, sy_curPath := [],
                sy_server := h\<lparr>disk := rm flt tmp (disk h)\<rparr>\<rparr>
            | Inr d \<Rightarrow> st\<lparr>sy_writes := Suc (sy_writes st), sy_server := h\<lparr>disk := d\<rparr>\<rparr>)
      else st)"

definition sync_chunk :: "faults \<Rightarrow> sync_state \<Rightarrow> SyncEntry \<Rightarrow> sync_state" where
  "sync_chunk flt st c =
     (if sye_path c \<noteq> [] \<and> sye_path c \<noteq> sy_curPath st then
        let st1 = (sync_finalize flt st)\<lparr>sy_curPath := sye_path c, sy_curVersion := sye_version c\<rparr>;
            h = sy_server st1;
            full = outPath h (sye_path c);
            st2 = st1\<lparr>sy_curFull := full\<rparr>
        in if (case versions h full of None \<Rightarrow> False | Some existingVer \<Rightarrow> sye_version c \<le> existingVer)
           then st2\<lparr>sy_curPath := []\<rparr>
           else (case os_Create flt (tmpOf full) (disk h) of
                   Inl e \<Rightarrow> st2\<lparr>sy_curPath := []\<rparr>
                 | Inr d \<Rightarrow>
                     sync_write flt (sye_data c)
                       (st2\<lparr>sy_open := True, sy_writes := 0, sy_server := h\<lparr>disk := d\<rparr>\<rparr>))
      else sync_write flt (sye_data c) st)"

text \<open>The whole loop and what follows it: whether the stream failed, and the server.\<close>

definition sync_recv :: "faults \<Rightarrow> SyncEntry recv \<Rightarrow> server \<Rightarrow> bool \<times> server" where
  "sync_recv flt strm h =
     (snd strm \<noteq> None,
      sy_server (sync_finalize flt (foldl (sync_chunk flt) (sync_init h) (fst strm))))"

section \<open>Attempts\<close>

definition call_SyncState :: "env \<Rightarrow> string \<Rightarrow> cluster \<Rightarrow> SyncEntry recv res" where
  "call_SyncState env addr cl =
     (case cl addr of
        None \<Rightarrow> Inl ''connection refused''
      | Some hp \<Rightarrow>
          let strm = rpc_SyncState (os_faults env addr) hp
          in (case links env addr of
                LinkDown \<Rightarrow> Inl ''unavailable''
              | LinkCut k \<Rightarrow> Inr (take k (fst strm), Some ''transport is closing'')
              | LinkNoReply \<Rightarrow> Inr (fst strm, Some ''transport is closing'')
              | LinkUp \<Rightarrow> Inr strm))"

text \<open>One turn of the retry loop; the boolean says that the loop is left.\<close>

definition sync_attempt ::
  "primary_rpc \<Rightarrow> (string \<Rightarrow> bool) \<Rightarrow> env \<Rightarrow> string \<Rightarrow> net \<Rightarrow> bool \<times> net" where
  "sync_attempt rpc dial env a s =
     (case fst s a of
        None \<Rightarrow> (True, s)
      | Some h \<Rightarrow>
          (case resolvePrimaryAddr rpc h s of (primaryAddr, s1) \<Rightarrow>
             if primaryAddr = [] then (False, s1)
             else if primaryAddr = serverAddr h then (True, s1)
             else if primaryAddr \<notin> peer_addr ` set (peers h) \<and> \<not> dial primaryAddr then (False, s1)
             else (case call_SyncState env primaryAddr (fst s1) of
                     Inl e \<Rightarrow> (False, s1)
                   | Inr strm \<Rightarrow>
                       (case fst s1 a of
                          None \<Rightarrow> (True, s1)
                        | Some h1 \<Rightarrow>
                            (case sync_recv (os_faults env a) strm h1 of
                               (failed, h') \<Rightarrow> (\<not> failed, apfst (\<lambda>cl. cl(a \<mapsto> h')) s1))))))"

fun sync_loop ::
  "nat \<Rightarrow> (nat \<Rightarrow> primary_rpc \<times> env) \<Rightarrow> (string \<Rightarrow> bool) \<Rightarrow> nat \<Rightarrow> string \<Rightarrow> net \<Rightarrow> bool \<times> net" where
  "sync_loop 0 world dial i a s = (False, s)"
| "sync_loop (Suc n) world dial i a s =
     (let s0 = (if 0 < i then apsnd (\<lambda>t. t + 2000) s else s)
      in (case sync_attempt (fst (world i)) dial (snd (world i)) a s0 of
            (True, s1) \<Rightarrow> (True, s1)
          | (False, s1) \<Rightarrow> sync_loop n world dial (Suc i) a s1))"

definition syncFromPrimaryWithRetry ::
  "(nat \<Rightarrow> primary_rpc \<times> env) \<Rightarrow> (string \<Rightarrow> bool) \<Rightarrow> string \<Rightarrow> net \<Rightarrow> bool \<times> net" where
  "syncFromPrimaryWithRetry world dial a s =
     (case sync_loop 30 world dial 0 a s of
        (done, s') \<Rightarrow> (done, apfst (at_server a (\<lambda>h. h\<lparr>gr_sync := gr_sync h - 1\<rparr>)) s'))"

section \<open>One file of the stream\<close>

definition up_to_date :: "server \<Rightarrow> string \<Rightarrow> i64 \<Rightarrow> bool" where
  "up_to_date h n v \<longleftrightarrow> (\<exists>e. versions h (outPath h n) = Some e \<and> v \<le> e)"

definition settled :: "sync_state \<Rightarrow> server" where
  "settled st = sy_server (sync_finalize no_faults st)"

text \<open>Continuation chunks after the file \<open>full\<close> has been opened.\<close>

lemma sync_tail:
  assumes "sy_open st" "map_of (disk (sy_server st)) (tmpOf (sy_curFull st)) = Some (FFile x)"
  shows "\<exists>d k. foldl (sync_chunk no_faults) st
      (map (\<lambda>b. \<lparr>sye_path = [], sye_data = b, sye_version = v\<rparr>) bs) =
      st\<lparr>sy_writes := k, sy_server := (sy_server st)\<lparr>disk := d\<rparr>\<rparr> \<and>
    map_of d = (map_of (disk (sy_server st)))(tmpOf (sy_curFull st) \<mapsto> FFile (x @ concat bs))"
  using assms
proof (induction bs arbitrary: st x)
  case Nil
  then show ?case
    by (intro exI [of _ "disk (sy_server st)"] exI [of _ "sy_writes st"]) (auto simp: fun_eq_iff)
next
  case (Cons b bs)
  show ?case
  proof (cases "b = []")
    case True
    then show ?thesis using Cons by (simp add: sync_chunk_def sync_write_def)
  next
    case False
    let ?tmp = "tmpOf (sy_curFull st)"
    let ?st1 = "st\<lparr>sy_writes := Suc (sy_writes st),
      sy_server := (sy_server st)\<lparr>disk := AList.update ?tmp (FFile (x @ b)) (disk (sy_server st))\<rparr>\<rparr>"
    have s: "sync_chunk no_faults st \<lparr>sye_path = [], sye_data = b, sye_version = v\<rparr> = ?st1"
      using Cons.prems False by (simp add: sync_chunk_def sync_write_def os_Write_ok file_data_def Let_def)
    have o: "sy_open ?st1"
      and t: "map_of (disk (sy_server ?st1)) (tmpOf (sy_curFull ?st1)) = Some (FFile (x @ b))"
      using Cons.prems(1) by simp_all
    obtain d k where e: "foldl (sync_chunk no_faults) ?st1
        (map (\<lambda>b. \<lparr>sye_path = [], sye_data = b, sye_version = v\<rparr>) bs) =
        ?st1\<lparr>sy_writes := k, sy_server := (sy_server ?st1)\<lparr>disk := d\<rparr>\<rparr>"
      and m: "map_of d = (map_of (disk (sy_server ?st1)))
        (tmpOf (sy_curFull ?st1) \<mapsto> FFile ((x @ b) @ concat bs))"
      using Cons.IH [OF o t] by blast
    have "map_of d = (map_of (disk (sy_server st)))(?tmp \<mapsto> FFile (x @ concat (b # bs)))"
      using m by (simp add: fun_eq_iff)
    moreover have "foldl (sync_chunk no_faults) st
        (map (\<lambda>b. \<lparr>sye_path = [], sye_data = b, sye_version = v\<rparr>) (b # bs)) =
        st\<lparr>sy_writes := k, sy_server := (sy_server st)\<lparr>disk := d\<rparr>\<rparr>"
      using e s by (simp del: no_faults)
    ultimately show ?thesis by blast
  qed
qed

lemma closed_chunks:
  "\<not> sy_open st \<Longrightarrow>
   foldl (sync_chunk flt) st (map (\<lambda>b. \<lparr>sye_path = [], sye_data = b, sye_version = v\<rparr>) bs) = st"
  by (induction bs) (simp_all add: sync_chunk_def sync_write_def)

lemma settled_closed: "\<not> sy_open st \<Longrightarrow> settled st = sy_server st"
  by (simp add: settled_def sync_finalize_def)

lemma finalize_closed [simp]: "\<not> sy_open (sync_finalize flt st)"
  by (simp add: sync_finalize_def Let_def)

text \<open>A file in progress whose temporary file holds \<open>x\<close>, once it is renamed into place.\<close>

lemma settled_effect:
  assumes "sy_open st" "sy_curFull st = outPath h n" "sy_curVersion st = v"
    and "sy_server st = h\<lparr>disk := d\<rparr>" "map_of d = (map_of (disk h))(tmpOf (outPath h n) \<mapsto> FFile x)"
    and "server_ok h" "ordinary n"
  shows "effect (Put x v) n h (settled st)"
proof -
  have nd: "map_of (disk h) (outPath h n) \<noteq> Some FDir" using outPath_no_dir(1) [OF assms(6,7)] .
  show ?thesis
    using assms nd
    by (auto simp: settled_def sync_finalize_def Let_def os_Rename_def same_role_def)
qed

lemma sync_group:
  fixes st n v bufs
  defines "h \<equiv> settled st" and "st' \<equiv> foldl (sync_chunk no_faults) st (sync_entries n v bufs)"
  assumes ok: "server_ok h" "ordinary n" and cur: "sy_curPath st \<noteq> n" and "bufs \<noteq> []"
  shows "if up_to_date h n v then settled st' = h \<and> sy_curPath st' = []
    else effect (Put (concat bufs) v) n h (settled st') \<and> sy_curPath st' = n"
proof -
  obtain b bs where bufs: "bufs = b # bs" using assms(6) by (cases bufs) auto
  have n: "n \<noteq> []" using ok(2) by (simp add: ordinary_def)
  let ?rest = "map (\<lambda>b. \<lparr>sye_path = [], sye_data = b, sye_version = v\<rparr>)"
  define st2 where "st2 = (sync_finalize no_faults st)\<lparr>sy_curPath := n, sy_curVersion := v,
    sy_curFull := outPath h n\<rparr>"
  have h: "sy_server st2 = h" "\<not> sy_open st2" by (simp_all add: st2_def h_def settled_def)
  have utd: "up_to_date h n v \<longleftrightarrow>
      (case versions h (outPath h n) of None \<Rightarrow> False | Some e \<Rightarrow> v \<le> e)"
    by (auto simp: up_to_date_def split: option.splits)
  have fc: "sync_chunk no_faults st \<lparr>sye_path = n, sye_data = b, sye_version = v\<rparr> =
      (if up_to_date h n v then st2\<lparr>sy_curPath := []\<rparr>
       else (case os_Create no_faults (tmpOf (outPath h n)) (disk h) of
               Inl e \<Rightarrow> st2\<lparr>sy_curPath := []\<rparr>
             | Inr d \<Rightarrow> sync_write no_faults b
                 (st2\<lparr>sy_open := True, sy_writes := 0, sy_server := h\<lparr>disk := d\<rparr>\<rparr>)))"
    using n cur unfolding utd
    by (simp add: sync_chunk_def Let_def st2_def h_def settled_def split: sum.split option.split del: no_faults)
  have split: "st' = foldl (sync_chunk no_faults)
      (sync_chunk no_faults st \<lparr>sye_path = n, sye_data = b, sye_version = v\<rparr>) (?rest bs)"
    by (simp add: st'_def bufs sync_entries_def)
  show ?thesis
  proof (cases "up_to_date h n v")
    case True
    have "st' = st2\<lparr>sy_curPath := []\<rparr>"
      using True h closed_chunks [of "st2\<lparr>sy_curPath := []\<rparr>" no_faults v bs]
      by (simp add: split fc del: no_faults)
    then show ?thesis using True h by (simp add: settled_closed)
  next
    case False
    define d0 where "d0 = AList.update (tmpOf (outPath h n)) (FFile []) (disk h)"
    define st3 where "st3 = st2\<lparr>sy_open := True, sy_writes := 0, sy_server := h\<lparr>disk := d0\<rparr>\<rparr>"
    have c: "os_Create no_faults (tmpOf (outPath h n)) (disk h) = Inr d0"
      unfolding d0_def using outPath_no_dir(2) [OF ok] by (rule os_Create_ok)
    have first: "st' = foldl (sync_chunk no_faults) st3 (?rest (b # bs))"
      using False c
      by (simp add: split fc st3_def sync_chunk_def [of _ "st2\<lparr>sy_open := b, sy_writes := k, sy_server := g\<rparr>" for b k g]
          del: no_faults)
    have s3: "sy_open st3" "sy_curFull st3 = outPath h n" "sy_curVersion st3 = v" "sy_curPath st3 = n"
      "sy_server st3 = h\<lparr>disk := d0\<rparr>" by (simp_all add: st3_def st2_def)
    have "map_of (disk (sy_server st3)) (tmpOf (sy_curFull st3)) = Some (FFile [])"
      by (simp add: s3 d0_def)
    from sync_tail [OF s3(1) this, of v "b # bs"] obtain d k where
      st': "st' = st3\<lparr>sy_writes := k, sy_server := (sy_server st3)\<lparr>disk := d\<rparr>\<rparr>"
        "map_of d = (map_of d0)(tmpOf (outPath h n) \<mapsto> FFile (concat bufs))"
      by (auto simp: first bufs s3 simp del: no_faults)
    then have "map_of d = (map_of (disk h))(tmpOf (outPath h n) \<mapsto> FFile (concat bufs))"
      by (simp add: d0_def fun_eq_iff)
    then have "effect (Put (concat bufs) v) n h (settled st')"
      by (intro settled_effect [of _ _ _ _ d]) (simp_all add: st'(1) s3 ok)
    then show ?thesis using False by (simp add: st'(1) s3)
  qed
qed

section \<open>The whole stream\<close>

type_synonym group = "string \<times> i64 \<times> bytes list"

definition group_stream :: "group list \<Rightarrow> SyncEntry list" where
  "group_stream gs = concat (map (\<lambda>(n, v, bufs). sync_entries n v bufs) gs)"

text \<open>What the receiver \<open>h\<close> shows of the file \<open>m\<close> after the groups.\<close>

definition taken_over :: "group list \<Rightarrow> server \<Rightarrow> string \<Rightarrow> (bytes \<times> i64) option" where
  "taken_over gs h m =
     (case map_of gs m of
        None \<Rightarrow> view h m
      | Some (v, bufs) \<Rightarrow> if up_to_date h m v then view h m else Some (concat bufs, v))"

definition groups_ok :: "group list \<Rightarrow> bool" where
  "groups_ok gs \<longleftrightarrow> distinct (map fst gs) \<and> (\<forall>(n, v, bufs) \<in> set gs. good_name n \<and> bufs \<noteq> [])"

lemma up_to_date_effect:
  assumes "effect (Put x v) n h h'" "server_ok h" "ordinary n" "ordinary m" "m \<noteq> n"
  shows "up_to_date h' m v' = up_to_date h m v'"
  using assms outPath_eq_iff [OF assms(2,4,3)] by (auto simp: up_to_date_def same_role_def outPath_def)

text \<open>The receiver after the groups: what it shows, and which versions it counts as current.\<close>

definition received :: "group list \<Rightarrow> server \<Rightarrow> server \<Rightarrow> bool" where
  "received gs h h' \<longleftrightarrow> server_ok h' \<and> (\<forall>m. good_name m \<longrightarrow> view h' m = taken_over gs h m) \<and>
     (\<forall>m v. ordinary m \<longrightarrow> m \<notin> fst ` set gs \<longrightarrow> up_to_date h' m v = up_to_date h m v) \<and>
     (\<forall>(n, v, bufs) \<in> set gs. up_to_date h' n v)"

lemma sync_groups:
  "groups_ok gs \<Longrightarrow> server_ok (settled st) \<Longrightarrow> sy_curPath st \<notin> fst ` set gs \<Longrightarrow>
   received gs (settled st) (settled (foldl (sync_chunk no_faults) st (group_stream gs)))"
proof (induction gs arbitrary: st)
  case Nil
  then show ?case by (simp add: group_stream_def taken_over_def received_def)
next
  case (Cons g gs)
  obtain n v bufs where g: "g = (n, v, bufs)" by (metis prod_cases3)
  define h where "h = settled st"
  define st1 where "st1 = foldl (sync_chunk no_faults) st (sync_entries n v bufs)"
  have n: "good_name n" "bufs \<noteq> []" "sy_curPath st \<noteq> n" "n \<notin> fst ` set gs" and gs: "groups_ok gs"
    using Cons.prems by (auto simp: groups_ok_def g)
  note on = good_ordinary [OF n(1)]
  have ok: "server_ok h" using Cons.prems(2) by (simp add: h_def)
  have grp: "if up_to_date h n v then settled st1 = h \<and> sy_curPath st1 = []
      else effect (Put (concat bufs) v) n h (settled st1) \<and> sy_curPath st1 = n"
    unfolding h_def st1_def by (rule sync_group) (use ok on n in \<open>simp_all add: h_def\<close>)
  have ok1: "server_ok (settled st1)" using grp effect_server_ok ok by (metis (full_types))
  have "[] \<notin> fst ` set gs"
    using gs by (force simp: groups_ok_def dest!: good_ordinary simp: ordinary_def)
  then have cur1: "sy_curPath st1 \<notin> fst ` set gs" using grp n(4) by (auto split: if_splits)
  note IH = Cons.IH [OF gs ok1 cur1]
  have none: "map_of gs n = None" using n(4) by (simp add: map_of_eq_None_iff)
  have fold: "foldl (sync_chunk no_faults) st (group_stream (g # gs)) =
      foldl (sync_chunk no_faults) st1 (group_stream gs)"
    by (simp add: group_stream_def g st1_def)
  have utd: "up_to_date (settled st1) m v' = up_to_date h m v'" if "ordinary m" "m \<noteq> n" for m v'
    using grp up_to_date_effect [OF _ ok on that] by (metis (full_types))
  have utdn: "up_to_date (settled st1) n v"
    using grp by (auto simp: up_to_date_def same_role_def outPath_def split: if_splits)
  have "taken_over gs (settled st1) m = taken_over (g # gs) h m" if m: "good_name m" for m
  proof (cases "up_to_date h n v")
    case True
    then show ?thesis using grp by (auto simp: taken_over_def g none split: option.split)
  next
    case False
    then have e: "effect (Put (concat bufs) v) n h (settled st1)" using grp by simp
    have "view (settled st1) m = ((view h)(n \<mapsto> (concat bufs, v))) m"
      using effect_view [OF e ok n(1) m] by simp
    then show ?thesis
      using False utd [OF good_ordinary [OF m]]
      by (cases "m = n") (auto simp: taken_over_def g none split: option.split)
  qed
  then show ?case
    using IH utd utdn n(4) on unfolding fold h_def [symmetric]
    by (auto simp: received_def g simp del: no_faults)
qed

section \<open>What a primary sends\<close>

text \<open>A primary whose output directory holds finished files only.\<close>

definition tidy :: "server \<Rightarrow> bool" where
  "tidy hp \<longleftrightarrow> server_ok hp \<and> distinct (map fst (disk hp)) \<and>
     map_of (disk hp) (path_Clean (outputDir hp)) = Some FDir \<and>
     (\<forall>n \<in> set (dir_children (disk hp) (outputDir hp)). good_name n)"

definition file_group :: "server \<Rightarrow> string \<Rightarrow> group" where
  "file_group hp n = (n, get0 (versions hp) (outPath hp n),
     chunks_of chunkSize (file_data (disk hp) (outPath hp n)))"

definition sent :: "server \<Rightarrow> group list" where
  "sent hp = filter (\<lambda>(n, v, bufs). bufs \<noteq> [])
     (map (file_group hp) (sort (dir_children (disk hp) (outputDir hp))))"

lemma group_stream_filter: "group_stream (filter (\<lambda>(n, v, bufs). bufs \<noteq> []) gs) = group_stream gs"
  by (induction gs) (auto simp: group_stream_def sync_entries_def)

lemma children_iff:
  "n \<in> set (dir_children d dir) \<longleftrightarrow> n \<noteq> [] \<and> slash \<notin> set n \<and> map_of d (dir_prefix dir @ n) \<noteq> None"
proof -
  have "(\<exists>k \<in> fst ` set d. take (length (dir_prefix dir)) k = dir_prefix dir \<and>
      n = drop (length (dir_prefix dir)) k) \<longleftrightarrow> dir_prefix dir @ n \<in> fst ` set d"
    by (metis append_eq_conv_conj append_take_drop_id)
  then show ?thesis
    by (auto simp: dir_children_def map_of_eq_None_iff image_iff Bex_def)
qed

lemma children_distinct:
  assumes "distinct (map fst d)"
  shows "distinct (dir_children d dir)"
proof -
  let ?p = "dir_prefix dir"
  let ?ks = "filter (\<lambda>k. take (length ?p) k = ?p) (map fst d)"
  have "inj_on (drop (length ?p)) (set ?ks)"
    by (rule inj_onI) (simp, metis append_take_drop_id)
  moreover have "distinct ?ks" using assms by (rule distinct_filter)
  ultimately have "distinct (map (drop (length ?p)) ?ks)" by (simp only: distinct_map)
  then show ?thesis unfolding dir_children_def by (rule distinct_filter)
qed

lemma send_files_ok:
  assumes "server_ok hp"
  shows "\<forall>(n, isDir) \<in> set es. good_name n \<and> \<not> isDir \<and> map_of (disk hp) (outPath hp n) \<noteq> None \<Longrightarrow>
   send_files no_faults hp es = (group_stream (map (file_group hp \<circ> fst) es), None)"
proof (induction es)
  case (Cons e es)
  obtain n where e: "e = (n, False)" and n: "good_name n" "map_of (disk hp) (outPath hp n) \<noteq> None"
    using Cons.prems by (cases e) auto
  obtain b where b: "map_of (disk hp) (outPath hp n) = Some (FFile b)"
    using n outPath_no_dir(1) [OF assms good_ordinary [OF n(1)]]
    by (cases "map_of (disk hp) (outPath hp n)"; cases "the (map_of (disk hp) (outPath hp n))") auto
  have p: "path_Join (outputDir hp) n = outPath hp n"
    by (simp add: outPath_def path_Base_ordinary good_ordinary n(1))
  have o: "os_Open no_faults (outPath hp n) (disk hp) = Inr (FFile b)" by (simp add: os_Open_def b)
  have r: "read_chunks no_faults chunkSize (outPath hp n) (FFile b) = (chunks_of chunkSize b, None)"
    by (simp add: read_chunks_def read_upto_ok del: no_faults)
  show ?case
    using Cons
    by (simp add: e p Let_def o r group_stream_def file_group_def file_data_def b del: no_faults)
qed (simp add: group_stream_def)

lemma SyncState_sent:
  assumes "tidy hp"
  shows "rpc_SyncState no_faults hp = (group_stream (sent hp), None)"
proof -
  let ?ch = "dir_children (disk hp) (outputDir hp)"
  have ok: "server_ok hp" and good: "\<And>n. n \<in> set ?ch \<Longrightarrow> good_name n"
    and dir: "map_of (disk hp) (path_Clean (outputDir hp)) = Some FDir"
    using assms by (auto simp: tidy_def)
  have path: "outPath hp n = dir_prefix (outputDir hp) @ n" if "n \<in> set ?ch" for n
    using outPath_ordinary [of hp n] good_ordinary [OF good [OF that]] ok by (simp add: server_ok_def)
  have "os_ReadDir no_faults (outputDir hp) (disk hp) = Inr (map (\<lambda>n. (n, False)) (sort ?ch))"
    using ok good_ordinary [OF good] by (simp add: os_ReadDir_def dir server_ok_def)
  moreover have "\<forall>(n, isDir) \<in> set (map (\<lambda>n. (n, False)) (sort ?ch)).
      good_name n \<and> \<not> isDir \<and> map_of (disk hp) (outPath hp n) \<noteq> None"
    using good path children_iff by auto
  ultimately show ?thesis
    using send_files_ok [OF ok] group_stream_filter
    by (simp add: rpc_SyncState_def sent_def comp_def del: no_faults)
qed

lemma sent_ok: "tidy hp \<Longrightarrow> groups_ok (sent hp)"
proof -
  assume t: "tidy hp"
  have "map fst (map (file_group hp) xs) = xs" for xs by (simp add: file_group_def comp_def)
  then have "distinct (map fst (map (file_group hp) (sort (dir_children (disk hp) (outputDir hp)))))"
    using t children_distinct by (simp add: tidy_def)
  then have "distinct (map fst (sent hp))" unfolding sent_def by (rule distinct_map_filter)
  then show ?thesis
    using t by (auto simp: groups_ok_def sent_def file_group_def tidy_def)
qed

lemma sent_lookup:
  assumes "tidy hp" "good_name m"
  shows "map_of (sent hp) m =
    (case view hp m of Some (b, v) \<Rightarrow> if b = [] then None else Some (v, chunks_of chunkSize b) | None \<Rightarrow> None)"
proof -
  have d: "distinct (map fst (sent hp))" using sent_ok [OF assms(1)] by (simp add: groups_ok_def)
  have ok: "server_ok hp" using assms(1) by (simp add: tidy_def)
  note om = good_ordinary [OF assms(2)]
  have ch: "m \<in> set (dir_children (disk hp) (outputDir hp)) \<longleftrightarrow> map_of (disk hp) (outPath hp m) \<noteq> None"
    using om ok by (simp add: children_iff ordinary_def outPath_ordinary [OF _ om] server_ok_def)
  have some: "map_of (sent hp) m = Some (v, bufs) \<longleftrightarrow>
      map_of (disk hp) (outPath hp m) \<noteq> None \<and> (m, v, bufs) = file_group hp m \<and> bufs \<noteq> []" for v bufs
    unfolding map_of_eq_Some_iff [OF d] using ch by (auto simp: sent_def file_group_def)
  show ?thesis
  proof (cases "view hp m")
    case None
    then have "map_of (disk hp) (outPath hp m) = None"
      using outPath_no_dir(1) [OF ok om] by (auto simp: view_def split: option.splits fnode.splits)
    then have "map_of (sent hp) m = None" using some by (metis not_Some_eq surj_pair)
    then show ?thesis by (simp add: None)
  next
    case (Some bv)
    then obtain b where b: "map_of (disk hp) (outPath hp m) = Some (FFile b)"
        "bv = (b, get0 (versions hp) (outPath hp m))"
      by (auto simp: view_def split: option.splits fnode.splits)
    have g: "file_group hp m = (m, get0 (versions hp) (outPath hp m), chunks_of chunkSize b)"
      by (simp add: file_group_def file_data_def b)
    have e: "chunks_of chunkSize b = [] \<longleftrightarrow> b = []" by (rule chunks_of_eq_Nil) (simp add: chunkSize_def)
    show ?thesis
    proof (cases "b = []")
      case True
      have "map_of (sent hp) m = None"
      proof (rule ccontr)
        assume "map_of (sent hp) m \<noteq> None"
        then obtain v bufs where "map_of (sent hp) m = Some (v, bufs)" by auto
        then show False using some [of v bufs] g True by simp
      qed
      then show ?thesis using True by (simp add: Some b(2))
    next
      case False
      then show ?thesis using some [of "get0 (versions hp) (outPath hp m)" "chunks_of chunkSize b"]
        by (simp add: Some b g e)
    qed
  qed
qed

lemma sync_recv_groups:
  assumes "groups_ok gs" "server_ok h"
  shows "\<exists>h'. sync_recv no_faults (group_stream gs, e) h = (e \<noteq> None, h') \<and> received gs h h'"
proof -
  have "settled (sync_init h) = h" by (simp add: settled_def sync_finalize_def sync_init_def)
  moreover have "sy_curPath (sync_init h) \<notin> fst ` set gs"
    using assms(1) by (force simp: sync_init_def groups_ok_def ordinary_def dest!: good_ordinary)
  ultimately show ?thesis
    using sync_groups [OF assms(1), of "sync_init h"] assms(2)
    by (simp add: sync_recv_def settled_def del: no_faults)
qed

text \<open>
  C20: A backup that receives the whole stream of a primary ends without failure and shows,
  for every file name, what the primary shows, provided the primary's file is not empty and
  the backup does not already count that version as current. Every other file stays as the
  backup had it: empty files are not sent, and files the primary has deleted are kept.
\<close>

theorem sync_takes_over:
  assumes "server_ok h" "tidy hp"
  shows "\<exists>h'. sync_recv no_faults (rpc_SyncState no_faults hp) h = (False, h') \<and> server_ok h' \<and>
    (\<forall>n. good_name n \<longrightarrow> view h' n =
      (case view hp n of
         Some (b, v) \<Rightarrow> if b \<noteq> [] \<and> \<not> up_to_date h n v then Some (b, v) else view h n
       | None \<Rightarrow> view h n))"
proof -
  obtain h' where h': "sync_recv no_faults (group_stream (sent hp), None) h = (False, h')"
      "received (sent hp) h h'"
    using sync_recv_groups [OF sent_ok [OF assms(2)] assms(1), of None] by auto
  have "0 < chunkSize" by (simp add: chunkSize_def)
  then have "taken_over (sent hp) h n =
      (case view hp n of
         Some (b, v) \<Rightarrow> if b \<noteq> [] \<and> \<not> up_to_date h n v then Some (b, v) else view h n
       | None \<Rightarrow> view h n)" if "good_name n" for n
    using sent_lookup [OF assms(2) that] by (auto simp: taken_over_def split: option.splits)
  then show ?thesis
    using h' by (simp add: SyncState_sent [OF assms(2)] received_def del: no_faults)
qed

text \<open>The primary of the deployment with one output file.\<close>

definition seeded :: "bytes \<Rightarrow> i64 \<Rightarrow> server" where
  "seeded b v =
     (compose_server (compose_disk @ [(''/data/output/primes.txt'', FFile b)]) ''s1'' ''s1:50051'' True)
       \<lparr>versions := [''/data/output/primes.txt'' \<mapsto> v]\<rparr>"

lemma seeded_path: "outPath (seeded b v) ''primes.txt'' = ''/data/output/primes.txt''"
  "outPath (compose_server d i p r) ''primes.txt'' = ''/data/output/primes.txt''"
  unfolding outPath_def seeded_def by (simp_all, code_simp+)

lemma seeded_disk:
  "disk (seeded b v) = [(''/data/input'', FDir), (''/data/output'', FDir), (''/data/output/primes.txt'', FFile b)]"
  "outputDir (seeded b v) = ''/data/output''" "versions (seeded b v) = [''/data/output/primes.txt'' \<mapsto> v]"
  by (simp_all add: seeded_def compose_disk_def)

lemma seeded_children: "dir_children (disk (seeded b v)) ''/data/output'' = [''primes.txt'']"
proof -
  have "dir_children [(''/data/input'', x), (''/data/output'', y), (''/data/output/primes.txt'', z)] ''/data/output''
      = [''primes.txt'']" for x y z
    by code_simp
  then show ?thesis by (simp add: seeded_disk)
qed

lemma seeded_tidy: "tidy (seeded b v)"
proof -
  have p: "dir_prefix ''/data/output'' = ''/data/output/''" "path_Clean ''/data/output'' = ''/data/output''"
    by code_simp+
  show ?thesis
    unfolding tidy_def server_ok_def
    by (auto simp: seeded_disk p seeded_children primes_txt_good seeded_children [unfolded seeded_disk])
qed

lemma seeded_view: "view (seeded b v) ''primes.txt'' = Some (b, v)"
  unfolding view_def seeded_path by (simp add: seeded_disk get0_def)

lemma fresh_backup:
  "server_ok (compose_server compose_disk i p b)" "view (compose_server compose_disk i p b) n = None \<or> \<not> good_name n"
  "\<not> up_to_date (compose_server compose_disk i p b) n v"
  using outPath_no_dir(1) [OF compose_server_ok good_ordinary, of n i p b] compose_server_ok
  by (auto simp: view_def up_to_date_def compose_disk_def split: option.splits fnode.splits)

theorem sync_takes_over_witness:
  "\<exists>h'. sync_recv no_faults (rpc_SyncState no_faults (seeded ''2'' 3))
      (compose_server compose_disk ''s2'' ''s2:50052'' False) = (False, h') \<and>
    view h' ''primes.txt'' = Some (''2'', 3)"
proof -
  let ?h = "compose_server compose_disk ''s2'' ''s2:50052'' False"
  show ?thesis
    using sync_takes_over [of ?h "seeded ''2'' 3", OF fresh_backup(1) seeded_tidy] primes_txt_good
      seeded_view fresh_backup(3) [of "''s2''" "''s2:50052''" False]
    by (elim exE conjE) (auto simp del: no_faults)
qed

text \<open>
  C26: A stream that breaks off inside a file, after \<open>j\<close> of its chunks, is counted as failed,
  yet those chunks are renamed into place under the primary's version of the whole file. The
  next attempt, even one that receives the whole stream, leaves the truncated file as it is.
\<close>

theorem broken_sync_installs_prefix:
  assumes "server_ok h" "tidy hp" "sent hp = gs @ (n, v, bufs) # gs'" "\<not> up_to_date h n v"
    and "0 < j" "j \<le> length bufs"
  shows "\<exists>h1 h2.
    sync_recv no_faults (take (length (group_stream gs) + j) (fst (rpc_SyncState no_faults hp)), Some e) h
      = (True, h1) \<and> view h1 n = Some (concat (take j bufs), v) \<and>
    sync_recv no_faults (rpc_SyncState no_faults hp) h1 = (False, h2) \<and>
    view h2 n = Some (concat (take j bufs), v)"
proof -
  have ok: "groups_ok (gs @ (n, v, bufs) # gs')" using sent_ok [OF assms(2)] assms(3) by simp
  let ?gs = "gs @ [(n, v, take j bufs)]"
  have ok1: "groups_ok ?gs" using ok assms(5,6) by (auto simp: groups_ok_def)
  have n: "good_name n" "n \<notin> fst ` set gs" using ok by (auto simp: groups_ok_def)
  have "sync_entries n v (take j bufs) = take j (sync_entries n v bufs)"
    "length (sync_entries n v bufs) = length bufs"
    using assms(5) by (cases bufs; cases j; simp add: sync_entries_def take_map)+
  then have "take (length (group_stream gs) + j) (group_stream (sent hp)) = group_stream ?gs"
    using assms(6) by (simp add: assms(3) group_stream_def)
  then obtain h1 where h1: "sync_recv no_faults
      (take (length (group_stream gs) + j) (fst (rpc_SyncState no_faults hp)), Some e) h = (True, h1)"
      "received ?gs h h1"
    using sync_recv_groups [OF ok1 assms(1), of "Some e"]
    by (auto simp: SyncState_sent [OF assms(2)] simp del: no_faults)
  have "map_of gs n = None" using n(2) by (simp add: map_of_eq_None_iff)
  then have "map_of ?gs n = Some (v, take j bufs)" by (simp add: map_add_def)
  then have v1: "view h1 n = Some (concat (take j bufs), v)" and u1: "up_to_date h1 n v" "server_ok h1"
    using h1(2) n(1) assms(4) by (auto simp: received_def taken_over_def simp del: map_of_append)
  obtain h2 where h2: "sync_recv no_faults (group_stream (sent hp), None) h1 = (False, h2)"
      "received (sent hp) h1 h2"
    using sync_recv_groups [OF sent_ok [OF assms(2)] u1(2), of None] by auto
  have "map_of (sent hp) n = Some (v, bufs)" using \<open>map_of gs n = None\<close> by (simp add: assms(3) map_add_def)
  then have "view h2 n = view h1 n" using h2(2) n(1) u1(1) by (simp add: received_def taken_over_def)
  then show ?thesis
    using h1(1) v1 h2(1) by (simp add: SyncState_sent [OF assms(2)] del: no_faults)
qed

theorem broken_sync_installs_prefix_witness:
  "\<exists>h1 h2. sync_recv no_faults (take 1 (fst (rpc_SyncState no_faults
        (seeded (replicate (Suc chunkSize) CHR ''7'') 3))), Some ''EOF'')
      (compose_server compose_disk ''s2'' ''s2:50052'' False) = (True, h1) \<and>
    sync_recv no_faults (rpc_SyncState no_faults (seeded (replicate (Suc chunkSize) CHR ''7'') 3)) h1 = (False, h2) \<and>
    view h2 ''primes.txt'' = Some (replicate chunkSize CHR ''7'', 3)"
proof -
  let ?b = "replicate (Suc chunkSize) CHR ''7''"
  have cs: "0 < chunkSize" by (simp add: chunkSize_def)
  have b: "chunks_of chunkSize ?b = [replicate chunkSize CHR ''7'', ''7'']"
    using cs by (simp add: chunks_of.simps [of chunkSize "replicate (Suc n) CHR ''7''" for n] del: replicate_Suc)
      simp
  have s: "sent (seeded ?b 3) = [] @ (''primes.txt'', 3, [replicate chunkSize CHR ''7'', ''7'']) # []"
    using b seeded_children [of ?b 3] seeded_view [of ?b 3]
    by (simp add: sent_def seeded_disk file_group_def seeded_path get0_def file_data_def del: replicate_Suc)
  show ?thesis
    using broken_sync_installs_prefix [OF _ seeded_tidy s, of "compose_server compose_disk ''s2'' ''s2:50052'' False"
        1 "''EOF''"] fresh_backup
    by (auto simp: group_stream_def simp del: no_faults replicate_Suc)
qed

section \<open>The retry loop\<close>

lemma sync_recv_gr: "gr_sync (snd (sync_recv flt strm h)) = gr_sync h"
proof -
  have f: "gr_sync (sy_server (sync_finalize flt st)) = gr_sync (sy_server st)" for st
    by (simp add: sync_finalize_def Let_def)
  have w: "gr_sync (sy_server (sync_write flt b st)) = gr_sync (sy_server st)" for b st
    by (simp add: sync_write_def Let_def split: sum.split)
  have "gr_sync (sy_server (sync_chunk flt st c)) = gr_sync (sy_server st)" for st c
    by (simp add: sync_chunk_def Let_def f w split: sum.split)
  then have "gr_sync (sy_server (foldl (sync_chunk flt) st cs)) = gr_sync (sy_server st)" for st cs
    by (induction cs arbitrary: st) simp_all
  then show ?thesis by (simp add: sync_recv_def f sync_init_def)
qed

lemma sync_attempt_known:
  assumes "cl a = Some h" "cl p = Some hp" "knownPrimaryAddr h = p" "p \<noteq> []" "p \<noteq> serverAddr h"
    and "p \<in> peer_addr ` set (peers h)"
  shows "links env p = LinkDown \<Longrightarrow> sync_attempt rpc dial env a (cl, t) = (False, cl, t)"
    and "env = healthy \<Longrightarrow> sync_recv no_faults (rpc_SyncState no_faults hp) h = (False, h') \<Longrightarrow>
      sync_attempt rpc dial env a (cl, t) = (True, cl(a \<mapsto> h'), t)"
  using assms
  by (simp_all add: sync_attempt_def resolvePrimaryAddr_def Let_def call_SyncState_def del: no_faults)

lemma sync_loop_step:
  "sync_loop (Suc n) world dial i a (cl, t) =
     (case sync_attempt (fst (world i)) dial (snd (world i)) a (cl, if 0 < i then t + 2000 else t) of
        (True, s1) \<Rightarrow> (True, s1)
      | (False, s1) \<Rightarrow> sync_loop n world dial (Suc i) a s1)"
  by simp

lemma sync_loop_down:
  assumes "cl a = Some h" "cl p = Some hp" "knownPrimaryAddr h = p" "p \<noteq> []" "p \<noteq> serverAddr h"
    and "p \<in> peer_addr ` set (peers h)"
  shows "\<forall>j < m. links (snd (world (i + j))) p = LinkDown \<Longrightarrow> m \<le> n \<Longrightarrow>
    \<exists>t'. sync_loop n world dial i a (cl, t) = sync_loop (n - m) world dial (i + m) a (cl, t')"
proof (induction m arbitrary: i n t)
  case (Suc m)
  obtain n' where n: "n = Suc n'" using Suc.prems(2) by (cases n) auto
  have "links (snd (world i)) p = LinkDown" using Suc.prems(1) by force
  then have down: "sync_attempt rpc dial (snd (world i)) a (cl, t) = (False, cl, t)" for rpc t
    by (rule sync_attempt_known(1) [OF assms])
  have "\<exists>t1. sync_loop n world dial i a (cl, t) = sync_loop n' world dial (Suc i) a (cl, t1)"
    by (simp add: n sync_loop_step down del: sync_loop.simps) blast
  moreover have "\<forall>j < m. links (snd (world (Suc i + j))) p = LinkDown"
  proof (intro allI impI)
    fix j assume "j < m"
    then show "links (snd (world (Suc i + j))) p = LinkDown"
      using Suc.prems(1) [rule_format, of "Suc j"] by simp
  qed
  ultimately show ?case
    using Suc.IH [of "Suc i" n'] Suc.prems(2) n by fastforce
qed auto

text \<open>
  C21: A backup that remembers a running primary takes over its files within the 30 attempts as
  soon as one attempt finds the link up, after attempts in which the link was down; the
  goroutine then ends. With the link down throughout, it gives up and leaves every file as it
  was.
\<close>

theorem sync_retry_succeeds:
  assumes "cl a = Some h" "cl p = Some hp" "knownPrimaryAddr h = p" "p \<noteq> []" "p \<noteq> serverAddr h"
    and "p \<in> peer_addr ` set (peers h)" "server_ok h" "tidy hp"
    and "\<forall>j < k. links (snd (world j)) p = LinkDown" "k < 30 \<Longrightarrow> snd (world k) = healthy"
  shows "\<exists>cl' t' h'. syncFromPrimaryWithRetry world dial a (cl, t) = (k < 30, cl', t') \<and>
    cl' a = Some h' \<and> gr_sync h' = gr_sync h - 1 \<and>
    (\<forall>n. good_name n \<longrightarrow> view h' n =
      (case view hp n of
         Some (b, v) \<Rightarrow> if b \<noteq> [] \<and> \<not> up_to_date h n v \<and> k < 30 then Some (b, v) else view h n
       | None \<Rightarrow> view h n))"
proof (cases "k < 30")
  case True
  obtain t1 where l: "sync_loop 30 world dial 0 a (cl, t) = sync_loop (30 - k) world dial k a (cl, t1)"
    using sync_loop_down [OF assms(1-6), where m = k and i = 0 and n = 30 and world = world and dial = dial and t = t]
      assms(9) True by auto
  obtain h' where h': "sync_recv no_faults (rpc_SyncState no_faults hp) h = (False, h')"
      "\<forall>n. good_name n \<longrightarrow> view h' n = (case view hp n of
         Some (b, v) \<Rightarrow> if b \<noteq> [] \<and> \<not> up_to_date h n v then Some (b, v) else view h n
       | None \<Rightarrow> view h n)"
    using sync_takes_over [OF assms(7,8)] by blast
  obtain m where m: "30 - k = Suc m" using True by (metis Suc_diff_Suc)
  obtain t2 where "sync_loop 30 world dial 0 a (cl, t) = (True, cl(a \<mapsto> h'), t2)"
    using sync_attempt_known(2) [OF assms(1-6) assms(10) [OF True] h'(1)]
    by (simp add: l m sync_loop_step del: sync_loop.simps)
  moreover have "gr_sync h' = gr_sync h" using sync_recv_gr [of no_faults _ h] h'(1) by (metis snd_conv)
  moreover have "view (h'\<lparr>gr_sync := x\<rparr>) n = view h' n" for x n
    by (simp add: view_def outPath_def split: option.split fnode.split)
  ultimately show ?thesis
    using h'(2) True by (simp add: syncFromPrimaryWithRetry_def at_server_def split: option.split)
next
  case False
  have "\<forall>j < 30. links (snd (world (0 + j))) p = LinkDown" using assms(9) False by simp
  from sync_loop_down [OF assms(1-6) this, of 30] obtain t1 where
    "sync_loop 30 world dial 0 a (cl, t) = (False, cl, t1)" by auto
  then show ?thesis
    using assms(1) False
    by (simp add: syncFromPrimaryWithRetry_def at_server_def view_def outPath_def
        split: option.split fnode.split)
qed

theorem sync_retry_succeeds_witness:
  "\<exists>cl' t' h'. syncFromPrimaryWithRetry
      (\<lambda>i. (GetPrimary 1 (\<lambda>_. True), if i < 2 then healthy\<lparr>links := \<lambda>_. LinkDown\<rparr> else healthy)) (\<lambda>_. True) ''s2:50052''
      (compose(''s1:50051'' \<mapsto> seeded ''2'' 3,
        ''s2:50052'' \<mapsto> (compose_server compose_disk ''s2'' ''s2:50052'' False)\<lparr>knownPrimaryAddr := ''s1:50051''\<rparr>), 0) = (True, cl', t') \<and>
    cl' ''s2:50052'' = Some h' \<and> view h' ''primes.txt'' = Some (''2'', 3)"
proof -
  let ?h = "(compose_server compose_disk ''s2'' ''s2:50052'' False)\<lparr>knownPrimaryAddr := ''s1:50051''\<rparr>"
  let ?w = "\<lambda>i. (GetPrimary 1 (\<lambda>_. True), if i < 2 then healthy\<lparr>links := \<lambda>_. LinkDown\<rparr> else healthy)"
  let ?cl = "compose(''s1:50051'' \<mapsto> seeded ''2'' 3, ''s2:50052'' \<mapsto> ?h)"
  have ok: "server_ok ?h" "\<not> up_to_date ?h n v" for n v
    using compose_server_ok [of "''s2''" "''s2:50052''" False] by (simp_all add: server_ok_def up_to_date_def)
  have ps: "''s1:50051'' \<in> peer_addr ` set (peers ?h)"
    by (simp add: compose_server_def compose_peers_def)
  show ?thesis
    using sync_retry_succeeds [where cl = ?cl and a = "''s2:50052''" and h = ?h and p = "''s1:50051''" and k = 2
        and hp = "seeded ''2'' 3" and world = ?w and dial = "\<lambda>_. True" and t = 0]
      ok ps seeded_tidy [of "''2''" 3] primes_txt_good seeded_view [of "''2''" 3]
    by (auto simp: no_faults_def simp del: GetPrimary.simps)
qed

end
