(* ===== verification/Afs_Cache.thy ===== *)
theory Afs_Cache
  imports Os_Files
begin

text \<open>
  \<open>afsfs/pkg/afs/cache.go\<close>: the client's table of cached files and open handles, over the
  client's own files. Those are kept by inode, as open descriptors survive a rename or a
  removal of their path. Offsets count bytes. A descriptor belongs to one handle, so its
  offset is a field of the handle's entry.
\<close>

section \<open>Files of the client's machine\<close>

record localfs =
  names :: "string \<rightharpoonup> nat"
  inodes :: "nat \<Rightarrow> bytes"
  next_inode :: nat

record fdesc =
  fd_inode :: nat
  fd_off :: nat
  fd_write :: bool

definition lf_content :: "localfs \<Rightarrow> string \<Rightarrow> bytes option" where
  "lf_content fs p = map_option (inodes fs) (names fs p)"

text \<open>Opening with \<open>O_CREATE\<close>: the inode of \<open>p\<close>, a new empty one if there is none.\<close>

definition lf_ensure :: "string \<Rightarrow> localfs \<Rightarrow> nat \<times> localfs" where
  "lf_ensure p fs =
     (case names fs p of
        Some i \<Rightarrow> (i, fs)
      | None \<Rightarrow> (next_inode fs, fs\<lparr>names := (names fs)(p \<mapsto> next_inode fs),
           inodes := (inodes fs)(next_inode fs := []), next_inode := Suc (next_inode fs)\<rparr>))"

definition lf_Create :: "faults \<Rightarrow> string \<Rightarrow> localfs \<Rightarrow> (nat \<times> localfs) res" where
  "lf_Create flt p fs =
     (case flt OsCreate p of
        Some e \<Rightarrow> Inl (os_error ''open'' p e)
      | None \<Rightarrow> (case lf_ensure p fs of (i, fs') \<Rightarrow> Inr (i, fs'\<lparr>inodes := (inodes fs')(i := [])\<rparr>)))"

definition lf_WriteFile :: "faults \<Rightarrow> string \<Rightarrow> bytes \<Rightarrow> localfs \<Rightarrow> localfs res" where
  "lf_WriteFile flt p b fs =
     (case flt OsWriteFile p of
        Some e \<Rightarrow> Inl (os_error ''open'' p e)
      | None \<Rightarrow> (case lf_ensure p fs of (i, fs') \<Rightarrow> Inr (fs'\<lparr>inodes := (inodes fs')(i := b)\<rparr>)))"

definition lf_append :: "faults \<Rightarrow> nat \<Rightarrow> string \<Rightarrow> nat \<Rightarrow> bytes \<Rightarrow> localfs \<Rightarrow> localfs res" where
  "lf_append flt k p i b fs =
     (case flt (OsWrite k) p of
        Some e \<Rightarrow> Inl (os_error ''write'' p e)
      | None \<Rightarrow> Inr (fs\<lparr>inodes := (inodes fs)(i := inodes fs i @ b)\<rparr>))"

definition lf_Rename :: "faults \<Rightarrow> string \<Rightarrow> string \<Rightarrow> localfs \<Rightarrow> localfs res" where
  "lf_Rename flt old new fs =
     (case flt OsRename old of
        Some e \<Rightarrow> Inl (os_error ''rename'' old e)
      | None \<Rightarrow>
          (case names fs old of
             None \<Rightarrow> Inl (os_error ''rename'' old ''no such file or directory'')
           | Some i \<Rightarrow> Inr (fs\<lparr>names := (names fs)(old := None, new \<mapsto> i)\<rparr>)))"

definition lf_Remove :: "faults \<Rightarrow> string \<Rightarrow> localfs \<Rightarrow> localfs" where
  "lf_Remove flt p fs =
     (if flt OsRemove p = None then fs\<lparr>names := (names fs)(p := None)\<rparr> else fs)"

text \<open>\<open>openLocalFile\<close> of \<open>client.go\<close>.\<close>

definition openLocalFile :: "faults \<Rightarrow> string \<Rightarrow> bool \<Rightarrow> localfs \<Rightarrow> (fdesc \<times> localfs) res" where
  "openLocalFile flt p wr fs =
     (case flt OsOpen p of
        Some e \<Rightarrow> Inl (os_error ''open'' p e)
      | None \<Rightarrow>
          if wr then
            (case lf_ensure p fs of (i, fs') \<Rightarrow> Inr (\<lparr>fd_inode = i, fd_off = 0, fd_write = True\<rparr>, fs'))
          else
            (case names fs p of
               None \<Rightarrow> Inl (os_error ''open'' p ''no such file or directory'')
             | Some i \<Rightarrow> Inr (\<lparr>fd_inode = i, fd_off = 0, fd_write = False\<rparr>, fs)))"

text \<open>Writing at an offset; a gap after a truncation by another descriptor reads as zeros.\<close>

definition write_at :: "bytes \<Rightarrow> nat \<Rightarrow> bytes \<Rightarrow> bytes" where
  "write_at d off b =
     take off (d @ replicate (off - length d) (CHR 0x00)) @ b @ drop (off + length b) d"

definition read_at :: "bytes \<Rightarrow> nat \<Rightarrow> nat \<Rightarrow> bytes" where
  "read_at d off n = take n (drop off d)"

section \<open>The cache manager\<close>

record cacheEntry =
  ce_localPath :: string
  cachedVersion :: i64

record openEntry =
  localFd :: fdesc
  dirty :: bool
  serverHandleID :: i64
  oe_path :: string

record cacheManager =
  cacheDir :: string
  cached :: "string \<rightharpoonup> cacheEntry"
  openFiles :: "i64 \<rightharpoonup> openEntry"
  cm_nextHandle :: i64

definition newCacheManager :: "faults \<Rightarrow> string \<Rightarrow> cacheManager res" where
  "newCacheManager flt dir =
     (case flt OsMkdirAll dir of
        Some e \<Rightarrow> Inl (os_error ''mkdir'' dir e)
      | None \<Rightarrow> Inr \<lparr>cacheDir = dir, cached = Map.empty, openFiles = Map.empty, cm_nextHandle = 0\<rparr>)"

definition isCached :: "cacheManager \<Rightarrow> string \<Rightarrow> i64 \<times> bool" where
  "isCached cm path =
     (case cached cm path of None \<Rightarrow> (0, False) | Some entry \<Rightarrow> (cachedVersion entry, True))"

definition localPath :: "cacheManager \<Rightarrow> string \<Rightarrow> string" where
  "localPath cm path = cacheDir cm @ ''/'' @ path"

definition storeCacheEntry :: "string \<Rightarrow> i64 \<Rightarrow> cacheManager \<Rightarrow> cacheManager" where
  "storeCacheEntry path version cm =
     cm\<lparr>cached := (cached cm)(path \<mapsto> \<lparr>ce_localPath = localPath cm path, cachedVersion = version\<rparr>)\<rparr>"

definition updateVersion :: "string \<Rightarrow> i64 \<Rightarrow> cacheManager \<Rightarrow> cacheManager" where
  "updateVersion path version cm =
     (case cached cm path of
        None \<Rightarrow> cm
      | Some entry \<Rightarrow> cm\<lparr>cached := (cached cm)(path \<mapsto> entry\<lparr>cachedVersion := version\<rparr>)\<rparr>)"

definition dropCacheEntry :: "string \<Rightarrow> cacheManager \<Rightarrow> cacheManager" where
  "dropCacheEntry path cm = cm\<lparr>cached := (cached cm)(path := None)\<rparr>"

definition openFile :: "string \<Rightarrow> fdesc \<Rightarrow> i64 \<Rightarrow> cacheManager \<Rightarrow> i64 \<times> cacheManager" where
  "openFile path fd serverHandle cm =
     (let id = i64_add (cm_nextHandle cm) 1
      in (id, cm\<lparr>cm_nextHandle := id,
            openFiles := (openFiles cm)(id \<mapsto>
              \<lparr>localFd = fd, dirty = False, serverHandleID = serverHandle, oe_path = path\<rparr>)\<rparr>))"

definition getOpenEntry :: "cacheManager \<Rightarrow> i64 \<Rightarrow> openEntry option" where
  "getOpenEntry cm handleID = openFiles cm handleID"

definition markDirty :: "i64 \<Rightarrow> cacheManager \<Rightarrow> cacheManager" where
  "markDirty handleID cm =
     (case openFiles cm handleID of
        None \<Rightarrow> cm
      | Some entry \<Rightarrow> cm\<lparr>openFiles := (openFiles cm)(handleID \<mapsto> entry\<lparr>dirty := True\<rparr>)\<rparr>)"

definition cm_closeFile :: "i64 \<Rightarrow> cacheManager \<Rightarrow> openEntry option \<times> cacheManager" where
  "cm_closeFile handleID cm =
     (openFiles cm handleID, cm\<lparr>openFiles := (openFiles cm)(handleID := None)\<rparr>)"

definition setFd :: "i64 \<Rightarrow> fdesc \<Rightarrow> cacheManager \<Rightarrow> cacheManager" where
  "setFd handleID fd cm =
     (case openFiles cm handleID of
        None \<Rightarrow> cm
      | Some entry \<Rightarrow> cm\<lparr>openFiles := (openFiles cm)(handleID \<mapsto> entry\<lparr>localFd := fd\<rparr>)\<rparr>)"

section \<open>Lemmas\<close>

lemma write_at_end: "write_at d (length d) b = d @ b"
  by (simp add: write_at_def)

lemma write_at_read: "read_at (write_at d off b) off (length b) = b"
  by (simp add: write_at_def read_at_def)

lemma write_at_length: "length (write_at d off b) = max (length d) (off + length b)"
  by (simp add: write_at_def)

section \<open>Handles\<close>

text \<open>
  The contract of a table of open handles, as the client library relies on it: while there
  is room for more identifiers, a new handle is one that is not in use, it is bound to its
  entry, and neither opening nor closing touches another handle.
\<close>

locale handle_table =
  fixes opn :: "'e \<Rightarrow> 's \<Rightarrow> i64 \<times> 's" and get :: "'s \<Rightarrow> i64 \<Rightarrow> 'e option"
    and cls :: "i64 \<Rightarrow> 's \<Rightarrow> 's" and inv :: "'s \<Rightarrow> bool" and room :: "'s \<Rightarrow> nat"
  assumes opn: "inv s \<Longrightarrow> 0 < room s \<Longrightarrow> opn e s = (i, s') \<Longrightarrow>
      inv s' \<and> Suc (room s') = room s \<and> get s i = None \<and> get s' = (get s)(i \<mapsto> e)"
    and cls: "inv s \<Longrightarrow> inv (cls i s) \<and> room (cls i s) = room s \<and> get (cls i s) = (get s)(i := None)"
begin

fun opn_all :: "'e list \<Rightarrow> 's \<Rightarrow> i64 list \<times> 's" where
  "opn_all [] s = ([], s)"
| "opn_all (e # es) s =
     (case opn e s of (i, s1) \<Rightarrow> (case opn_all es s1 of (ids, s2) \<Rightarrow> (i # ids, s2)))"

lemma opn_all:
  "inv s \<Longrightarrow> length es \<le> room s \<Longrightarrow> opn_all es s = (ids, s') \<Longrightarrow>
   inv s' \<and> length ids = length es \<and> distinct ids \<and> (\<forall>i \<in> set ids. get s i = None) \<and>
   get s' = (get s)(ids [\<mapsto>] es)"
proof (induction es arbitrary: s ids)
  case (Cons e es)
  obtain i s1 where o: "opn e s = (i, s1)" by (metis surj_pair)
  obtain js where r: "opn_all es s1 = (js, s')" and ids: "ids = i # js"
    using Cons.prems(3) by (auto simp: o split: prod.splits)
  have l: "inv s1" "Suc (room s1) = room s" "get s i = None" "get s1 = (get s)(i \<mapsto> e)"
    using opn [OF Cons.prems(1) _ o] Cons.prems(2) by auto
  have "length es \<le> room s1" using Cons.prems(2) l(2) by simp
  note IH = Cons.IH [OF l(1) this r]
  have "i \<notin> set js" using IH l(4) by (metis fun_upd_same option.distinct(1))
  moreover have "\<forall>j \<in> set js. get s j = None" using IH l(4) by (metis fun_upd_other option.distinct(1) fun_upd_same)
  moreover have "get s' = (get s)(ids [\<mapsto>] e # es)" using IH l(4) by (simp only: ids map_upds_Cons)
  ultimately show ?case using IH l(3) ids by simp
qed auto

end

definition cm_ok :: "cacheManager \<Rightarrow> bool" where
  "cm_ok cm \<longleftrightarrow> 0 \<le> cm_nextHandle cm \<and> cm_nextHandle cm < 2 ^ 63 \<and>
     (\<forall>i. openFiles cm i \<noteq> None \<longrightarrow> 1 \<le> i \<and> i \<le> cm_nextHandle cm)"

lemma i64_add_1: "0 \<le> n \<Longrightarrow> n < 2 ^ 63 - 1 \<Longrightarrow> i64_add n 1 = n + 1"
  by (simp add: i64_add_exact i64_ok_def)

interpretation cm_handles: handle_table
  "\<lambda>(p, fd, sh) cm. openFile p fd sh cm"
  "\<lambda>cm i. map_option (\<lambda>e. (oe_path e, localFd e, serverHandleID e)) (getOpenEntry cm i)"
  "\<lambda>i cm. snd (cm_closeFile i cm)" cm_ok "\<lambda>cm. nat (2 ^ 63 - 1 - cm_nextHandle cm)"
proof unfold_locales
  fix s i s' and e :: "string \<times> fdesc \<times> i64"
  assume s: "cm_ok s" "0 < nat (2 ^ 63 - 1 - cm_nextHandle s)" "(\<lambda>(p, fd, sh) cm. openFile p fd sh cm) e s = (i, s')"
  obtain p fd sh where e: "e = (p, fd, sh)" by (metis prod_cases3)
  have n: "i64_add (cm_nextHandle s) 1 = cm_nextHandle s + 1"
    by (rule i64_add_1) (use s in \<open>auto simp: cm_ok_def\<close>)
  have free: "openFiles s (cm_nextHandle s + 1) = None" using s(1) by (force simp: cm_ok_def)
  have r: "i = cm_nextHandle s + 1" "s' = s\<lparr>cm_nextHandle := i, openFiles := (openFiles s)(i \<mapsto>
      \<lparr>localFd = fd, dirty = False, serverHandleID = sh, oe_path = p\<rparr>)\<rparr>"
    using s(3) by (auto simp: e openFile_def n Let_def)
  have "cm_ok s'" using s(1,2) by (auto simp: r cm_ok_def)
  then show "cm_ok s' \<and> Suc (nat (2 ^ 63 - 1 - cm_nextHandle s')) = nat (2 ^ 63 - 1 - cm_nextHandle s) \<and>
      map_option (\<lambda>e. (oe_path e, localFd e, serverHandleID e)) (getOpenEntry s i) = None \<and>
      (\<lambda>i. map_option (\<lambda>e. (oe_path e, localFd e, serverHandleID e)) (getOpenEntry s' i)) =
      (\<lambda>i. map_option (\<lambda>e. (oe_path e, localFd e, serverHandleID e)) (getOpenEntry s i))(i \<mapsto> e)"
    using s(2) free by (auto simp: r e getOpenEntry_def fun_eq_iff)
qed (auto simp: cm_closeFile_def cm_ok_def getOpenEntry_def fun_eq_iff)

end
