(* ===== verification/Afs_Client.thy ===== *)
theory Afs_Client
  imports Afs_Cache Afs_Election
begin

text \<open>
  \<open>afsfs/pkg/afs/client.go\<close>: the client library with whole-file caching, retries and
  fail-over. A session holds the client with its local files, the cluster, the number of
  calls made so far and the clock. What the outside world does is a script: for each call,
  how the servers' systems and the links between them behave (\<open>cv_env\<close>, \<open>cv_up\<close>, \<open>cv_depth\<close>),
  how the link from the client behaves (\<open>cv_link\<close>), and what else has happened to the cluster
  since the call before (\<open>cv_before\<close>: elections, crashes, other clients).
\<close>

section \<open>State\<close>

record callenv =
  cv_env :: env
  cv_link :: link
  cv_before :: "cluster \<Rightarrow> cluster"
  cv_up :: "string \<Rightarrow> bool"
  cv_depth :: nat

text \<open>The surroundings of a client: the script, the targets \<open>grpc.NewClient\<close> accepts, its own system.\<close>

record machine =
  m_script :: "nat \<Rightarrow> callenv"
  m_dial :: "string \<Rightarrow> bool"
  m_flt :: faults

record Client =
  connOpen :: bool
  stub :: string
  cache :: cacheManager
  clientId :: string
  reqSeq :: i64
  serverAddrs :: "string list"
  c_primaryAddr :: string
  files :: localfs

record session =
  s_client :: Client
  s_cl :: cluster
  s_calls :: nat
  s_now :: nat

definition on_client :: "(Client \<Rightarrow> Client) \<Rightarrow> session \<Rightarrow> session" where
  "on_client f s = s\<lparr>s_client := f (s_client s)\<rparr>"

definition on_files :: "(localfs \<Rightarrow> localfs) \<Rightarrow> session \<Rightarrow> session" where
  "on_files f = on_client (\<lambda>c. c\<lparr>files := f (files c)\<rparr>)"

definition on_cache :: "(cacheManager \<Rightarrow> cacheManager) \<Rightarrow> session \<Rightarrow> session" where
  "on_cache f = on_client (\<lambda>c. c\<lparr>cache := f (cache c)\<rparr>)"

definition sleep :: "nat \<Rightarrow> session \<Rightarrow> session" where
  "sleep ms s = s\<lparr>s_now := s_now s + ms\<rparr>"

definition nextSeq :: "session \<Rightarrow> i64 \<times> session" where
  "nextSeq s = (let q = i64_add (reqSeq (s_client s)) 1 in (q, on_client (\<lambda>c. c\<lparr>reqSeq := q\<rparr>) s))"

section \<open>Calls\<close>

text \<open>The next entry of the script, and the session in which the call is made.\<close>

definition begin_call :: "machine \<Rightarrow> session \<Rightarrow> callenv \<times> session" where
  "begin_call m s =
     (let e = m_script m (s_calls s)
      in (e, s\<lparr>s_calls := Suc (s_calls s), s_cl := cv_before e (s_cl s)\<rparr>))"

definition on_server ::
  "(faults \<Rightarrow> server \<Rightarrow> 'r outcome \<times> server) \<Rightarrow> callenv \<Rightarrow> string \<Rightarrow> cluster \<Rightarrow> 'r outcome \<times> cluster" where
  "on_server f e a cl =
     (case cl a of
        None \<Rightarrow> (RpcError ''connection refused'', cl)
      | Some h \<Rightarrow> (case f (os_faults (cv_env e) a) h of (r, h') \<Rightarrow> (r, cl(a \<mapsto> h'))))"

text \<open>A handler that panics takes its process down.\<close>

definition serve :: "string \<Rightarrow> 'r outcome \<times> cluster \<Rightarrow> 'r res \<times> cluster" where
  "serve a rc =
     (case rc of
        (Reply r, cl) \<Rightarrow> (Inr r, cl)
      | (RpcError x, cl) \<Rightarrow> (Inl x, cl)
      | (Panic, cl) \<Rightarrow> (Inl ''transport is closing'', cl(a := None)))"

definition call ::
  "machine \<Rightarrow> (callenv \<Rightarrow> string \<Rightarrow> cluster \<Rightarrow> 'r outcome \<times> cluster) \<Rightarrow> string \<Rightarrow> session \<Rightarrow>
   'r res \<times> session" where
  "call m f a s =
     (case begin_call m s of (e, s1) \<Rightarrow>
        (case s_cl s1 a of
           None \<Rightarrow> (Inl ''connection refused'', s1)
         | Some h \<Rightarrow>
             (case cv_link e of
                LinkDown \<Rightarrow> (Inl ''unavailable'', s1)
              | LinkUp \<Rightarrow> (case serve a (f e a (s_cl s1)) of (r, cl) \<Rightarrow> (r, s1\<lparr>s_cl := cl\<rparr>))
              | _ \<Rightarrow> (Inl ''transport is closing'', s1\<lparr>s_cl := snd (serve a (f e a (s_cl s1)))\<rparr>))))"

definition stub_call ::
  "machine \<Rightarrow> (callenv \<Rightarrow> string \<Rightarrow> cluster \<Rightarrow> 'r outcome \<times> cluster) \<Rightarrow> session \<Rightarrow> 'r res \<times> session" where
  "stub_call m f s =
     (if connOpen (s_client s) then call m f (stub (s_client s)) s
      else (Inl ''the client connection is closing'', s))"

definition call_GetPrimary :: "machine \<Rightarrow> string \<Rightarrow> session \<Rightarrow> string option \<times> session" where
  "call_GetPrimary m a s =
     (case begin_call m s of (e, s1) \<Rightarrow>
        (case cv_link e of
           LinkDown \<Rightarrow> (None, s1)
         | lnk \<Rightarrow>
             (case GetPrimary (cv_depth e) (cv_up e) 2000 a (s_cl s1, s_now s1) of
                (r, cl, t) \<Rightarrow> (if lnk = LinkUp then r else None, s1\<lparr>s_cl := cl, s_now := t\<rparr>))))"

definition call_Heartbeat :: "machine \<Rightarrow> string \<Rightarrow> session \<Rightarrow> bool res \<times> session" where
  "call_Heartbeat m a s =
     call m (on_server (\<lambda>flt h. apfst Reply (rpc_Heartbeat (s_now s) ''client'' h))) a s"

section \<open>Connecting\<close>

fun connect_loop :: "machine \<Rightarrow> string list \<Rightarrow> session \<Rightarrow> bool \<times> session" where
  "connect_loop m [] s = (False, s)"
| "connect_loop m (addr # addrs) s =
     (if \<not> m_dial m addr then connect_loop m addrs s
      else
        (case call_GetPrimary m addr s of
           (None, s1) \<Rightarrow> connect_loop m addrs s1
         | (Some p, s1) \<Rightarrow>
             if p = [] \<or> \<not> m_dial m p then connect_loop m addrs s1
             else
               (case call_Heartbeat m p s1 of
                  (Inl x, s2) \<Rightarrow> connect_loop m addrs s2
                | (Inr b, s2) \<Rightarrow>
                    (True, on_client (\<lambda>c. c\<lparr>connOpen := True, stub := p, c_primaryAddr := p\<rparr>) s2))))"

definition connectToPrimary :: "machine \<Rightarrow> session \<Rightarrow> bool \<times> session" where
  "connectToPrimary m s = connect_loop m (serverAddrs (s_client s)) s"

fun reconnect_loop :: "nat \<Rightarrow> nat \<Rightarrow> machine \<Rightarrow> session \<Rightarrow> bool \<times> session" where
  "reconnect_loop 0 attempt m s = (False, s)"
| "reconnect_loop (Suc n) attempt m s =
     (let s0 = (if 0 < attempt then sleep (500 + attempt * 500) s else s)
      in (case connectToPrimary m s0 of
            (True, s1) \<Rightarrow> (True, s1)
          | (False, s1) \<Rightarrow> reconnect_loop n (Suc attempt) m s1))"

definition reconnectToPrimary :: "machine \<Rightarrow> session \<Rightarrow> bool \<times> session" where
  "reconnectToPrimary m s = reconnect_loop 10 0 m (on_client (\<lambda>c. c\<lparr>connOpen := False\<rparr>) s)"

definition CloseConn :: "session \<Rightarrow> session" where
  "CloseConn = on_client (\<lambda>c. c\<lparr>connOpen := False\<rparr>)"

text \<open>A client that cannot be made leaves the cluster and the clock as they are then.\<close>

definition NewClient ::
  "machine \<Rightarrow> nat \<Rightarrow> nat \<Rightarrow> string list \<Rightarrow> string \<Rightarrow> localfs \<Rightarrow> cluster \<Rightarrow> nat \<Rightarrow>
   (string \<times> cluster \<times> nat) + session" where
  "NewClient m pid nanos addrs dir fs cl now =
     (if addrs = [] then Inl (''need at least one server address'', cl, now)
      else
        (case newCacheManager (m_flt m) dir of
           Inl e \<Rightarrow> Inl (''creating cache manager: '' @ e, cl, now)
         | Inr cm \<Rightarrow>
             let c = \<lparr>connOpen = False, stub = [], cache = cm,
                      clientId = ''client-'' @ show_nat pid @ ''-'' @ show_nat nanos, reqSeq = 0,
                      serverAddrs = addrs, c_primaryAddr = [], files = fs\<rparr>
             in (case connectToPrimary m \<lparr>s_client = c, s_cl = cl, s_calls = 0, s_now = now\<rparr> of
                   (True, s) \<Rightarrow> Inr s
                 | (False, s) \<Rightarrow> Inl (''finding primary: could not find primary'', s_cl s, s_now s))))"

section \<open>Retries\<close>

fun failover_loop ::
  "nat \<Rightarrow> nat \<Rightarrow> machine \<Rightarrow> (session \<Rightarrow> 'r res \<times> session) \<Rightarrow> ('r \<Rightarrow> string) \<Rightarrow> string \<Rightarrow> session \<Rightarrow>
   'r res \<times> session" where
  "failover_loop 0 attempt m fn getAppError lastErr s = (Inl (''after 8 retries: '' @ lastErr), s)"
| "failover_loop (Suc n) attempt m fn getAppError lastErr s =
     (let s0 = (if 0 < attempt then sleep (500 * attempt) s else s)
      in (case fn s0 of
            (Inl err, s1) \<Rightarrow>
              failover_loop n (Suc attempt) m fn getAppError err (snd (reconnectToPrimary m s1))
          | (Inr r, s1) \<Rightarrow>
              if str_contains (getAppError r) ''not primary''
              then failover_loop n (Suc attempt) m fn getAppError (''not primary: '' @ getAppError r)
                     (snd (reconnectToPrimary m s1))
              else (Inr r, s1)))"

definition retryWithFailover ::
  "machine \<Rightarrow> (session \<Rightarrow> 'r res \<times> session) \<Rightarrow> ('r \<Rightarrow> string) \<Rightarrow> session \<Rightarrow> 'r res \<times> session" where
  "retryWithFailover m fn getAppError s = failover_loop 8 0 m fn getAppError [] s"

fun retry_loop :: "nat \<Rightarrow> nat \<Rightarrow> (session \<Rightarrow> 'r res \<times> session) \<Rightarrow> string \<Rightarrow> session \<Rightarrow> 'r res \<times> session" where
  "retry_loop 0 attempt fn lastErr s = (Inl (''after 3 retries: '' @ lastErr), s)"
| "retry_loop (Suc n) attempt fn lastErr s =
     (let s0 = (if 0 < attempt then sleep (100 * 2 ^ (attempt - 1)) s else s)
      in (case fn s0 of
            (Inr r, s1) \<Rightarrow> (Inr r, s1)
          | (Inl err, s1) \<Rightarrow> retry_loop n (Suc attempt) fn err s1))"

definition retryRPC :: "(session \<Rightarrow> 'r res \<times> session) \<Rightarrow> session \<Rightarrow> 'r res \<times> session" where
  "retryRPC fn s = retry_loop 3 0 fn [] s"

text \<open>
  The streaming calls: \<open>x\<close> is the variable the closure assigns (the version), which keeps its
  value from one attempt to the next.
\<close>

fun raw_loop ::
  "nat \<Rightarrow> nat \<Rightarrow> machine \<Rightarrow> ('x \<Rightarrow> session \<Rightarrow> string option \<times> 'x \<times> session) \<Rightarrow> string \<Rightarrow> 'x \<Rightarrow> session \<Rightarrow>
   string option \<times> 'x \<times> session" where
  "raw_loop 0 attempt m fn lastErr x s = (Some (''after 8 retries: '' @ lastErr), x, s)"
| "raw_loop (Suc n) attempt m fn lastErr x s =
     (let s0 = (if 0 < attempt then snd (reconnectToPrimary m (sleep (500 * attempt) s)) else s)
      in (case fn x s0 of
            (Some err, x1, s1) \<Rightarrow> raw_loop n (Suc attempt) m fn err x1 s1
          | (None, x1, s1) \<Rightarrow> (None, x1, s1)))"

definition retryWithFailoverRaw ::
  "machine \<Rightarrow> ('x \<Rightarrow> session \<Rightarrow> string option \<times> 'x \<times> session) \<Rightarrow> 'x \<Rightarrow> session \<Rightarrow>
   string option \<times> 'x \<times> session" where
  "retryWithFailoverRaw m fn x s = raw_loop 8 0 m fn [] x s"

section \<open>Operations\<close>

text \<open>The stream of \<open>FetchFile\<close> as the client receives it.\<close>

definition call_FetchFile :: "machine \<Rightarrow> string \<Rightarrow> session \<Rightarrow> FetchChunk recv res \<times> session" where
  "call_FetchFile m path s =
     (if \<not> connOpen (s_client s) then (Inl ''the client connection is closing'', s)
      else
        (case begin_call m s of (e, s1) \<Rightarrow>
           (case s_cl s1 (stub (s_client s)) of
              None \<Rightarrow> (Inl ''connection refused'', s1)
            | Some h \<Rightarrow>
                let strm = rpc_FetchFile (os_faults (cv_env e) (stub (s_client s))) path h
                in (case cv_link e of
                      LinkDown \<Rightarrow> (Inl ''unavailable'', s1)
                    | LinkUp \<Rightarrow> (Inr strm, s1)
                    | LinkCut k \<Rightarrow> (Inr (take k (fst strm), Some ''transport is closing''), s1)
                    | LinkNoReply \<Rightarrow> (Inr (fst strm, Some ''transport is closing''), s1)))))"

fun fetch_recv ::
  "faults \<Rightarrow> nat \<Rightarrow> string \<Rightarrow> nat \<Rightarrow> FetchChunk list \<Rightarrow> string option \<Rightarrow> i64 \<Rightarrow> localfs \<Rightarrow>
   string option \<times> i64 \<times> localfs" where
  "fetch_recv flt k tmp i [] None ver fs = (None, ver, fs)"
| "fetch_recv flt k tmp i [] (Some e) ver fs = (Some (''recv chunk: '' @ e), ver, lf_Remove flt tmp fs)"
| "fetch_recv flt k tmp i (c # cs) st ver fs =
     (if fch_error c \<noteq> [] then (Some (''server error: '' @ fch_error c), ver, lf_Remove flt tmp fs)
      else
        (case (if fch_data c \<noteq> [] then lf_append flt k tmp i (fch_data c) fs else Inr fs) of
           Inl e \<Rightarrow> (Some (''write chunk: '' @ e), ver, lf_Remove flt tmp fs)
         | Inr fs1 \<Rightarrow>
             fetch_recv flt (Suc k) tmp i cs st (if 0 < fch_version c then fch_version c else ver) fs1))"

definition fetch_attempt :: "machine \<Rightarrow> string \<Rightarrow> i64 \<Rightarrow> session \<Rightarrow> string option \<times> i64 \<times> session" where
  "fetch_attempt m path ver s =
     (case call_FetchFile m path s of
        (Inl e, s1) \<Rightarrow> (Some (''FetchFile stream: '' @ e), ver, s1)
      | (Inr (chunks, st), s1) \<Rightarrow>
          let lp = localPath (cache (s_client s1)) path; tmp = lp @ ''.tmp''
          in (case lf_Create (m_flt m) tmp (files (s_client s1)) of
                Inl e \<Rightarrow> (Some (''create tmp: '' @ e), ver, s1)
              | Inr (i, fs) \<Rightarrow>
                  (case fetch_recv (m_flt m) 0 tmp i chunks st ver fs of
                     (Some e, ver1, fs1) \<Rightarrow> (Some e, ver1, on_files (\<lambda>_. fs1) s1)
                   | (None, ver1, fs1) \<Rightarrow>
                       (case lf_Rename (m_flt m) tmp lp fs1 of
                          Inl e \<Rightarrow> (Some e, ver1, on_files (\<lambda>_. fs1) s1)
                        | Inr fs2 \<Rightarrow> (None, ver1, on_files (\<lambda>_. fs2) s1)))))"

text \<open>The end of \<open>Open\<close> and \<open>CreateFile\<close>: a descriptor on the local copy, and a handle for it.\<close>

definition open_local :: "machine \<Rightarrow> string \<Rightarrow> string \<Rightarrow> bool \<Rightarrow> i64 \<Rightarrow> session \<Rightarrow> i64 res \<times> session" where
  "open_local m msg path wr serverHandle s =
     (case openLocalFile (m_flt m) (localPath (cache (s_client s)) path) wr (files (s_client s)) of
        Inl e \<Rightarrow> (Inl (msg @ e), s)
      | Inr (fd, fs) \<Rightarrow>
          (case openFile path fd serverHandle (cache (s_client s)) of
             (i, cm) \<Rightarrow> (Inr i, on_client (\<lambda>c. c\<lparr>cache := cm, files := fs\<rparr>) s)))"

definition fetch_and_open :: "machine \<Rightarrow> string \<Rightarrow> bool \<Rightarrow> i64 \<Rightarrow> session \<Rightarrow> i64 res \<times> session" where
  "fetch_and_open m path wr serverHandle s =
     (case retryWithFailoverRaw m (fetch_attempt m path) 0 s of
        (Some e, ver, s1) \<Rightarrow> (Inl (''FetchFile RPC failed: '' @ e), s1)
      | (None, ver, s1) \<Rightarrow>
          open_local m ''opening local cache file: '' path wr serverHandle
            (on_cache (storeCacheEntry path ver) s1))"

definition call_Open :: "machine \<Rightarrow> string \<Rightarrow> bool \<Rightarrow> i64 \<Rightarrow> session \<Rightarrow> OpenResponse res \<times> session" where
  "call_Open m path wr q s =
     stub_call m (on_server (\<lambda>flt. rpc_Open flt
       \<lparr>orq_path = path, orq_write = wr, orq_client = clientId (s_client s), orq_seq = q\<rparr>)) s"

definition call_TestAuth :: "machine \<Rightarrow> string \<Rightarrow> i64 \<Rightarrow> session \<Rightarrow> TestAuthResponse res \<times> session" where
  "call_TestAuth m path ver s =
     stub_call m (on_server (\<lambda>flt h. (Reply (rpc_TestAuth flt path ver h), h))) s"

definition Open :: "machine \<Rightarrow> string \<Rightarrow> bool \<Rightarrow> session \<Rightarrow> i64 res \<times> session" where
  "Open m path wr s0 =
     (case nextSeq s0 of (q, s) \<Rightarrow>
        (case retryWithFailover m (call_Open m path wr q) ors_error s of
           (Inl e, s1) \<Rightarrow> (Inl (''Open RPC failed: '' @ e), s1)
         | (Inr r, s1) \<Rightarrow>
             if ors_error r \<noteq> [] then (Inl (''Open RPC error: '' @ ors_error r), s1)
             else
               (case isCached (cache (s_client s1)) path of
                  (ver, False) \<Rightarrow> fetch_and_open m path wr (ors_handle r) s1
                | (ver, True) \<Rightarrow>
                    (case retryRPC (call_TestAuth m path ver) s1 of
                       (Inl e, s2) \<Rightarrow> fetch_and_open m path wr (ors_handle r) s2
                     | (Inr t, s2) \<Rightarrow>
                         if tar_valid t
                         then open_local m ''opening local cache: '' path wr (ors_handle r) s2
                         else fetch_and_open m path wr (ors_handle r) s2))))"

text \<open>
  \<open>Read\<close> into a buffer of \<open>n\<close> bytes: the bytes read, and whether the error is \<open>io.EOF\<close>. Whether the
  system fails a read or a write may depend on the offset.
\<close>

definition Read :: "machine \<Rightarrow> i64 \<Rightarrow> nat \<Rightarrow> session \<Rightarrow> (bytes \<times> bool) res \<times> session" where
  "Read m hid n s =
     (case getOpenEntry (cache (s_client s)) hid of
        None \<Rightarrow> (Inl (''unknown handle: '' @ show_int hid), s)
      | Some entry \<Rightarrow>
          (case m_flt m (OsRead (fd_off (localFd entry))) (localPath (cache (s_client s)) (oe_path entry)) of
             Some e \<Rightarrow> (Inl (''reading local file: '' @ e), s)
           | None \<Rightarrow>
               let fd = localFd entry;
                   b = read_at (inodes (files (s_client s)) (fd_inode fd)) (fd_off fd) n
               in (Inr (b, b = [] \<and> 0 < n),
                   on_cache (setFd hid (fd\<lparr>fd_off := fd_off fd + length b\<rparr>)) s)))"

definition Write :: "machine \<Rightarrow> i64 \<Rightarrow> bytes \<Rightarrow> session \<Rightarrow> nat res \<times> session" where
  "Write m hid b s =
     (case getOpenEntry (cache (s_client s)) hid of
        None \<Rightarrow> (Inl (''unknown handle: '' @ show_int hid), s)
      | Some entry \<Rightarrow>
          let fd = localFd entry; lp = localPath (cache (s_client s)) (oe_path entry)
          in if \<not> fd_write fd then
               (Inl (''writing local file: '' @ os_error ''write'' lp ''bad file descriptor''), s)
             else
               (case m_flt m (OsWrite (fd_off fd)) lp of
                  Some e \<Rightarrow> (Inl (''writing local file: '' @ e), s)
                | None \<Rightarrow>
                    (Inr (length b),
                     on_cache (\<lambda>cm. markDirty hid (setFd hid (fd\<lparr>fd_off := fd_off fd + length b\<rparr>) cm))
                       (on_files (\<lambda>fs. fs\<lparr>inodes := (inodes fs)(fd_inode fd :=
                          write_at (inodes fs (fd_inode fd)) (fd_off fd) b)\<rparr>) s))))"

definition store_stream :: "string \<Rightarrow> string \<Rightarrow> i64 \<Rightarrow> bytes list \<Rightarrow> StoreChunk list" where
  "store_stream path cid q bufs =
     (case bufs of
        [] \<Rightarrow> []
      | b # bs \<Rightarrow>
          \<lparr>sch_path = path, sch_data = b, sch_client = cid, sch_seq = q\<rparr> #
          map (\<lambda>b. \<lparr>sch_path = [], sch_data = b, sch_client = [], sch_seq = 0\<rparr>) bs)"

definition call_StoreFile :: "machine \<Rightarrow> StoreChunk recv \<Rightarrow> session \<Rightarrow> StoreResponse res \<times> session" where
  "call_StoreFile m strm s =
     stub_call m (\<lambda>e a cl. rpc_StoreFile (cv_env e) a
       (case cv_link e of
          LinkCut k \<Rightarrow> (take k (fst strm), Some ''transport is closing'')
        | _ \<Rightarrow> strm) cl) s"

text \<open>One attempt to store the local copy; a failed read of it cancels the stream.\<close>

definition store_attempt :: "machine \<Rightarrow> string \<Rightarrow> i64 \<Rightarrow> i64 \<Rightarrow> session \<Rightarrow> string option \<times> i64 \<times> session" where
  "store_attempt m path q ver s =
     (let lp = localPath (cache (s_client s)) path
      in if \<not> connOpen (s_client s) then (Some ''StoreFile stream: the client connection is closing'', ver, s)
         else
           (case (if m_flt m OsOpen lp = None then lf_content (files (s_client s)) lp else None) of
              None \<Rightarrow> (Some (''open local cache: '' @ lp), ver, s)
            | Some content \<Rightarrow>
                (case read_upto (m_flt m) lp 0 (chunks_of chunkSize content) of
                   (bufs, Some readErr) \<Rightarrow>
                     (Some readErr, ver,
                      snd (call_StoreFile m
                        (store_stream path (clientId (s_client s)) q bufs, Some ''context canceled'') s))
                 | (bufs, None) \<Rightarrow>
                     (case call_StoreFile m (store_stream path (clientId (s_client s)) q bufs, None) s of
                        (Inl e, s1) \<Rightarrow> (Some (''CloseAndRecv: '' @ e), ver, s1)
                      | (Inr r, s1) \<Rightarrow>
                          if str_contains (srs_error r) ''not primary''
                          then (Some (''not primary: '' @ srs_error r), ver, s1)
                          else if srs_error r \<noteq> [] then (Some (''StoreFile error: '' @ srs_error r), ver, s1)
                          else (None, srs_version r, s1)))))"

text \<open>The result of an operation without a value is its error, if any.\<close>

definition Close :: "machine \<Rightarrow> i64 \<Rightarrow> session \<Rightarrow> string option \<times> session" where
  "Close m hid s0 =
     (case cm_closeFile hid (cache (s_client s0)) of
        (None, cm) \<Rightarrow> (Some (''unknown handle: '' @ show_int hid), s0)
      | (Some entry, cm) \<Rightarrow>
          let s = on_cache (\<lambda>_. cm) s0;
              close_rpc = (\<lambda>s. (None, snd (stub_call m
                (on_server (\<lambda>flt h. apfst Reply (rpc_CloseFile (serverHandleID entry) h))) s)))
          in if dirty entry then
               (case nextSeq s of (q, s1) \<Rightarrow>
                  (case retryWithFailoverRaw m (store_attempt m (oe_path entry) q) 0 s1 of
                     (Some e, ver, s2) \<Rightarrow> (Some (''StoreFile RPC failed: '' @ e), s2)
                   | (None, ver, s2) \<Rightarrow> close_rpc (on_cache (updateVersion (oe_path entry) ver) s2)))
             else close_rpc s)"

definition CreateFile :: "machine \<Rightarrow> string \<Rightarrow> session \<Rightarrow> i64 res \<times> session" where
  "CreateFile m path s0 =
     (case nextSeq s0 of (q, s) \<Rightarrow>
        (case retryWithFailover m (\<lambda>s. stub_call m (\<lambda>e a cl. rpc_CreateFile (cv_env e) a
              \<lparr>frq_path = path, frq_client = clientId (s_client s), frq_seq = q\<rparr> cl) s) crs_error s of
           (Inl e, s1) \<Rightarrow> (Inl (''CreateFile RPC failed: '' @ e), s1)
         | (Inr r, s1) \<Rightarrow>
             if crs_error r \<noteq> [] then (Inl (''CreateFile RPC error: '' @ crs_error r), s1)
             else
               (case lf_WriteFile (m_flt m) (localPath (cache (s_client s1)) path) [] (files (s_client s1)) of
                  Inl e \<Rightarrow> (Inl (''creating local cache file: '' @ e), s1)
                | Inr fs \<Rightarrow>
                    open_local m ''opening local cache file: '' path True (crs_handle r)
                      (on_cache (storeCacheEntry path 1) (on_files (\<lambda>_. fs) s1)))))"

definition DeleteFile :: "machine \<Rightarrow> string \<Rightarrow> session \<Rightarrow> string option \<times> session" where
  "DeleteFile m path s0 =
     (case nextSeq s0 of (q, s) \<Rightarrow>
        (case retryWithFailover m (\<lambda>s. stub_call m (\<lambda>e a cl. rpc_DeleteFile (cv_env e) a
              \<lparr>frq_path = path, frq_client = clientId (s_client s), frq_seq = q\<rparr> cl) s) id s of
           (Inl e, s1) \<Rightarrow> (Some (''DeleteFile RPC failed: '' @ e), s1)
         | (Inr r, s1) \<Rightarrow>
             if r \<noteq> [] then (Some (''DeleteFile RPC error: '' @ r), s1)
             else (None, on_cache (dropCacheEntry path)
                    (on_files (lf_Remove (m_flt m) (localPath (cache (s_client s1)) path)) s1))))"

section \<open>A calm environment\<close>

text \<open>
  Nothing fails and nothing else happens. The theorems on single operations are stated for
  such an environment; the ones on retries for links that lose replies.
\<close>

definition calm :: "machine \<Rightarrow> bool" where
  "calm m \<longleftrightarrow> m_flt m = no_faults \<and>
     (\<forall>k. cv_env (m_script m k) = healthy \<and> cv_link (m_script m k) = LinkUp \<and> cv_before (m_script m k) = (\<lambda>cl. cl))"

text \<open>
  The client is connected to the primary \<open>a\<close> of a healthy cluster, no request number above
  the one it used last has been seen there, and it can make \<open>k\<close> more requests before its
  counters reach their bounds.
\<close>

definition linked :: "string \<Rightarrow> nat \<Rightarrow> session \<Rightarrow> bool" where
  "linked a k s \<longleftrightarrow> connOpen (s_client s) \<and> stub (s_client s) = a \<and> cluster_ok a (s_cl s) \<and>
     0 \<le> reqSeq (s_client s) \<and> reqSeq (s_client s) + int k < 2 ^ 63 \<and>
     (\<forall>q > reqSeq (s_client s). no_entry a (clientId (s_client s)) q (s_cl s)) \<and>
     cm_ok (cache (s_client s)) \<and> cm_nextHandle (cache (s_client s)) + int k < 2 ^ 63"

lemma calm_call:
  assumes "calm m" "s_cl s a = Some h"
  shows "call m f a s =
    (case serve a (f (m_script m (s_calls s)) a (s_cl s)) of
       (r, cl) \<Rightarrow> (r, s\<lparr>s_calls := Suc (s_calls s), s_cl := cl\<rparr>))"
  using assms by (simp add: call_def begin_call_def calm_def Let_def split: prod.splits)

lemma calm_stub_call:
  assumes "calm m" "connOpen (s_client s)" "stub (s_client s) = a" "s_cl s a = Some h"
  shows "stub_call m f s =
    (case serve a (f (m_script m (s_calls s)) a (s_cl s)) of
       (r, cl) \<Rightarrow> (r, s\<lparr>s_calls := Suc (s_calls s), s_cl := cl\<rparr>))"
  using calm_call [OF assms(1,4)] assms by (simp add: stub_call_def)

lemma failover_first:
  "fn s = (Inr r, s1) \<Longrightarrow> \<not> str_contains (getAppError r) ''not primary'' \<Longrightarrow>
   retryWithFailover m fn getAppError s = (Inr r, s1)"
  by (simp add: retryWithFailover_def eval_nat_numeral)

lemma raw_first: "fn x s = (None, x1, s1) \<Longrightarrow> retryWithFailoverRaw m fn x s = (None, x1, s1)"
  by (simp add: retryWithFailoverRaw_def eval_nat_numeral)

lemma retry_first: "fn s = (Inr r, s1) \<Longrightarrow> retryRPC fn s = (Inr r, s1)"
  by (simp add: retryRPC_def eval_nat_numeral)

lemma no_not_primary [simp]: "\<not> str_contains [] ''not primary''"
  by simp

lemma nextSeq_linked:
  assumes "linked a (Suc k) s" "nextSeq s = (q, s1)"
  shows "q = reqSeq (s_client s) + 1" "s1 = s\<lparr>s_client := (s_client s)\<lparr>reqSeq := q\<rparr>\<rparr>"
    "no_entry a (clientId (s_client s)) q (s_cl s)"
proof -
  have "i64_add (reqSeq (s_client s)) 1 = reqSeq (s_client s) + 1"
    using assms(1) by (intro i64_add_1) (auto simp: linked_def)
  then show "q = reqSeq (s_client s) + 1" "s1 = s\<lparr>s_client := (s_client s)\<lparr>reqSeq := q\<rparr>\<rparr>"
    using assms(2) by (auto simp: nextSeq_def on_client_def Let_def)
  then show "no_entry a (clientId (s_client s)) q (s_cl s)" using assms(1) by (simp add: linked_def)
qed

text \<open>The link after a request with the next number, given what the cluster became.\<close>

lemma linked_step:
  assumes "linked a (Suc k) s" "cluster_ok a (s_cl s')"
    and "\<And>q. table_at a (s_cl s') (dedupKey (clientId (s_client s)) q) \<noteq> None \<Longrightarrow>
      q = reqSeq (s_client s) + 1 \<or> table_at a (s_cl s) (dedupKey (clientId (s_client s)) q) \<noteq> None"
    and "connOpen (s_client s')" "stub (s_client s') = a" "clientId (s_client s') = clientId (s_client s)"
    and "reqSeq (s_client s') = reqSeq (s_client s) + 1"
    and "cm_ok (cache (s_client s'))" "cm_nextHandle (cache (s_client s')) \<le> cm_nextHandle (cache (s_client s)) + 1"
  shows "linked a k s'"
proof -
  have "no_entry a (clientId (s_client s')) q (s_cl s')" if "q > reqSeq (s_client s')" for q
    using assms(1) assms(3) [of q] that assms(6,7) no_entry_table [OF assms(2)] no_entry_table [of a "s_cl s"]
    by (force simp: linked_def)
  then show ?thesis using assms by (auto simp: linked_def)
qed

section \<open>Opening\<close>

text \<open>What the server at \<open>h\<close> serves under the name \<open>n\<close>.\<close>

definition served :: "server \<Rightarrow> string \<Rightarrow> bytes \<Rightarrow> i64 \<Rightarrow> bool" where
  "served h n b v \<longleftrightarrow>
     (\<exists>fp. resolvePath no_faults h n = Inr fp \<and> map_of (disk h) fp = Some (FFile b) \<and> get0 (versions h) fp = v)"

lemma FetchFile_served:
  assumes "served h n b v"
  shows "rpc_FetchFile no_faults n h =
    (map (\<lambda>x. \<lparr>fch_data = x, fch_version = v, fch_error = []\<rparr>) (chunks_of chunkSize b), None)"
proof -
  obtain fp where fp: "resolvePath no_faults h n = Inr fp" "map_of (disk h) fp = Some (FFile b)"
    "get0 (versions h) fp = v" using assms by (auto simp: served_def)
  have o: "os_Open no_faults fp (disk h) = Inr (FFile b)" by (simp add: os_Open_def fp)
  have r: "read_chunks no_faults chunkSize fp (FFile b) = (chunks_of chunkSize b, None)"
    by (simp add: read_chunks_def read_upto_ok del: no_faults)
  show ?thesis by (simp add: rpc_FetchFile_def fp o r Let_def del: no_faults)
qed

lemma fetch_recv_ok:
  "fetch_recv no_faults k tmp i (map (\<lambda>x. \<lparr>fch_data = x, fch_version = v, fch_error = []\<rparr>) bufs) None ver fs =
   (None, if bufs = [] \<or> v \<le> 0 then ver else v,
    fs\<lparr>inodes := (inodes fs)(i := inodes fs i @ concat bufs)\<rparr>)"
proof (induction bufs arbitrary: k ver fs)
  case (Cons x xs)
  then show ?case
    by (cases "x = []") (auto simp: lf_append_def cong: if_cong)
qed simp

lemma cl_table: "cl a = Some h \<Longrightarrow> table_at a cl k = dedupTable h k"
  by (simp add: table_at_def)

text \<open>What an open, a close or a ping leaves alone on the server it reaches.\<close>

definition same_files :: "server \<Rightarrow> server \<Rightarrow> bool" where
  "same_files h h' \<longleftrightarrow> disk h' = disk h \<and> versions h' = versions h \<and> same_role h h'"

lemma same_files_view: "same_files h h' \<Longrightarrow> view h' n = view h n" "same_files h h' \<Longrightarrow> outPath h' n = outPath h n"
  by (simp_all add: same_files_def view_def outPath_def same_role_def split: option.split fnode.split)

lemma same_files_ok:
  assumes "cluster_ok a cl" "cl a = Some h" "same_files h h'"
  shows "cluster_ok a (cl(a \<mapsto> h'))"
proof -
  have "replicas a (cl(a \<mapsto> h')) = replicas a cl"
    using assms by (simp add: replicas_def same_files_def same_role_def)
  moreover have "server_ok h \<Longrightarrow> server_ok h'"
    using assms(3) by (simp add: server_ok_def same_files_def same_role_def)
  ultimately show ?thesis
    using assms unfolding cluster_ok_def by (auto simp: same_files_def same_role_def)
qed

lemma call_Open_calm:
  assumes "calm m" "linked a (Suc k) s" "nextSeq s = (q, s1)" "s_cl s a = Some h" "served h n b v"
  shows "\<exists>r h' c. call_Open m n wr q s1 = (Inr r, s1\<lparr>s_calls := c, s_cl := (s_cl s)(a \<mapsto> h')\<rparr>) \<and>
    ors_error r = [] \<and> same_files h h' \<and>
    (\<forall>q'. q' \<noteq> q \<longrightarrow> dedupTable h' (dedupKey (clientId (s_client s)) q') =
       dedupTable h (dedupKey (clientId (s_client s)) q'))"
proof -
  note sq = nextSeq_linked [OF assms(2,3)]
  obtain fp where fp: "resolvePath no_faults h n = Inr fp" "map_of (disk h) fp = Some (FFile b)"
    using assms(5) by (auto simp: served_def)
  have key: "dedupTable h (dedupKey (clientId (s_client s)) q) = None"
    using sq(3) assms(4) by (simp add: no_entry_def)
  have st: "connOpen (s_client s1)" "stub (s_client s1) = a" "s_cl s1 a = Some h"
    "clientId (s_client s1) = clientId (s_client s)"
    using assms(2,4) sq(2) by (simp_all add: linked_def)
  have env: "os_faults (cv_env (m_script m j)) a = no_faults" for j using assms(1) by (simp add: calm_def)
  have stat: "os_Stat no_faults fp (disk h) \<noteq> StatNotExist" by (simp add: os_Stat_def fp)
  obtain r h' where o: "rpc_Open no_faults \<lparr>orq_path = n, orq_write = wr,
        orq_client = clientId (s_client s), orq_seq = q\<rparr> h = (Reply r, h')"
      "ors_error r = []" "same_files h h'"
      "\<forall>k'. k' \<noteq> dedupKey (clientId (s_client s)) q \<longrightarrow> dedupTable h' k' = dedupTable h k'"
    using key fp stat
    by (auto simp: rpc_Open_def Let_def same_files_def same_role_def simp del: no_faults)
  have "call_Open m n wr q s1 = (Inr r, s1\<lparr>s_calls := Suc (s_calls s1), s_cl := (s_cl s1)(a \<mapsto> h')\<rparr>)"
    unfolding call_Open_def using o(1)
    by (simp add: calm_stub_call [OF assms(1) st(1-3)] on_server_def st env serve_def del: no_faults)
  moreover have "s_cl s1 = s_cl s" by (simp add: sq(2))
  ultimately show ?thesis using o(2-4) by (metis dedupKey_eq_iff)
qed

lemma open_local_calm:
  assumes "calm m" "cm_ok (cache (s_client s))" "cm_nextHandle (cache (s_client s)) + 1 < 2 ^ 63"
    and "names (files (s_client s)) (localPath (cache (s_client s)) n) = Some i"
  shows "\<exists>hid cm. open_local m msg n wr sh s = (Inr hid, s\<lparr>s_client := (s_client s)\<lparr>cache := cm\<rparr>\<rparr>) \<and>
    cm_ok cm \<and> cm_nextHandle cm = cm_nextHandle (cache (s_client s)) + 1 \<and>
    openFiles (cache (s_client s)) hid = None \<and>
    openFiles cm = (openFiles (cache (s_client s)))(hid \<mapsto>
      \<lparr>localFd = \<lparr>fd_inode = i, fd_off = 0, fd_write = wr\<rparr>, dirty = False, serverHandleID = sh, oe_path = n\<rparr>) \<and>
    cached cm = cached (cache (s_client s)) \<and> cacheDir cm = cacheDir (cache (s_client s))"
proof -
  let ?cm = "cache (s_client s)" and ?fd = "\<lparr>fd_inode = i, fd_off = 0, fd_write = wr\<rparr>"
  have o: "openLocalFile (m_flt m) (localPath ?cm n) wr (files (s_client s)) = Inr (?fd, files (s_client s))"
    using assms(1,4) by (simp add: openLocalFile_def calm_def lf_ensure_def)
  obtain hid cm where f: "openFile n ?fd sh ?cm = (hid, cm)" by (metis surj_pair)
  have room: "0 < nat (2 ^ 63 - 1 - cm_nextHandle ?cm)" using assms(3) by simp
  have law: "cm_ok cm" "map_option (\<lambda>e. (oe_path e, localFd e, serverHandleID e)) (getOpenEntry ?cm hid) = None"
    using cm_handles.opn [OF assms(2) room, of "(n, ?fd, sh)" hid cm] f by auto
  have n: "i64_add (cm_nextHandle ?cm) 1 = cm_nextHandle ?cm + 1"
    using assms(2,3) by (intro i64_add_1) (auto simp: cm_ok_def)
  show ?thesis
    using o f law by (auto simp: open_local_def on_client_def openFile_def Let_def n getOpenEntry_def)
qed

lemma fetch_attempt_calm:
  assumes "calm m" "connOpen (s_client s)" "s_cl s (stub (s_client s)) = Some h" "served h n b v"
  shows "\<exists>fs c i. fetch_attempt m n ver s =
      (None, if b = [] \<or> v \<le> 0 then ver else v, (on_files (\<lambda>_. fs) s)\<lparr>s_calls := c\<rparr>) \<and>
    names fs (localPath (cache (s_client s)) n) = Some i \<and> inodes fs i = b"
proof -
  let ?lp = "localPath (cache (s_client s)) n"
  let ?tmp = "?lp @ ''.tmp''"
  have env: "cv_env (m_script m j) = healthy" "cv_link (m_script m j) = LinkUp"
    "cv_before (m_script m j) = (\<lambda>cl. cl)" "m_flt m = no_faults" for j
    using assms(1) by (simp_all add: calm_def)
  have chunks: "call_FetchFile m n s =
      (Inr (map (\<lambda>x. \<lparr>fch_data = x, fch_version = v, fch_error = []\<rparr>) (chunks_of chunkSize b), None),
       s\<lparr>s_calls := Suc (s_calls s)\<rparr>)"
    using assms FetchFile_served [OF assms(4)]
    by (simp add: call_FetchFile_def begin_call_def Let_def env del: no_faults)
  obtain i fs0 where e: "lf_ensure ?tmp (files (s_client s)) = (i, fs0)" by (metis surj_pair)
  then have nm: "names fs0 ?tmp = Some i" by (auto simp: lf_ensure_def split: option.splits)
  let ?fs = "fs0\<lparr>inodes := (inodes fs0)(i := b), names := (names fs0)(?tmp := None, ?lp \<mapsto> i)\<rparr>"
  have cs: "0 < chunkSize" by (simp add: chunkSize_def)
  have cr: "lf_Create no_faults ?tmp (files (s_client s)) = Inr (i, fs0\<lparr>inodes := (inodes fs0)(i := [])\<rparr>)"
    by (simp add: lf_Create_def e)
  have rn: "lf_Rename no_faults ?tmp ?lp (fs0\<lparr>inodes := (inodes fs0)(i := b)\<rparr>) = Inr ?fs"
    by (simp add: lf_Rename_def nm)
  have rv: "fetch_recv no_faults 0 ?tmp i (map (\<lambda>x. \<lparr>fch_data = x, fch_version = v, fch_error = []\<rparr>)
      (chunks_of chunkSize b)) None ver (fs0\<lparr>inodes := (inodes fs0)(i := [])\<rparr>) =
      (None, if b = [] \<or> v \<le> 0 then ver else v, fs0\<lparr>inodes := (inodes fs0)(i := b)\<rparr>)"
    unfolding fetch_recv_ok using cs by (simp add: chunks_of_eq_Nil [OF cs] del: no_faults)
  have "fetch_attempt m n ver s = (None, if b = [] \<or> v \<le> 0 then ver else v,
      (on_files (\<lambda>_. ?fs) s)\<lparr>s_calls := Suc (s_calls s)\<rparr>)"
    unfolding fetch_attempt_def chunks
    by (simp add: Let_def env cr rv rn on_files_def on_client_def del: no_faults)
  then show ?thesis by (intro exI [of _ ?fs] exI [of _ "Suc (s_calls s)"] exI [of _ i]) simp
qed

text \<open>The result of opening \<open>n\<close>: a new handle on an inode that holds \<open>b\<close>, the local copy of \<open>n\<close>.\<close>

definition opened :: "string \<Rightarrow> bool \<Rightarrow> bytes \<Rightarrow> i64 \<Rightarrow> session \<Rightarrow> i64 \<Rightarrow> session \<Rightarrow> bool" where
  "opened n wr b ver s hid s' \<longleftrightarrow>
     openFiles (cache (s_client s)) hid = None \<and>
     (\<exists>i sh. openFiles (cache (s_client s')) = (openFiles (cache (s_client s)))(hid \<mapsto>
         \<lparr>localFd = \<lparr>fd_inode = i, fd_off = 0, fd_write = wr\<rparr>, dirty = False, serverHandleID = sh, oe_path = n\<rparr>) \<and>
       inodes (files (s_client s')) i = b \<and>
       names (files (s_client s')) (localPath (cache (s_client s')) n) = Some i) \<and>
     map_option cachedVersion (cached (cache (s_client s')) n) = Some ver \<and>
     (\<forall>x. x \<noteq> n \<longrightarrow> cached (cache (s_client s')) x = cached (cache (s_client s)) x) \<and>
     cacheDir (cache (s_client s')) = cacheDir (cache (s_client s)) \<and>
     clientId (s_client s') = clientId (s_client s)"

lemma fetch_and_open_calm:
  assumes "calm m" "connOpen (s_client s)" "s_cl s (stub (s_client s)) = Some h" "served h n b v"
    and "cm_ok (cache (s_client s))" "cm_nextHandle (cache (s_client s)) + 1 < 2 ^ 63"
  shows "\<exists>hid c cm fs. fetch_and_open m n wr sh s =
      (Inr hid, s\<lparr>s_client := (s_client s)\<lparr>cache := cm, files := fs\<rparr>, s_calls := c\<rparr>) \<and>
    cm_ok cm \<and> cm_nextHandle cm = cm_nextHandle (cache (s_client s)) + 1 \<and>
    opened n wr b (if b = [] \<or> v \<le> 0 then 0 else v) s hid
      (s\<lparr>s_client := (s_client s)\<lparr>cache := cm, files := fs\<rparr>, s_calls := c\<rparr>)"
proof -
  obtain fs c i where f: "fetch_attempt m n 0 s =
      (None, if b = [] \<or> v \<le> 0 then 0 else v, (on_files (\<lambda>_. fs) s)\<lparr>s_calls := c\<rparr>)"
      "names fs (localPath (cache (s_client s)) n) = Some i" "inodes fs i = b"
    using fetch_attempt_calm [OF assms(1-4)] by blast
  define ver where "ver = (if b = [] \<or> v \<le> 0 then 0 else v)"
  define s1 where "s1 = on_cache (storeCacheEntry n ver) ((on_files (\<lambda>_. fs) s)\<lparr>s_calls := c\<rparr>)"
  have s1: "cm_ok (cache (s_client s1))" "cm_nextHandle (cache (s_client s1)) = cm_nextHandle (cache (s_client s))"
    "names (files (s_client s1)) (localPath (cache (s_client s1)) n) = Some i"
    "openFiles (cache (s_client s1)) = openFiles (cache (s_client s))" "files (s_client s1) = fs"
    "localPath (cache (s_client s1)) n = localPath (cache (s_client s)) n"
    "cacheDir (cache (s_client s1)) = cacheDir (cache (s_client s))"
    "map_option cachedVersion (cached (cache (s_client s1)) n) = Some ver"
    "\<forall>x. x \<noteq> n \<longrightarrow> cached (cache (s_client s1)) x = cached (cache (s_client s)) x"
    using assms(5) f(2)
    by (simp_all add: s1_def on_cache_def on_files_def on_client_def storeCacheEntry_def cm_ok_def localPath_def)
  obtain hid cm where o: "open_local m ''opening local cache file: '' n wr sh s1 =
        (Inr hid, s1\<lparr>s_client := (s_client s1)\<lparr>cache := cm\<rparr>\<rparr>)"
      "cm_ok cm" "cm_nextHandle cm = cm_nextHandle (cache (s_client s1)) + 1"
      "openFiles (cache (s_client s1)) hid = None"
      "openFiles cm = (openFiles (cache (s_client s1)))(hid \<mapsto>
        \<lparr>localFd = \<lparr>fd_inode = i, fd_off = 0, fd_write = wr\<rparr>, dirty = False, serverHandleID = sh, oe_path = n\<rparr>)"
      "cached cm = cached (cache (s_client s1))" "cacheDir cm = cacheDir (cache (s_client s1))"
    using open_local_calm [OF assms(1) s1(1) _ s1(3), of "''opening local cache file: ''" wr sh] assms(6) s1(2)
    by auto
  have r: "s1\<lparr>s_client := (s_client s1)\<lparr>cache := cm\<rparr>\<rparr> =
      s\<lparr>s_client := (s_client s)\<lparr>cache := cm, files := fs\<rparr>, s_calls := c\<rparr>"
    by (simp add: s1_def on_cache_def on_files_def on_client_def)
  have "fetch_and_open m n wr sh s = (Inr hid, s1\<lparr>s_client := (s_client s1)\<lparr>cache := cm\<rparr>\<rparr>)"
    using o(1) by (simp add: fetch_and_open_def raw_first [where fn = "fetch_attempt m n", OF f(1)] s1_def ver_def)
  then show ?thesis
    unfolding r using o(2-7) s1 f(2,3)
    by (intro exI [of _ hid] exI [of _ c] exI [of _ cm] exI [of _ fs])
      (auto simp: opened_def ver_def localPath_def)
qed

lemma call_TestAuth_calm:
  assumes "calm m" "connOpen (s_client s)" "s_cl s (stub (s_client s)) = Some h" "served h n b v"
  shows "call_TestAuth m n ver s =
    (Inr \<lparr>tar_valid = (v = ver), tar_version = v\<rparr>, s\<lparr>s_calls := Suc (s_calls s)\<rparr>)"
proof -
  have "os_faults (cv_env (m_script m j)) a = no_faults" for j a using assms(1) by (simp add: calm_def)
  then show ?thesis
    using assms(3,4) unfolding call_TestAuth_def calm_stub_call [OF assms(1,2) refl assms(3)]
    by (auto simp: on_server_def serve_def served_def rpc_TestAuth_def Let_def fun_upd_idem simp del: no_faults)
qed

text \<open>The copy of \<open>n\<close> the client keeps, with the version it has for it.\<close>

definition local_copy :: "session \<Rightarrow> string \<Rightarrow> (bytes \<times> i64) option" where
  "local_copy s n =
     (case cached (cache (s_client s)) n of
        None \<Rightarrow> None
      | Some e \<Rightarrow> map_option (\<lambda>b. (b, cachedVersion e))
          (lf_content (files (s_client s)) (localPath (cache (s_client s)) n)))"

text \<open>
  A numbered request has been served. What an operation does after it changes the cache table
  and the local files only: \<open>after_open\<close> is the session with those replaced.
\<close>

definition after_open :: "session \<Rightarrow> cacheManager \<Rightarrow> localfs \<Rightarrow> nat \<Rightarrow> session" where
  "after_open s cm fs c = s\<lparr>s_client := (s_client s)\<lparr>cache := cm, files := fs\<rparr>, s_calls := c\<rparr>"

definition ready_after :: "string \<Rightarrow> nat \<Rightarrow> session \<Rightarrow> session \<Rightarrow> bool" where
  "ready_after a k s s2 \<longleftrightarrow> s_client s2 = (s_client s)\<lparr>reqSeq := reqSeq (s_client s) + 1\<rparr> \<and>
     (\<forall>cm fs c. cm_ok cm \<longrightarrow> cm_nextHandle cm \<le> cm_nextHandle (cache (s_client s)) + 1 \<longrightarrow>
        linked a k (after_open s2 cm fs c))"

lemma ready_afterI:
  assumes "linked a (Suc k) s" "nextSeq s = (q, s1)" "cluster_ok a cl'"
    and t: "\<And>q'. q' \<noteq> q \<Longrightarrow> table_at a cl' (dedupKey (clientId (s_client s)) q') =
      table_at a (s_cl s) (dedupKey (clientId (s_client s)) q')"
  shows "ready_after a k s (s1\<lparr>s_calls := c, s_cl := cl'\<rparr>)"
proof -
  note q = nextSeq_linked [OF assms(1,2)]
  let ?s = "s1\<lparr>s_calls := c, s_cl := cl'\<rparr>"
  have "linked a k (after_open ?s cm fs c')"
    if "cm_ok cm" "cm_nextHandle cm \<le> cm_nextHandle (cache (s_client s)) + 1" for cm fs c'
  proof (rule linked_step [OF assms(1)])
    fix q' assume "table_at a (s_cl (after_open ?s cm fs c')) (dedupKey (clientId (s_client s)) q') \<noteq> None"
    then show "q' = reqSeq (s_client s) + 1 \<or> table_at a (s_cl s) (dedupKey (clientId (s_client s)) q') \<noteq> None"
      using t [of q'] q(1) by (cases "q' = q") (simp_all add: after_open_def)
  qed (use that assms(1,3) q(1,2) in \<open>simp_all add: after_open_def linked_def\<close>)
  then show ?thesis using q(1,2) by (simp add: ready_after_def)
qed

lemma Open_request:
  assumes "calm m" "linked a (Suc k) s" "s_cl s a = Some h" "served h n b v" "nextSeq s = (q, s1)"
  shows "\<exists>r s2 h'. retryWithFailover m (call_Open m n wr q) ors_error s1 = (Inr r, s2) \<and>
    ors_error r = [] \<and> s_cl s2 = (s_cl s)(a \<mapsto> h') \<and> same_files h h' \<and> served h' n b v \<and> ready_after a k s s2"
proof -
  obtain r h' ca where o: "call_Open m n wr q s1 = (Inr r, s1\<lparr>s_calls := ca, s_cl := (s_cl s)(a \<mapsto> h')\<rparr>)"
      "ors_error r = []" "same_files h h'"
      "\<forall>q'. q' \<noteq> q \<longrightarrow> dedupTable h' (dedupKey (clientId (s_client s)) q') =
         dedupTable h (dedupKey (clientId (s_client s)) q')"
    using call_Open_calm [OF assms(1,2,5,3,4)] by blast
  have "resolvePath no_faults h' n = resolvePath no_faults h n"
    using o(3) by (simp add: resolvePath_def same_files_def same_role_def Let_def)
  then have sv: "served h' n b v" using assms(4) o(3) unfolding served_def by (auto simp: same_files_def)
  have "cluster_ok a ((s_cl s)(a \<mapsto> h'))"
    using same_files_ok [of a "s_cl s" h h'] assms(2,3) o(3) by (simp add: linked_def)
  from ready_afterI [OF assms(2,5) this]
  have "ready_after a k s (s1\<lparr>s_calls := ca, s_cl := (s_cl s)(a \<mapsto> h')\<rparr>)"
    using o(4) by (simp add: table_at_def assms(3))
  then show ?thesis
    using failover_first [where fn = "call_Open m n wr q", OF o(1)] o(2,3) sv by fastforce
qed

lemma valid_copy_open:
  assumes "calm m" "local_copy s n = Some (x, v)" "cm_ok (cache (s_client s))"
    "cm_nextHandle (cache (s_client s)) + 1 < 2 ^ 63"
  shows "\<exists>hid cm. open_local m msg n wr sh s = (Inr hid, after_open s cm (files (s_client s)) (s_calls s)) \<and>
    cm_ok cm \<and> cm_nextHandle cm = cm_nextHandle (cache (s_client s)) + 1 \<and>
    opened n wr x v s hid (after_open s cm (files (s_client s)) (s_calls s))"
proof -
  obtain e i where e: "cached (cache (s_client s)) n = Some e" "cachedVersion e = v"
      "names (files (s_client s)) (localPath (cache (s_client s)) n) = Some i"
      "inodes (files (s_client s)) i = x"
    using assms(2) by (auto simp: local_copy_def lf_content_def split: option.splits)
  show ?thesis
    using open_local_calm [OF assms(1,3,4) e(3), of msg wr sh] e
    by (fastforce simp: after_open_def opened_def localPath_def)
qed

lemma Open_calm:
  assumes "calm m" "linked a (Suc k) s" "s_cl s a = Some h" "served h n b v"
    and c: "cached (cache (s_client s)) n = None \<or>
      (\<exists>e. cached (cache (s_client s)) n = Some e \<and> cachedVersion e \<noteq> v) \<or> local_copy s n = Some (x, v)"
  shows "\<exists>hid s' h'. Open m n wr s = (Inr hid, s') \<and> linked a k s' \<and>
    s_cl s' = (s_cl s)(a \<mapsto> h') \<and> same_files h h' \<and>
    (if map_option cachedVersion (cached (cache (s_client s)) n) = Some v then opened n wr x v s hid s'
     else opened n wr b (if b = [] \<or> v \<le> 0 then 0 else v) s hid s')"
proof -
  obtain q s1 where sq: "nextSeq s = (q, s1)" by (metis surj_pair)
  obtain r s2 h' where rq: "retryWithFailover m (call_Open m n wr q) ors_error s1 = (Inr r, s2)"
      "ors_error r = []" "s_client s2 = (s_client s)\<lparr>reqSeq := reqSeq (s_client s) + 1\<rparr>"
      "s_cl s2 = (s_cl s)(a \<mapsto> h')" "same_files h h'" "served h' n b v"
      and lk: "\<And>cm fs c. cm_ok cm \<Longrightarrow> cm_nextHandle cm \<le> cm_nextHandle (cache (s_client s)) + 1 \<Longrightarrow>
        linked a k (after_open s2 cm fs c)"
    using Open_request [OF assms(1-4) sq, of wr] by (auto simp: ready_after_def)
  have cm: "cm_ok (cache (s_client s2))" "cm_nextHandle (cache (s_client s2)) + 1 < 2 ^ 63"
    and con: "connOpen (s_client s2)" "s_cl s2 (stub (s_client s2)) = Some h'"
    using assms(2) rq(3,4) by (auto simp: linked_def)
  define result where "result t y ver hid \<longleftrightarrow> (\<exists>cm fs z. t = after_open s2 cm fs z \<and> cm_ok cm \<and>
      cm_nextHandle cm = cm_nextHandle (cache (s_client s)) + 1 \<and> opened n wr y ver s2 hid t)" for t y ver hid
  have fin: "\<exists>hid s' h'. Open m n wr s = (Inr hid, s') \<and> linked a k s' \<and>
      s_cl s' = (s_cl s)(a \<mapsto> h') \<and> same_files h h' \<and> opened n wr y ver s hid s'"
    if "Open m n wr s = (Inr hid, t)" "result t y ver hid" for hid t y ver
    using that lk rq(3-5) unfolding result_def by (fastforce simp: after_open_def opened_def)
  have fetch: "\<exists>hid t. fetch_and_open m n wr (ors_handle r) (s2\<lparr>s_calls := y\<rparr>) = (Inr hid, t) \<and>
      result t b (if b = [] \<or> v \<le> 0 then 0 else v) hid" for y
    using fetch_and_open_calm [OF assms(1), of "s2\<lparr>s_calls := y\<rparr>" h' n b v wr "ors_handle r"] rq(3,6) con cm
    by (fastforce simp: result_def opened_def after_open_def)
  show ?thesis
  proof (cases "cached (cache (s_client s)) n")
    case None
    have "Open m n wr s = fetch_and_open m n wr (ors_handle r) (s2\<lparr>s_calls := s_calls s2\<rparr>)"
      by (simp add: Open_def sq rq(1-3) isCached_def None)
    then show ?thesis using fetch [of "s_calls s2"] fin None by fastforce
  next
    case (Some e)
    let ?s = "s2\<lparr>s_calls := Suc (s_calls s2)\<rparr>"
    have "retryRPC (call_TestAuth m n (cachedVersion e)) s2 =
        (Inr \<lparr>tar_valid = (v = cachedVersion e), tar_version = v\<rparr>, ?s)"
      by (rule retry_first) (rule call_TestAuth_calm [OF assms(1) con rq(6)])
    then have op: "Open m n wr s = (if v = cachedVersion e
        then open_local m ''opening local cache: '' n wr (ors_handle r) ?s
        else fetch_and_open m n wr (ors_handle r) ?s)"
      by (simp add: Open_def sq rq(1-3) isCached_def Some)
    show ?thesis
    proof (cases "cachedVersion e = v")
      case False
      then show ?thesis using op fetch [of "Suc (s_calls s2)"] fin Some by fastforce
    next
      case True
      then have "local_copy ?s n = Some (x, v)" using c Some by (auto simp: local_copy_def rq(3))
      from valid_copy_open [OF assms(1) this, of "''opening local cache: ''" wr "ors_handle r"] cm
      obtain hid cm where ol: "open_local m ''opening local cache: '' n wr (ors_handle r) ?s =
            (Inr hid, after_open s2 cm (files (s_client s2)) (Suc (s_calls s2)))"
          "cm_ok cm" "cm_nextHandle cm = cm_nextHandle (cache (s_client s2)) + 1"
          "opened n wr x v ?s hid (after_open s2 cm (files (s_client s2)) (Suc (s_calls s2)))"
        by (auto simp: after_open_def)
      then have "result (after_open s2 cm (files (s_client s2)) (Suc (s_calls s2))) x v hid"
        unfolding result_def by (intro exI [of _ cm] exI conjI) (auto simp: rq(3) opened_def)
      from fin [OF _ this] show ?thesis using op ol(1) Some True by simp
    qed
  qed
qed

section \<open>Creating, writing, closing and deleting\<close>

lemma calm_request:
  assumes "calm m" "connOpen (s_client s)" "stub (s_client s) = a" "s_cl s a = Some h"
    and "f (m_script m (s_calls s)) a (s_cl s) = (Reply r, cl')"
  shows "stub_call m f s = (Inr r, s\<lparr>s_calls := Suc (s_calls s), s_cl := cl'\<rparr>)"
  using calm_stub_call [OF assms(1-4), of f] assms(5) by (simp add: serve_def)

lemma calm_env: "calm m \<Longrightarrow> cv_env (m_script m k) = healthy" "calm m \<Longrightarrow> cv_link (m_script m k) = LinkUp"
  "calm m \<Longrightarrow> m_flt m = no_faults"
  by (simp_all add: calm_def)

lemma all_change_same_files:
  assumes "all_change a c n cl cl1" "cl1 a = Some h1" "same_files h1 h2"
  shows "all_change a c n cl (cl1(a \<mapsto> h2))"
  unfolding all_change_def changed_def
proof
  fix b assume "b \<in> replicas a cl"
  then obtain h h' where h: "cl b = Some h" "cl1 b = Some h'" "same_role h h'" "server_ok h'"
      "\<forall>m. good_name m \<longrightarrow> view h' m = apply_change c n (view h) m"
      "\<forall>p. p \<noteq> outPath h n \<longrightarrow> p \<noteq> tmpOf (outPath h n) \<longrightarrow> map_of (disk h') p = map_of (disk h) p"
    using assms(1) unfolding all_change_def changed_def by blast
  show "\<exists>h h'. cl b = Some h \<and> (cl1(a \<mapsto> h2)) b = Some h' \<and> same_role h h' \<and> server_ok h' \<and>
      (\<forall>m. good_name m \<longrightarrow> view h' m = apply_change c n (view h) m) \<and>
      (\<forall>p. p \<noteq> outPath h n \<longrightarrow> p \<noteq> tmpOf (outPath h n) \<longrightarrow> map_of (disk h') p = map_of (disk h) p)"
  proof (cases "b = a")
    case True
    then have "h1 = h'" using h(2) assms(2) by simp
    then show ?thesis
      using True h assms(3) same_files_view(1) [OF assms(3)]
      by (auto simp: same_files_def same_role_def server_ok_def)
  qed (use h in auto)
qed

lemma linkedD:
  assumes "linked a k s"
  obtains h where "connOpen (s_client s)" "stub (s_client s) = a" "s_cl s a = Some h" "cluster_ok a (s_cl s)"
  using assms cluster_okD [of a "s_cl s"] by (auto simp: linked_def)

lemma create_request:
  assumes "calm m" "linked a (Suc k) s" "good_name n" "view (the (s_cl s a)) n = None" "nextSeq s = (q, s1)"
  shows "\<exists>sh s2. retryWithFailover m (\<lambda>s. stub_call m (\<lambda>e a cl. rpc_CreateFile (cv_env e) a
        \<lparr>frq_path = n, frq_client = clientId (s_client s), frq_seq = q\<rparr> cl) s) crs_error s1 =
      (Inr \<lparr>crs_handle = sh, crs_error = []\<rparr>, s2) \<and>
    all_change a (Put [] 1) n (s_cl s) (s_cl s2) \<and> ready_after a k s s2"
proof -
  note q = nextSeq_linked [OF assms(2,5)]
  obtain h where l: "connOpen (s_client s)" "stub (s_client s) = a" "s_cl s a = Some h" "cluster_ok a (s_cl s)"
    using assms(2) by (rule linkedD)
  let ?rq = "\<lparr>frq_path = n, frq_client = clientId (s_client s), frq_seq = q\<rparr>"
  define cl' where "cl' = snd (rpc_CreateFile healthy a ?rq (s_cl s))"
  obtain sh where rc: "rpc_CreateFile healthy a ?rq (s_cl s) = (Reply \<lparr>crs_handle = sh, crs_error = []\<rparr>, cl')"
    and ch: "all_change a (Put [] 1) n (s_cl s) cl'"
    using CreateFile_ok [OF l(4), of ?rq] assms(3,4) q(3) by (auto simp: cl'_def prod_eq_iff)
  let ?s2 = "s1\<lparr>s_calls := Suc (s_calls s1), s_cl := cl'\<rparr>"
  let ?fn = "\<lambda>s. stub_call m (\<lambda>e a cl. rpc_CreateFile (cv_env e) a
      \<lparr>frq_path = n, frq_client = clientId (s_client s), frq_seq = q\<rparr> cl) s"
  have "?fn s1 = (Inr \<lparr>crs_handle = sh, crs_error = []\<rparr>, ?s2)"
    by (rule calm_request [OF assms(1)]) (use l rc q(2) in \<open>simp_all add: calm_env [OF assms(1)]\<close>)
  then have "retryWithFailover m ?fn crs_error s1 = (Inr \<lparr>crs_handle = sh, crs_error = []\<rparr>, ?s2)"
    by (rule failover_first) simp
  moreover have "ready_after a k s ?s2"
    by (rule ready_afterI [OF assms(2,5) all_change_ok(1) [OF ch l(4)]])
      (simp add: cl'_def CreateFile_table dedupKey_eq_iff)
  ultimately show ?thesis using ch by (intro exI [of _ sh] exI [of _ ?s2]) simp
qed

lemma CreateFile_calm:
  assumes "calm m" "linked a (Suc k) s" "good_name n" "view (the (s_cl s a)) n = None"
  shows "\<exists>hid s'. CreateFile m n s = (Inr hid, s') \<and> linked a k s' \<and>
    all_change a (Put [] 1) n (s_cl s) (s_cl s') \<and> opened n True [] 1 s hid s'"
proof -
  obtain q s1 where sq: "nextSeq s = (q, s1)" by (metis surj_pair)
  obtain sh s2 where rf: "retryWithFailover m (\<lambda>s. stub_call m (\<lambda>e a cl. rpc_CreateFile (cv_env e) a
        \<lparr>frq_path = n, frq_client = clientId (s_client s), frq_seq = q\<rparr> cl) s) crs_error s1 =
        (Inr \<lparr>crs_handle = sh, crs_error = []\<rparr>, s2)"
      and ch: "all_change a (Put [] 1) n (s_cl s) (s_cl s2)" and rd: "ready_after a k s s2"
    using create_request [OF assms sq] by blast
  have c2: "s_client s2 = (s_client s)\<lparr>reqSeq := reqSeq (s_client s) + 1\<rparr>" using rd by (simp add: ready_after_def)
  let ?lp = "localPath (cache (s_client s)) n"
  obtain i fs where e: "lf_ensure ?lp (files (s_client s)) = (i, fs)" by (metis surj_pair)
  then have nm: "names fs ?lp = Some i" by (auto simp: lf_ensure_def split: option.splits)
  let ?fs = "fs\<lparr>inodes := (inodes fs)(i := [])\<rparr>"
  define s3 where "s3 = on_cache (storeCacheEntry n 1) (on_files (\<lambda>_. ?fs) s2)"
  have lw: "lf_WriteFile (m_flt m) (localPath (cache (s_client s2)) n) [] (files (s_client s2)) = Inr ?fs"
    using e by (simp add: lf_WriteFile_def calm_env [OF assms(1)] c2)
  have lc: "local_copy s3 n = Some ([], 1)" and cm: "cm_ok (cache (s_client s3))"
      "cm_nextHandle (cache (s_client s3)) = cm_nextHandle (cache (s_client s))" and f3: "files (s_client s3) = ?fs"
    using nm assms(2) by (simp_all add: s3_def on_cache_def on_files_def on_client_def local_copy_def
        storeCacheEntry_def localPath_def lf_content_def c2 cm_ok_def linked_def)
  have room: "cm_nextHandle (cache (s_client s3)) + 1 < 2 ^ 63" using assms(2) cm(2) by (simp add: linked_def)
  obtain hid cm' where o: "open_local m ''opening local cache file: '' n True sh s3 = (Inr hid, after_open s3 cm' ?fs (s_calls s3))"
      "cm_ok cm'" "cm_nextHandle cm' = cm_nextHandle (cache (s_client s3)) + 1"
      "opened n True [] 1 s3 hid (after_open s3 cm' ?fs (s_calls s3))"
    using valid_copy_open [OF assms(1) lc cm(1) room, of "''opening local cache file: ''" True sh] f3 by auto
  have eq: "after_open s3 cm' ?fs (s_calls s3) = after_open s2 cm' ?fs (s_calls s2)"
    by (simp add: after_open_def s3_def on_cache_def on_files_def on_client_def)
  have "CreateFile m n s = (Inr hid, after_open s2 cm' ?fs (s_calls s2))"
    using rf o(1) [unfolded eq] lw by (simp add: CreateFile_def sq s3_def)
  moreover have "linked a k (after_open s2 cm' ?fs (s_calls s2))"
    using rd o(2,3) cm(2) by (simp add: ready_after_def)
  moreover have "opened n True [] 1 s hid (after_open s2 cm' ?fs (s_calls s2))"
    using o(4) unfolding eq
    by (simp add: opened_def s3_def on_cache_def on_files_def on_client_def storeCacheEntry_def c2)
  ultimately show ?thesis using ch by (auto simp: after_open_def)
qed

lemma Write_calm:
  assumes "calm m" "openFiles (cache (s_client s)) hid = Some e" "fd_write (localFd e)"
  shows "\<exists>cm. Write m hid b s = (Inr (length b), on_cache (\<lambda>_. cm)
      (on_files (\<lambda>fs. fs\<lparr>inodes := (inodes fs)(fd_inode (localFd e) :=
         write_at (inodes fs (fd_inode (localFd e))) (fd_off (localFd e)) b)\<rparr>) s)) \<and>
    cm = (cache (s_client s))\<lparr>openFiles := (openFiles (cache (s_client s)))(hid \<mapsto>
      e\<lparr>localFd := (localFd e)\<lparr>fd_off := fd_off (localFd e) + length b\<rparr>, dirty := True\<rparr>)\<rparr>"
  using assms
  by (simp add: Write_def getOpenEntry_def Let_def calm_env on_cache_def on_files_def on_client_def
      markDirty_def setFd_def)

lemma store_stream_ok:
  assumes "b \<noteq> []"
  obtains c cs where "store_stream n cid q (chunks_of chunkSize b) = c # cs" "sch_path c = n"
    "sch_client c = cid" "sch_seq c = q" "concat (map sch_data (c # cs)) = b"
proof -
  have cs: "0 < chunkSize" by (simp add: chunkSize_def)
  then obtain x xs where x: "chunks_of chunkSize b = x # xs"
    using assms chunks_of_eq_Nil by (metis neq_Nil_conv)
  have "concat (x # xs) = b" using chunks_of_concat [OF cs, of b] x by simp
  then show thesis
    using x by (intro that) (auto simp: store_stream_def comp_def)
qed

lemma store_attempt_call:
  assumes "m_flt m = no_faults" "connOpen (s_client s)"
    and "lf_content (files (s_client s)) (localPath (cache (s_client s)) n) = Some b"
  shows "store_attempt m n q ver s =
    (case call_StoreFile m (store_stream n (clientId (s_client s)) q (chunks_of chunkSize b), None) s of
       (Inl e, s1) \<Rightarrow> (Some (''CloseAndRecv: '' @ e), ver, s1)
     | (Inr r, s1) \<Rightarrow>
         if str_contains (srs_error r) ''not primary'' then (Some (''not primary: '' @ srs_error r), ver, s1)
         else if srs_error r \<noteq> [] then (Some (''StoreFile error: '' @ srs_error r), ver, s1)
         else (None, srs_version r, s1))"
  using assms by (simp add: store_attempt_def Let_def read_upto_ok del: no_faults) (simp add: no_faults_def)

lemma store_request:
  assumes "calm m" "linked a (Suc k) s" "good_name n" "nextSeq s = (q, s1)"
    and b: "lf_content (files (s_client s)) (localPath (cache (s_client s)) n) = Some b" "b \<noteq> []"
  defines "v \<equiv> next_version a (s_cl s) n"
  shows "\<exists>s2. retryWithFailoverRaw m (store_attempt m n q) 0 s1 = (None, v, s2) \<and>
    all_change a (Put b v) n (s_cl s) (s_cl s2) \<and> ready_after a k s s2"
proof -
  note q = nextSeq_linked [OF assms(2,4)]
  obtain h where l: "connOpen (s_client s)" "stub (s_client s) = a" "s_cl s a = Some h" "cluster_ok a (s_cl s)"
    using assms(2) by (rule linkedD)
  obtain c cs where c: "store_stream n (clientId (s_client s)) q (chunks_of chunkSize b) = c # cs" "sch_path c = n"
      "sch_client c = clientId (s_client s)" "sch_seq c = q" "concat (map sch_data (c # cs)) = b"
    using b(2) by (rule store_stream_ok)
  have d: "concat (map sch_data (c # cs)) \<noteq> []" unfolding c(5) by (rule b(2))
  have gn: "good_name (sch_path c)" and ne: "no_entry a (sch_client c) (sch_seq c) (s_cl s)"
    using assms(3) q(3) by (simp_all add: c(2-4))
  define cl' where "cl' = snd (rpc_StoreFile healthy a (c # cs, None) (s_cl s))"
  have rc: "rpc_StoreFile healthy a (c # cs, None) (s_cl s) = (Reply \<lparr>srs_version = v, srs_error = []\<rparr>, cl')"
    and ch: "all_change a (Put b v) n (s_cl s) cl'"
    using StoreFile_ok [OF l(4) gn ne d, unfolded c(2,5)] by (simp_all add: cl'_def prod_eq_iff v_def)
  let ?s2 = "s1\<lparr>s_calls := Suc (s_calls s1), s_cl := cl'\<rparr>"
  have "call_StoreFile m (c # cs, None) s1 = (Inr \<lparr>srs_version = v, srs_error = []\<rparr>, ?s2)"
    unfolding call_StoreFile_def
    by (rule calm_request [OF assms(1)]) (use l rc q(2) in \<open>simp_all add: calm_env [OF assms(1)]\<close>)
  moreover have "lf_content (files (s_client s1)) (localPath (cache (s_client s1)) n) = Some b"
    "connOpen (s_client s1)" "clientId (s_client s1) = clientId (s_client s)" using b(1) l(1) q(2) by simp_all
  ultimately have "store_attempt m n q 0 s1 = (None, v, ?s2)"
    using store_attempt_call [OF calm_env(3) [OF assms(1)], of s1 n b q 0] c(1) by simp
  then have "retryWithFailoverRaw m (store_attempt m n q) 0 s1 = (None, v, ?s2)" by (rule raw_first)
  moreover have "ready_after a k s ?s2"
    by (rule ready_afterI [OF assms(2,4) all_change_ok(1) [OF ch l(4)]])
      (simp add: cl'_def StoreFile_table c(3,4) dedupKey_eq_iff)
  ultimately show ?thesis using ch by (intro exI [of _ ?s2]) simp
qed

lemma CloseFile_same: "same_files h (snd (rpc_CloseFile i h))" "dedupTable (snd (rpc_CloseFile i h)) = dedupTable h"
  by (simp_all add: rpc_CloseFile_def same_files_def same_role_def)

lemma linked_same_files:
  assumes "linked a k s" "s_cl s a = Some h" "same_files h h'" "dedupTable h' = dedupTable h"
  shows "linked a k (s\<lparr>s_calls := c, s_cl := (s_cl s)(a \<mapsto> h')\<rparr>)"
proof -
  have "no_entry a cid q ((s_cl s)(a \<mapsto> h')) = no_entry a cid q (s_cl s)" for cid q
    using assms by (simp add: no_entry_def)
  then show ?thesis using assms same_files_ok [of a "s_cl s" h h'] by (simp add: linked_def)
qed

lemma Close_calm:
  assumes "calm m" "linked a (Suc k) s" "openFiles (cache (s_client s)) hid = Some e" "dirty e"
    and "oe_path e = n" "good_name n"
    and "lf_content (files (s_client s)) (localPath (cache (s_client s)) n) = Some b" "b \<noteq> []"
  defines "v \<equiv> next_version a (s_cl s) n"
  shows "\<exists>s'. Close m hid s = (None, s') \<and> linked a k s' \<and> all_change a (Put b v) n (s_cl s) (s_cl s') \<and>
    openFiles (cache (s_client s')) = (openFiles (cache (s_client s)))(hid := None) \<and>
    files (s_client s') = files (s_client s) \<and> cacheDir (cache (s_client s')) = cacheDir (cache (s_client s)) \<and>
    clientId (s_client s') = clientId (s_client s) \<and>
    map_option cachedVersion (cached (cache (s_client s')) n) =
      map_option (\<lambda>_. v) (cached (cache (s_client s)) n)"
proof -
  define cm where "cm = (cache (s_client s))\<lparr>openFiles := (openFiles (cache (s_client s)))(hid := None)\<rparr>"
  define s0 where "s0 = on_cache (\<lambda>_. cm) s"
  have c0: "s_client s0 = (s_client s)\<lparr>cache := cm\<rparr>" "s_cl s0 = s_cl s" by (simp_all add: s0_def on_cache_def on_client_def)
  have cmok: "cm_ok cm" using assms(2) by (auto simp: cm_def cm_ok_def linked_def)
  have l0: "linked a (Suc k) s0" using assms(2) cmok by (simp add: linked_def c0) (simp add: cm_def)
  have b0: "lf_content (files (s_client s0)) (localPath (cache (s_client s0)) n) = Some b"
    using assms(7) by (simp add: c0 cm_def localPath_def)
  obtain q s1 where sq: "nextSeq s0 = (q, s1)" by (metis surj_pair)
  obtain s2 where r: "retryWithFailoverRaw m (store_attempt m n q) 0 s1 = (None, v, s2)"
      "all_change a (Put b v) n (s_cl s) (s_cl s2)" "ready_after a k s0 s2"
    using store_request [OF assms(1) l0 assms(6) sq b0 assms(8)] by (auto simp: c0 v_def)
  define s3 where "s3 = on_cache (updateVersion n v) s2"
  let ?cm3 = "updateVersion n v cm"
  have c2: "s_client s2 = (s_client s)\<lparr>cache := cm, reqSeq := reqSeq (s_client s) + 1\<rparr>"
    using r(3) by (simp add: ready_after_def c0)
  have "s3 = after_open s2 ?cm3 (files (s_client s2)) (s_calls s2)"
    by (simp add: s3_def on_cache_def on_client_def after_open_def c2)
  moreover have "cm_ok ?cm3" "cm_nextHandle ?cm3 \<le> cm_nextHandle (cache (s_client s0)) + 1"
    using cmok by (simp_all add: updateVersion_def cm_ok_def c0 split: option.split)
  ultimately have l3: "linked a k s3" using r(3) by (simp add: ready_after_def)
  then obtain h3 where h3: "connOpen (s_client s3)" "stub (s_client s3) = a" "s_cl s3 a = Some h3"
    by (rule linkedD)
  let ?h = "snd (rpc_CloseFile (serverHandleID e) h3)"
  let ?f = "on_server (\<lambda>flt h. apfst Reply (rpc_CloseFile (serverHandleID e) h))"
  have "?f (m_script m (s_calls s3)) a (s_cl s3) = (Reply (fst (rpc_CloseFile (serverHandleID e) h3)), (s_cl s3)(a \<mapsto> ?h))"
    by (simp add: on_server_def h3(3) apfst_def map_prod_def case_prod_beta)
  from calm_request [where f = ?f, OF assms(1) h3 this]
  have "Close m hid s = (None, s3\<lparr>s_calls := Suc (s_calls s3), s_cl := (s_cl s3)(a \<mapsto> ?h)\<rparr>)"
    using r(1) sq assms(3-5) by (simp add: Close_def cm_closeFile_def cm_def [symmetric] s0_def [symmetric] Let_def s3_def)
  moreover have "linked a k (s3\<lparr>s_calls := Suc (s_calls s3), s_cl := (s_cl s3)(a \<mapsto> ?h)\<rparr>)"
    by (rule linked_same_files [OF l3 h3(3) CloseFile_same])
  moreover have "s_cl s3 = s_cl s2" by (simp add: s3_def on_cache_def on_client_def)
  then have "all_change a (Put b v) n (s_cl s) ((s_cl s3)(a \<mapsto> ?h))"
    using all_change_same_files [OF r(2) _ CloseFile_same(1)] h3(3) by simp
  moreover have "s_client s3 = (s_client s2)\<lparr>cache := ?cm3\<rparr>"
    by (simp add: s3_def on_cache_def on_client_def c2)
  ultimately show ?thesis
    by (auto simp: c2 updateVersion_def cm_def split: option.split)
qed

lemma delete_request:
  assumes "calm m" "linked a (Suc k) s" "good_name n" "nextSeq s = (q, s1)"
  shows "\<exists>s2. retryWithFailover m (\<lambda>s. stub_call m (\<lambda>e a cl. rpc_DeleteFile (cv_env e) a
        \<lparr>frq_path = n, frq_client = clientId (s_client s), frq_seq = q\<rparr> cl) s) id s1 = (Inr [], s2) \<and>
    all_change a Del n (s_cl s) (s_cl s2) \<and> ready_after a k s s2"
proof -
  note q = nextSeq_linked [OF assms(2,4)]
  obtain h where l: "connOpen (s_client s)" "stub (s_client s) = a" "s_cl s a = Some h" "cluster_ok a (s_cl s)"
    using assms(2) by (rule linkedD)
  let ?rq = "\<lparr>frq_path = n, frq_client = clientId (s_client s), frq_seq = q\<rparr>"
  define cl' where "cl' = snd (rpc_DeleteFile healthy a ?rq (s_cl s))"
  have rc: "rpc_DeleteFile healthy a ?rq (s_cl s) = (Reply [], cl')" and ch: "all_change a Del n (s_cl s) cl'"
    using DeleteFile_ok [OF l(4), of ?rq] assms(3) q(3) by (simp_all add: cl'_def prod_eq_iff)
  let ?s2 = "s1\<lparr>s_calls := Suc (s_calls s1), s_cl := cl'\<rparr>"
  let ?fn = "\<lambda>s. stub_call m (\<lambda>e a cl. rpc_DeleteFile (cv_env e) a
      \<lparr>frq_path = n, frq_client = clientId (s_client s), frq_seq = q\<rparr> cl) s"
  have "?fn s1 = (Inr [], ?s2)"
    by (rule calm_request [OF assms(1)]) (use l rc q(2) in \<open>simp_all add: calm_env [OF assms(1)]\<close>)
  then have "retryWithFailover m ?fn id s1 = (Inr [], ?s2)" by (rule failover_first) simp
  moreover have "ready_after a k s ?s2"
    by (rule ready_afterI [OF assms(2,4) all_change_ok(1) [OF ch l(4)]])
      (simp add: cl'_def DeleteFile_table dedupKey_eq_iff)
  ultimately show ?thesis using ch by (intro exI [of _ ?s2]) simp
qed

lemma DeleteFile_calm:
  assumes "calm m" "linked a (Suc k) s" "good_name n"
  shows "\<exists>s'. DeleteFile m n s = (None, s') \<and> linked a k s' \<and> all_change a Del n (s_cl s) (s_cl s') \<and>
    cached (cache (s_client s')) = (cached (cache (s_client s)))(n := None)"
proof -
  obtain q s1 where sq: "nextSeq s = (q, s1)" by (metis surj_pair)
  obtain s2 where r: "retryWithFailover m (\<lambda>s. stub_call m (\<lambda>e a cl. rpc_DeleteFile (cv_env e) a
        \<lparr>frq_path = n, frq_client = clientId (s_client s), frq_seq = q\<rparr> cl) s) id s1 = (Inr [], s2)"
      "all_change a Del n (s_cl s) (s_cl s2)" "ready_after a k s s2"
    using delete_request [OF assms sq] by blast
  define s3 where "s3 = on_cache (dropCacheEntry n)
      (on_files (lf_Remove (m_flt m) (localPath (cache (s_client s2)) n)) s2)"
  have "s3 = after_open s2 (dropCacheEntry n (cache (s_client s2))) (files (s_client s3)) (s_calls s2)"
    by (simp add: s3_def after_open_def on_cache_def on_files_def on_client_def)
  moreover have "cm_ok (dropCacheEntry n (cache (s_client s2)))"
    "cm_nextHandle (dropCacheEntry n (cache (s_client s2))) \<le> cm_nextHandle (cache (s_client s)) + 1"
    using r(3) assms(2) by (simp_all add: ready_after_def dropCacheEntry_def cm_ok_def linked_def)
  ultimately have "linked a k s3" using r(3) by (metis ready_after_def)
  moreover have "DeleteFile m n s = (None, s3)" using r(1) by (simp add: DeleteFile_def sq s3_def)
  moreover have "s_cl s3 = s_cl s2" "cached (cache (s_client s3)) = (cached (cache (s_client s)))(n := None)"
    using r(3) by (simp_all add: s3_def on_cache_def on_files_def on_client_def dropCacheEntry_def ready_after_def)
  ultimately show ?thesis using r(2) by simp
qed

end
