(* ===== verification/Afs_Sessions.thy ===== *)
theory Afs_Sessions
  imports Afs_Client
begin

text \<open>
  What the client library promises across whole open, write, close and read cycles.
\<close>

section \<open>Which of the two directories serves a name\<close>

lemma dir_prefix_form: "dir_prefix d = [] \<or> last (dir_prefix d) = slash"
  by (simp add: dir_prefix_def)

lemma last_element:
  assumes "p = [] \<or> last p = slash" "slash \<notin> set y"
  shows "rev (takeWhile (\<lambda>c. c \<noteq> slash) (rev (p @ y))) = y"
proof -
  have "takeWhile (\<lambda>c. c \<noteq> slash) (rev p) = []" using assms(1) by (cases p rule: rev_cases) auto
  moreover have "\<And>c. c \<in> set (rev y) \<Longrightarrow> c \<noteq> slash" using assms(2) by auto
  ultimately have "takeWhile (\<lambda>c. c \<noteq> slash) (rev y @ rev p) = rev y" by (subst takeWhile_append2) auto
  then show ?thesis by (metis rev_append rev_rev_ident)
qed

lemma input_path_other:
  assumes "inputDir h \<noteq> []" "outputDir h \<noteq> []" "ordinary n" "dir_prefix (inputDir h) \<noteq> dir_prefix (outputDir h)"
  shows "path_Join (inputDir h) n \<noteq> outPath h n" "path_Join (inputDir h) n \<noteq> tmpOf (outPath h n)"
proof -
  have i: "path_Join (inputDir h) n = dir_prefix (inputDir h) @ n" using assms by (simp add: path_Join_ordinary)
  have o: "outPath h n = dir_prefix (outputDir h) @ n" using assms by (simp add: outPath_ordinary)
  show "path_Join (inputDir h) n \<noteq> outPath h n" unfolding i o using assms(4) by simp
  have n: "slash \<notin> set n" "slash \<notin> set (n @ ''.tmp'')" using assms(3) by (simp_all add: ordinary_def)
  show "path_Join (inputDir h) n \<noteq> tmpOf (outPath h n)"
  proof
    assume "path_Join (inputDir h) n = tmpOf (outPath h n)"
    then have "dir_prefix (inputDir h) @ n = dir_prefix (outputDir h) @ (n @ ''.tmp'')" by (simp add: i o tmpOf_def)
    then have "n = n @ ''.tmp''"
      using last_element [OF dir_prefix_form n(1)] last_element [OF dir_prefix_form n(2)] by metis
    then show False by simp
  qed
qed

text \<open>A server whose two directories differ and whose input directory has no \<open>n\<close> serves its output file.\<close>

definition output_only :: "server \<Rightarrow> string \<Rightarrow> bool" where
  "output_only h n \<longleftrightarrow> inputDir h \<noteq> [] \<and> dir_prefix (inputDir h) \<noteq> dir_prefix (outputDir h) \<and>
     map_of (disk h) (path_Join (inputDir h) n) = None"

lemma output_only_served:
  assumes "server_ok h" "good_name n" "output_only h n" "view h n = Some (b, v)"
  shows "served h n b v"
proof -
  have b: "map_of (disk h) (outPath h n) = Some (FFile b)" "get0 (versions h) (outPath h n) = v"
    using assms(4) by (auto simp: view_def split: option.splits fnode.splits)
  have base: "path_Base n = n" "n \<noteq> ''.''" "n \<noteq> ''..''"
    using assms(2) good_ordinary by (auto simp: path_Base_ordinary ordinary_def)
  have "resolvePath no_faults h n = Inr (outPath h n)"
    using assms(3) b(1) by (simp add: resolvePath_def base Let_def os_Stat_def output_only_def outPath_def)
  then show ?thesis using b by (auto simp: served_def)
qed

lemma output_only_change:
  assumes "all_change a c n cl cl'" "cl a = Some h" "cl' a = Some h'" "output_only h n" "server_ok h" "ordinary n"
  shows "output_only h' n"
proof -
  have "a \<in> replicas a cl" using assms(2) by (simp add: replicas_def)
  then have r: "same_role h h'"
      "\<forall>p. p \<noteq> outPath h n \<longrightarrow> p \<noteq> tmpOf (outPath h n) \<longrightarrow> map_of (disk h') p = map_of (disk h) p"
    using assms(1-3) unfolding all_change_def changed_def by force+
  have "path_Join (inputDir h) n \<noteq> outPath h n" "path_Join (inputDir h) n \<noteq> tmpOf (outPath h n)"
    using input_path_other [of h n] assms(4-6) by (simp_all add: output_only_def server_ok_def)
  then show ?thesis using r assms(4) by (simp add: output_only_def same_role_def)
qed

lemma Read_calm:
  assumes "calm m" "opened n wr b ver s hid s'" "length b \<le> N"
  shows "fst (Read m hid N s') = Inr (b, b = [] \<and> 0 < N)"
  using assms by (auto simp: Read_def getOpenEntry_def calm_env Let_def read_at_def opened_def)

lemma all_changeD:
  assumes "all_change a c n cl cl'" "r \<in> replicas a cl"
  shows "\<exists>h h'. cl r = Some h \<and> cl' r = Some h' \<and> server_ok h' \<and>
    (\<forall>m. good_name m \<longrightarrow> view h' m = apply_change c n (view h) m)"
  using assms unfolding all_change_def changed_def by blast

text \<open>A put hides an earlier change of the same file.\<close>

lemma all_change_overwrite:
  assumes "all_change a c n cl cl1" "all_change a (Put b v) n cl1 cl2" "cluster_ok a cl"
  shows "all_change a (Put b v) n cl cl2"
  unfolding all_change_def changed_def
proof
  fix r assume r: "r \<in> replicas a cl"
  obtain g g1 where g: "cl r = Some g" "cl1 r = Some g1" "same_role g g1"
      "\<forall>x. good_name x \<longrightarrow> view g1 x = apply_change c n (view g) x"
      "\<forall>p. p \<noteq> outPath g n \<longrightarrow> p \<noteq> tmpOf (outPath g n) \<longrightarrow> map_of (disk g1) p = map_of (disk g) p"
    using assms(1) r unfolding all_change_def changed_def by blast
  obtain g2 where g2: "cl2 r = Some g2" "same_role g1 g2" "server_ok g2"
      "\<forall>x. good_name x \<longrightarrow> view g2 x = apply_change (Put b v) n (view g1) x"
      "\<forall>p. p \<noteq> outPath g1 n \<longrightarrow> p \<noteq> tmpOf (outPath g1 n) \<longrightarrow> map_of (disk g2) p = map_of (disk g1) p"
    using assms(2) r all_change_ok(2) [OF assms(1,3)] g(2) unfolding all_change_def changed_def by force
  have "apply_change (Put b v) n (apply_change c n V) = apply_change (Put b v) n V" for V by (cases c) auto
  then have "\<forall>x. good_name x \<longrightarrow> view g2 x = apply_change (Put b v) n (view g) x"
    using g(4) g2(4) by (cases c) auto
  moreover have "outPath g1 n = outPath g n" "same_role g g2"
    using g(3) g2(2) by (simp_all add: same_role_def outPath_def)
  ultimately show "\<exists>h h'. cl r = Some h \<and> cl2 r = Some h' \<and> same_role h h' \<and> server_ok h' \<and>
      (\<forall>x. good_name x \<longrightarrow> view h' x = apply_change (Put b v) n (view h) x) \<and>
      (\<forall>p. p \<noteq> outPath h n \<longrightarrow> p \<noteq> tmpOf (outPath h n) \<longrightarrow> map_of (disk h') p = map_of (disk h) p)"
    using g(1,5) g2 by auto
qed

lemma next_version_view: "cl a = Some h \<Longrightarrow> view h n = Some (b, v) \<Longrightarrow> next_version a cl n = i64_add v 1"
  by (auto simp: next_version_def view_def split: option.splits fnode.splits)

section \<open>Closing an unchanged file, opening a missing one\<close>

lemma Close_clean:
  assumes "calm m" "linked a k s" "s_cl s a = Some h" "openFiles (cache (s_client s)) hid = Some e" "\<not> dirty e"
  shows "\<exists>s' h'. Close m hid s = (None, s') \<and> linked a k s' \<and> s_cl s' = (s_cl s)(a \<mapsto> h') \<and> same_files h h' \<and>
    cached (cache (s_client s')) = cached (cache (s_client s)) \<and> files (s_client s') = files (s_client s) \<and>
    openFiles (cache (s_client s')) = (openFiles (cache (s_client s)))(hid := None) \<and>
    cacheDir (cache (s_client s')) = cacheDir (cache (s_client s))"
proof -
  define cm where "cm = (cache (s_client s))\<lparr>openFiles := (openFiles (cache (s_client s)))(hid := None)\<rparr>"
  define s0 where "s0 = on_cache (\<lambda>_. cm) s"
  have c0: "s_client s0 = (s_client s)\<lparr>cache := cm\<rparr>" "s_cl s0 = s_cl s" by (simp_all add: s0_def on_cache_def on_client_def)
  have "cm_ok cm" using assms(2) by (auto simp: cm_def cm_ok_def linked_def)
  then have l0: "linked a k s0" using assms(2) by (simp add: linked_def c0) (simp add: cm_def)
  have st: "connOpen (s_client s0)" "stub (s_client s0) = a" "s_cl s0 a = Some h"
    using l0 assms(3) by (simp_all add: linked_def c0)
  let ?h = "snd (rpc_CloseFile (serverHandleID e) h)"
  let ?f = "on_server (\<lambda>flt h. apfst Reply (rpc_CloseFile (serverHandleID e) h))"
  have "?f (m_script m (s_calls s0)) a (s_cl s0) = (Reply (fst (rpc_CloseFile (serverHandleID e) h)), (s_cl s0)(a \<mapsto> ?h))"
    by (simp add: on_server_def st(3) apfst_def map_prod_def case_prod_beta)
  from calm_request [where f = ?f, OF assms(1) st this]
  have "Close m hid s = (None, s0\<lparr>s_calls := Suc (s_calls s0), s_cl := (s_cl s0)(a \<mapsto> ?h)\<rparr>)"
    using assms(4,5) by (simp add: Close_def cm_closeFile_def cm_def [symmetric] s0_def [symmetric] Let_def)
  moreover have "linked a k (s0\<lparr>s_calls := Suc (s_calls s0), s_cl := (s_cl s0)(a \<mapsto> ?h)\<rparr>)"
    by (rule linked_same_files [OF l0 st(3) CloseFile_same])
  ultimately show ?thesis
    using CloseFile_same(1) by (intro exI [of _ "s0\<lparr>s_calls := Suc (s_calls s0), s_cl := (s_cl s0)(a \<mapsto> ?h)\<rparr>"] exI [of _ ?h])
      (simp add: c0 cm_def)
qed

text \<open>A name that a server serves from neither directory.\<close>

definition missing :: "server \<Rightarrow> string \<Rightarrow> bool" where
  "missing h n \<longleftrightarrow> map_of (disk h) (path_Join (inputDir h) n) = None \<and> map_of (disk h) (outPath h n) = None"

lemma str_contains_set: "str_contains s p \<Longrightarrow> set p \<subseteq> set s"
proof (induction s)
  case (Cons x xs)
  then show ?case using set_take_subset [of "length p" "x # xs"] by (auto simp del: take_Cons')
qed simp

lemma not_found_text: "CHR '' '' \<notin> set n \<Longrightarrow> \<not> str_contains (''file not found: '' @ n) ''not primary''"
  using str_contains_set [of n "''not primary''"] by auto

lemma Open_missing:
  assumes "calm m" "linked a (Suc k) s" "s_cl s a = Some h" "missing h n" "ordinary n" "CHR '' '' \<notin> set n"
  shows "\<exists>e s'. Open m n wr s = (Inl e, s') \<and> linked a k s' \<and> s_cl s' = s_cl s \<and>
    cache (s_client s') = cache (s_client s) \<and> files (s_client s') = files (s_client s)"
proof -
  obtain q s1 where sq: "nextSeq s = (q, s1)" by (metis surj_pair)
  note q = nextSeq_linked [OF assms(2) sq]
  have key: "dedupTable h (dedupKey (clientId (s_client s)) q) = None"
    using q(3) assms(3) by (simp add: no_entry_def)
  have st: "connOpen (s_client s1)" "stub (s_client s1) = a" "s_cl s1 a = Some h"
    "clientId (s_client s1) = clientId (s_client s)" "s_cl s1 = s_cl s"
    using assms(2,3) q(2) by (simp_all add: linked_def)
  let ?s2 = "s1\<lparr>s_calls := Suc (s_calls s1), s_cl := s_cl s\<rparr>"
  let ?r = "\<lparr>ors_handle = 0, ors_error = ''file not found: '' @ n\<rparr>"
  let ?f = "on_server (\<lambda>flt h. rpc_Open flt \<lparr>orq_path = n, orq_write = wr, orq_client = clientId (s_client s1), orq_seq = q\<rparr> h)"
  have base: "path_Base n = n" "n \<noteq> ''.''" "n \<noteq> ''..''"
    using assms(5) by (auto simp: path_Base_ordinary ordinary_def)
  have rp: "resolvePath no_faults h n = Inr (path_Join (inputDir h) n)"
    using assms(4) by (simp add: resolvePath_def base Let_def os_Stat_def missing_def outPath_def)
  have "rpc_Open no_faults \<lparr>orq_path = n, orq_write = wr, orq_client = clientId (s_client s1), orq_seq = q\<rparr> h =
      (Reply ?r, h)"
    using key assms(4) by (simp add: rpc_Open_def Let_def rp st(4) os_Stat_def missing_def del: no_faults) (simp add: no_faults_def)
  then have "?f (m_script m (s_calls s1)) a (s_cl s1) = (Reply ?r, s_cl s)"
    using assms(1,3) by (simp add: on_server_def st(5) calm_env fun_upd_idem del: no_faults)
  from calm_request [where f = ?f, OF assms(1) st(1-3) this]
  have "call_Open m n wr q s1 = (Inr ?r, ?s2)" unfolding call_Open_def by simp
  then have "retryWithFailover m (call_Open m n wr q) ors_error s1 = (Inr ?r, ?s2)"
    by (rule failover_first) (simp add: not_found_text [OF assms(6), simplified])
  then have "Open m n wr s = (Inl (''Open RPC error: '' @ ''file not found: '' @ n), ?s2)"
    by (simp add: Open_def sq)
  moreover have "linked a k ?s2"
    using assms(2) q(1,2) by (auto simp: linked_def)
  ultimately show ?thesis using q(2) by auto
qed

section \<open>A new client\<close>

text \<open>
  The address list of a client starts with the running primary of a healthy cluster, which has
  not seen requests under the client's id.
\<close>

definition reaches_primary :: "machine \<Rightarrow> nat \<Rightarrow> nat \<Rightarrow> string list \<Rightarrow> string \<Rightarrow> cluster \<Rightarrow> bool" where
  "reaches_primary m pid nanos addrs a cl \<longleftrightarrow> calm m \<and> cluster_ok a cl \<and> addrs \<noteq> [] \<and> hd addrs = a \<and> a \<noteq> [] \<and>
     serverAddr (the (cl a)) = a \<and> m_dial m a \<and> cv_up (m_script m 0) a \<and> 0 < cv_depth (m_script m 0) \<and>
     (\<forall>q. no_entry a (''client-'' @ show_nat pid @ ''-'' @ show_nat nanos) q cl)"

lemma Heartbeat_same: "primary h \<Longrightarrow> rpc_Heartbeat now i h = (True, h\<lparr>lastHeartbeat := now\<rparr>)"
  by (simp add: rpc_Heartbeat_def)

lemma NewClient_calm:
  assumes "reaches_primary m pid nanos addrs a cl" "int k < 2 ^ 63"
  shows "\<exists>s h h'. NewClient m pid nanos addrs dir fs cl now = Inr s \<and> linked a k s \<and> cl a = Some h \<and>
    s_cl s = cl(a \<mapsto> h') \<and> same_files h h' \<and> cached (cache (s_client s)) = Map.empty \<and>
    files (s_client s) = fs"
proof -
  let ?cid = "''client-'' @ show_nat pid @ ''-'' @ show_nat nanos"
  have r: "calm m" "cluster_ok a cl" "a \<noteq> []" "serverAddr (the (cl a)) = a" "m_dial m a" "cv_up (m_script m 0) a"
    "0 < cv_depth (m_script m 0)" "\<And>q. no_entry a ?cid q cl"
    using assms(1) by (simp_all add: reaches_primary_def)
  obtain rest where addrs: "addrs = a # rest" using assms(1) by (cases addrs) (auto simp: reaches_primary_def)
  obtain h where h: "cl a = Some h" "primary h" "serverAddr h = a" using r(2,4) by (auto elim: cluster_okD)
  obtain d where d: "cv_depth (m_script m 0) = Suc d" using r(7) by (cases "cv_depth (m_script m 0)") auto
  define cm where "cm = \<lparr>cacheDir = dir, cached = Map.empty, openFiles = Map.empty, cm_nextHandle = 0\<rparr>"
  define c where "c = \<lparr>connOpen = False, stub = [], cache = cm, clientId = ?cid, reqSeq = 0,
    serverAddrs = addrs, c_primaryAddr = [], files = fs\<rparr>"
  define s0 where "s0 = \<lparr>s_client = c, s_cl = cl, s_calls = 0, s_now = now\<rparr>"
  define h' where "h' = h\<lparr>lastHeartbeat := now\<rparr>"
  define s2 where "s2 = s0\<lparr>s_calls := 2, s_cl := cl(a \<mapsto> h')\<rparr>"
  have gp: "GetPrimary (Suc d) (cv_up (m_script m 0)) 2000 a (cl, now) = (Some a, cl, now)"
    by (simp add: r(6) h GetPrimary_handler_def)
  have env: "cv_link (m_script m j) = LinkUp" "cv_before (m_script m j) = (\<lambda>cl. cl)" for j
    using r(1) by (simp_all add: calm_def)
  have g: "call_GetPrimary m a s0 = (Some a, s0\<lparr>s_calls := 1\<rparr>)"
    using gp by (simp add: call_GetPrimary_def begin_call_def Let_def env s0_def d del: GetPrimary.simps)
  have hb: "call_Heartbeat m a (s0\<lparr>s_calls := 1\<rparr>) = (Inr True, s2)"
    unfolding call_Heartbeat_def
    by (subst calm_call [OF r(1), of _ a h])
      (simp_all add: s0_def s2_def h on_server_def serve_def Heartbeat_same h'_def numeral_2_eq_2)
  let ?s = "on_client (\<lambda>c. c\<lparr>connOpen := True, stub := a, c_primaryAddr := a\<rparr>) s2"
  have "connectToPrimary m s0 = (True, ?s)"
    using g hb r(3,5) by (simp add: connectToPrimary_def s0_def [symmetric] addrs) (simp add: s0_def c_def addrs)
  then have "NewClient m pid nanos addrs dir fs cl now = Inr ?s"
    using r(1) by (simp add: NewClient_def newCacheManager_def calm_env s0_def c_def cm_def addrs)
  moreover have sf: "same_files h h'" by (simp add: h'_def same_files_def same_role_def)
  moreover have "no_entry a ?cid q (cl(a \<mapsto> h'))" for q
    using r(8) [of q] h(1) by (simp add: no_entry_def h'_def)
  then have "linked a k ?s"
    using assms(2) same_files_ok [OF r(2) h(1) sf]
    by (simp add: linked_def on_client_def s2_def s0_def c_def cm_def cm_ok_def)
  ultimately show ?thesis
    using h(1) by (intro exI [of _ ?s] exI [of _ h] exI [of _ h']) (simp add: on_client_def s2_def s0_def c_def cm_def)
qed

section \<open>Create, write, close\<close>

lemma write_cycle:
  assumes "calm m" "linked a (Suc (Suc k)) s" "good_name n" "view (the (s_cl s a)) n = None" "b \<noteq> []"
  shows "\<exists>hid s1 s2 s3. CreateFile m n s = (Inr hid, s1) \<and> Write m hid b s1 = (Inr (length b), s2) \<and>
    Close m hid s2 = (None, s3) \<and> linked a k s3 \<and> all_change a (Put [] 1) n (s_cl s) (s_cl s2) \<and>
    all_change a (Put b 2) n (s_cl s2) (s_cl s3)"
proof -
  obtain hid s1 where c: "CreateFile m n s = (Inr hid, s1)" "linked a (Suc k) s1"
      "all_change a (Put [] 1) n (s_cl s) (s_cl s1)" "opened n True [] 1 s hid s1"
    using CreateFile_calm [OF assms(1-4)] by blast
  obtain i sh where e: "openFiles (cache (s_client s1)) hid =
        Some \<lparr>localFd = \<lparr>fd_inode = i, fd_off = 0, fd_write = True\<rparr>, dirty = False, serverHandleID = sh, oe_path = n\<rparr>"
      "inodes (files (s_client s1)) i = []" "names (files (s_client s1)) (localPath (cache (s_client s1)) n) = Some i"
    using c(4) by (auto simp: opened_def)
  define s2 where "s2 = snd (Write m hid b s1)"
  define e' where "e' = \<lparr>localFd = \<lparr>fd_inode = i, fd_off = length b, fd_write = True\<rparr>, dirty = True,
    serverHandleID = sh, oe_path = n\<rparr>"
  define cm2 where "cm2 = (cache (s_client s1))\<lparr>openFiles := (openFiles (cache (s_client s1)))(hid \<mapsto> e')\<rparr>"
  have w: "Write m hid b s1 = (Inr (length b), s2)" and s2: "s_cl s2 = s_cl s1"
      "s_client s2 = (s_client s1)\<lparr>cache := cm2, files := (files (s_client s1))\<lparr>inodes :=
        (inodes (files (s_client s1)))(i := b)\<rparr>\<rparr>"
    using Write_calm [OF assms(1) e(1), of b] e(2)
    by (simp_all add: s2_def on_cache_def on_files_def on_client_def e'_def cm2_def write_at_def)
  have op: "openFiles (cache (s_client s2)) hid = Some e'" by (simp add: s2 cm2_def)
  have ct: "lf_content (files (s_client s2)) (localPath (cache (s_client s2)) n) = Some b"
    using e(3) by (simp add: s2 cm2_def lf_content_def localPath_def)
  have l2: "linked a (Suc k) s2"
  proof -
    have "cm_ok cm2" using c(2) e(1) by (auto simp: cm_ok_def linked_def cm2_def)
    then show ?thesis using c(2) by (simp add: linked_def s2) (simp add: cm2_def)
  qed
  obtain h h1 where h: "s_cl s a = Some h" "s_cl s1 a = Some h1" "view h1 n = Some ([], 1)"
  proof -
    obtain h where h: "s_cl s a = Some h" using assms(2) by (rule linkedD)
    then have "a \<in> replicas a (s_cl s)" by (simp add: replicas_def)
    from all_changeD [OF c(3) this] show thesis using that h assms(3) by auto
  qed
  have v: "next_version a (s_cl s2) n = 2"
    using next_version_view [of "s_cl s2" a h1 n "[]" 1] h by (simp add: s2 i64_add_1)
  obtain s3 where "Close m hid s2 = (None, s3)" "linked a k s3" "all_change a (Put b 2) n (s_cl s2) (s_cl s3)"
    using Close_calm [OF assms(1) l2 op, of n b] assms(3,5) ct v by (auto simp: e'_def)
  then show ?thesis using c(1,3) w s2(1) by metis
qed

text \<open>
  C11: On a machine and a cluster without faults, a client connected to the primary creates a name
  the primary does not have, writes some bytes and closes the file. Then every replica holds
  these bytes with version 2 and every other file as it was; and a client connected to the
  same primary that opens the file next, and has no local copy of it or one of another
  version, reads exactly these bytes. (A client with a copy of version 2 from an earlier life of
  the name reads that copy instead.)
\<close>

theorem written_file_is_read_back:
  assumes "calm m" "linked a (Suc (Suc k)) s" "good_name n" "b \<noteq> []"
    and "s_cl s a = Some h" "view h n = None" "output_only h n"
  shows "\<exists>hid s1 s2 s3. CreateFile m n s = (Inr hid, s1) \<and> Write m hid b s1 = (Inr (length b), s2) \<and>
    Close m hid s2 = (None, s3) \<and> linked a k s3 \<and>
    (\<forall>r \<in> replicas a (s_cl s). \<exists>g g'. s_cl s r = Some g \<and> s_cl s3 r = Some g' \<and>
      (\<forall>x. good_name x \<longrightarrow> view g' x = ((view g)(n \<mapsto> (b, 2))) x)) \<and>
    (\<forall>m' t j N wr. calm m' \<longrightarrow> s_cl t = s_cl s3 \<longrightarrow> linked a (Suc j) t \<longrightarrow>
      map_option cachedVersion (cached (cache (s_client t)) n) \<noteq> Some 2 \<longrightarrow> length b \<le> N \<longrightarrow>
      (\<exists>hid' t'. Open m' n wr t = (Inr hid', t') \<and> fst (Read m' hid' N t') = Inr (b, False)))"
proof -
  have "view (the (s_cl s a)) n = None" using assms(5,6) by simp
  from write_cycle [OF assms(1-3) this assms(4)] obtain hid s1 s2 s3 where
    c: "CreateFile m n s = (Inr hid, s1)" "Write m hid b s1 = (Inr (length b), s2)"
      "Close m hid s2 = (None, s3)" "linked a k s3" "all_change a (Put [] 1) n (s_cl s) (s_cl s2)"
      "all_change a (Put b 2) n (s_cl s2) (s_cl s3)" by blast
  have ok: "cluster_ok a (s_cl s)" using assms(2) by (simp add: linked_def)
  note rep = all_change_ok [OF c(5) ok]
  have views: "\<exists>g g'. s_cl s r = Some g \<and> s_cl s3 r = Some g' \<and> server_ok g' \<and>
      (\<forall>x. good_name x \<longrightarrow> view g' x = ((view g)(n \<mapsto> (b, 2))) x)" if r: "r \<in> replicas a (s_cl s)" for r
  proof -
    obtain g g1 where g: "s_cl s r = Some g" "s_cl s2 r = Some g1"
        "\<And>m. good_name m \<Longrightarrow> view g1 m = apply_change (Put [] 1) n (view g) m"
      using all_changeD [OF c(5) r] by blast
    obtain g' where g': "s_cl s3 r = Some g'" "server_ok g'"
        "\<And>m. good_name m \<Longrightarrow> view g' m = apply_change (Put b 2) n (view g1) m"
      using all_changeD [OF c(6) r [folded rep(2)]] g(2) by auto
    then show ?thesis using g by (intro exI [of _ g] exI [of _ g']) auto
  qed
  have a: "a \<in> replicas a (s_cl s)" using assms(5) by (simp add: replicas_def)
  obtain h3 where h3: "s_cl s3 a = Some h3" "server_ok h3" "view h3 n = Some (b, 2)"
    using views [OF a] assms(3) by auto
  obtain h2 where h2: "s_cl s2 a = Some h2" "server_ok h2" using rep(1) by (rule cluster_okD)
  have "server_ok h" using ok assms(5) by (auto elim: cluster_okD)
  then have "output_only h3 n"
    using output_only_change [OF c(5) assms(5) h2(1) assms(7)] output_only_change [OF c(6) h2(1) h3(1) _ h2(2)]
      good_ordinary [OF assms(3)] by blast
  note sv = output_only_served [OF h3(2) assms(3) this h3(3)]
  have "\<exists>hid' t'. Open m' n wr t = (Inr hid', t') \<and> fst (Read m' hid' N t') = Inr (b, False)"
    if t: "calm m'" "s_cl t = s_cl s3" "linked a (Suc j) t" "map_option cachedVersion (cached (cache (s_client t)) n) \<noteq> Some 2" "length b \<le> N"
    for m' t j N wr
  proof -
    have "s_cl t a = Some h3" using t(2) h3(1) by simp
    moreover have "cached (cache (s_client t)) n = None \<or>
        (\<exists>e. cached (cache (s_client t)) n = Some e \<and> cachedVersion e \<noteq> 2) \<or> local_copy t n = Some ([], 2)"
      using t(4) by (cases "cached (cache (s_client t)) n") auto
    ultimately have "\<exists>hid' t' h'. Open m' n wr t = (Inr hid', t') \<and>
        (if map_option cachedVersion (cached (cache (s_client t)) n) = Some 2 then opened n wr [] 2 t hid' t'
         else opened n wr b (if b = [] \<or> (2::i64) \<le> 0 then 0 else 2) t hid' t')"
      using Open_calm [OF t(1,3) _ sv, of "[]" wr] by blast
    then have "\<exists>hid' t'. Open m' n wr t = (Inr hid', t') \<and> opened n wr b 2 t hid' t'"
      using assms(4) unfolding if_not_P [OF t(4)] by simp
    then
    obtain hid' t' where o: "Open m' n wr t = (Inr hid', t')" "opened n wr b 2 t hid' t'" by blast
    then show ?thesis using Read_calm [OF t(1) o(2) t(5)] assms(4) by auto
  qed
  then have rd: "\<forall>m' t j N wr. calm m' \<longrightarrow> s_cl t = s_cl s3 \<longrightarrow> linked a (Suc j) t \<longrightarrow>
      map_option cachedVersion (cached (cache (s_client t)) n) \<noteq> Some 2 \<longrightarrow> length b \<le> N \<longrightarrow>
      (\<exists>hid' t'. Open m' n wr t = (Inr hid', t') \<and> fst (Read m' hid' N t') = Inr (b, False))" by blast
  have vs: "\<forall>r \<in> replicas a (s_cl s). \<exists>g g'. s_cl s r = Some g \<and> s_cl s3 r = Some g' \<and>
      (\<forall>x. good_name x \<longrightarrow> view g' x = ((view g)(n \<mapsto> (b, 2))) x)" using views by blast
  show ?thesis
    by (intro exI [of _ hid] exI [of _ s1] exI [of _ s2] exI [of _ s3]) (intro conjI c(1-4) vs rd)
qed

text \<open>A client of the deployment, connected to its first primary.\<close>

definition compose_client :: Client where
  "compose_client = \<lparr>connOpen = True, stub = ''s1:50051'',
     cache = \<lparr>cacheDir = ''/cache'', cached = Map.empty, openFiles = Map.empty, cm_nextHandle = 0\<rparr>,
     clientId = ''client-1-1'', reqSeq = 0, serverAddrs = [''s1:50051'', ''s2:50052'', ''s3:50053''],
     c_primaryAddr = ''s1:50051'', files = \<lparr>names = Map.empty, inodes = (\<lambda>_. []), next_inode = 0\<rparr>\<rparr>"

definition compose_session :: session where
  "compose_session = \<lparr>s_client = compose_client, s_cl = compose, s_calls = 0, s_now = 0\<rparr>"

definition calm_machine :: machine where
  "calm_machine = \<lparr>m_script = (\<lambda>k. \<lparr>cv_env = healthy, cv_link = LinkUp, cv_before = (\<lambda>cl. cl),
     cv_up = (\<lambda>_. True), cv_depth = 3\<rparr>), m_dial = (\<lambda>_. True), m_flt = no_faults\<rparr>"

lemma calm_machine_calm: "calm calm_machine"
  by (simp add: calm_def calm_machine_def)

lemma compose_linked: "int k < 2 ^ 63 \<Longrightarrow> linked ''s1:50051'' k compose_session"
  using compose_ok compose_no_entry
  by (simp add: linked_def compose_session_def compose_client_def cm_ok_def)

lemma compose_output_only:
  "view (compose_server compose_disk i p r) ''primes.txt'' = None"
  "output_only (compose_server compose_disk i p r) ''primes.txt''"
proof -
  have d: "dir_prefix ''/data/input'' = ''/data/input/''" "dir_prefix ''/data/output'' = ''/data/output/''"
    "path_Join ''/data/input'' ''primes.txt'' = ''/data/input/primes.txt''" "path_Base ''primes.txt'' = ''primes.txt''"
    "path_Join ''/data/output'' ''primes.txt'' = ''/data/output/primes.txt''" by code_simp+
  show "view (compose_server compose_disk i p r) ''primes.txt'' = None"
    "output_only (compose_server compose_disk i p r) ''primes.txt''"
    by (simp_all add: view_def output_only_def outPath_def d compose_disk_def)
qed

theorem written_file_is_read_back_witness:
  "\<exists>hid s1 s2 s3 hid' t'. CreateFile calm_machine ''primes.txt'' compose_session = (Inr hid, s1) \<and>
    Write calm_machine hid ''2'' s1 = (Inr 1, s2) \<and> Close calm_machine hid s2 = (None, s3) \<and>
    Open calm_machine ''primes.txt'' False (on_cache (dropCacheEntry ''primes.txt'') s3) = (Inr hid', t') \<and>
    fst (Read calm_machine hid' 512 t') = Inr (''2'', False)"
proof -
  let ?h = "compose_server compose_disk ''s1'' ''s1:50051'' True"
  have h: "s_cl compose_session ''s1:50051'' = Some ?h" by (simp add: compose_session_def compose_def)
  have l: "linked ''s1:50051'' (Suc (Suc (Suc 0))) compose_session" by (rule compose_linked) simp
  have ne: "''2'' \<noteq> []" by simp
  obtain hid s1 s2 s3 where c: "CreateFile calm_machine ''primes.txt'' compose_session = (Inr hid, s1)"
      "Write calm_machine hid ''2'' s1 = (Inr (length ''2''), s2)" "Close calm_machine hid s2 = (None, s3)"
      "linked ''s1:50051'' (Suc 0) s3"
      "\<forall>m' t j N wr. calm m' \<longrightarrow> s_cl t = s_cl s3 \<longrightarrow> linked ''s1:50051'' (Suc j) t \<longrightarrow>
        map_option cachedVersion (cached (cache (s_client t)) ''primes.txt'') \<noteq> Some 2 \<longrightarrow> length ''2'' \<le> N \<longrightarrow>
        (\<exists>hid' t'. Open m' ''primes.txt'' wr t = (Inr hid', t') \<and> fst (Read m' hid' N t') = Inr (''2'', False))"
    using written_file_is_read_back [OF calm_machine_calm l primes_txt_good ne h compose_output_only] by blast
  define t where "t = on_cache (dropCacheEntry ''primes.txt'') s3"
  have "linked ''s1:50051'' (Suc 0) t" "s_cl t = s_cl s3" "cached (cache (s_client t)) ''primes.txt'' = None"
    using c(4) by (simp_all add: t_def linked_def on_cache_def on_client_def dropCacheEntry_def cm_ok_def)
  then have "\<exists>hid' t'. Open calm_machine ''primes.txt'' False t = (Inr hid', t') \<and>
      fst (Read calm_machine hid' 512 t') = Inr (''2'', False)"
    using c(5) [rule_format, OF calm_machine_calm, of t 0 512 False] by simp
  moreover have "Write calm_machine hid ''2'' s1 = (Inr 1, s2)" using c(2) by simp
  ultimately show ?thesis using c(1,3) unfolding t_def by blast
qed

end
