(* ===== verification/Json.thy ===== *)
theory Json
  imports Go_Strings
begin

text \<open>
  \<open>encoding/json\<close> as the snapshots use it: \<open>json.Marshal\<close> writes objects, arrays, strings,
  integers and \<open>null\<close> without white space, \<open>json.Unmarshal\<close> reads them back. Strings are
  escaped as \<open>Marshal\<close> does with its default HTML escaping; what is not UTF-8 is replaced by
  U+FFFD on both sides. \<open>true\<close>, \<open>false\<close> and fractions do not occur in what the program writes
  and are errors here.
\<close>

datatype json = JNull | JInt int | JStr string | JArr "json list" | JObj "(string \<times> json) list"

section \<open>Writing\<close>

definition hex_char :: "nat \<Rightarrow> char" where
  "hex_char d = (if d < 10 then char_of (48 + d) else char_of (87 + d))"

definition print_char :: "char \<Rightarrow> string" where
  "print_char c =
     (let n = of_char c :: nat
      in if c = CHR 0x22 \<or> c = CHR 0x5C then [CHR 0x5C, c]
         else if n = 8 then [CHR 0x5C, CHR ''b'']
         else if n = 12 then [CHR 0x5C, CHR ''f'']
         else if n = 10 then [CHR 0x5C, CHR ''n'']
         else if n = 13 then [CHR 0x5C, CHR ''r'']
         else if n = 9 then [CHR 0x5C, CHR ''t'']
         else if n < 32 \<or> c \<in> {CHR ''<'', CHR ''>'', CHR ''&''}
         then [CHR 0x5C, CHR ''u'', CHR ''0'', CHR ''0'', hex_char (n div 16), hex_char (n mod 16)]
         else [c])"

text \<open>
  A Go string is a byte sequence; \<open>utf8.DecodeRune\<close> reads the code point at its front.
  \<open>utf8_width\<close> is the number of bytes it takes, by the table of accepted ranges of
  \<open>unicode/utf8\<close>, and 0 where the bytes are not UTF-8 (the decoder then gives \<open>RuneError\<close> and
  consumes one byte). \<open>runes\<close> splits a string this way; \<open>None\<close> is an invalid byte.
\<close>

definition byte_in :: "nat \<Rightarrow> nat \<Rightarrow> string \<Rightarrow> bool" where
  "byte_in lo hi s = (case s of [] \<Rightarrow> False | c # _ \<Rightarrow> lo \<le> (of_char c :: nat) \<and> (of_char c :: nat) \<le> hi)"

definition second_ok :: "string \<Rightarrow> bool" where
  "second_ok s =
     (if byte_in 0xE0 0xE0 s then byte_in 0xA0 0xBF (drop 1 s)
      else if byte_in 0xED 0xED s then byte_in 0x80 0x9F (drop 1 s)
      else if byte_in 0xF0 0xF0 s then byte_in 0x90 0xBF (drop 1 s)
      else if byte_in 0xF4 0xF4 s then byte_in 0x80 0x8F (drop 1 s)
      else byte_in 0x80 0xBF (drop 1 s))"

definition utf8_width :: "string \<Rightarrow> nat" where
  "utf8_width s =
     (if byte_in 0 0x7F s then 1
      else if byte_in 0xC2 0xDF s \<and> second_ok s then 2
      else if byte_in 0xE0 0xEF s \<and> second_ok s \<and> byte_in 0x80 0xBF (drop 2 s) then 3
      else if byte_in 0xF0 0xF4 s \<and> second_ok s \<and> byte_in 0x80 0xBF (drop 2 s) \<and> byte_in 0x80 0xBF (drop 3 s) then 4
      else 0)"

function runes :: "string \<Rightarrow> string option list" where
  "runes [] = []"
| "runes (c # cs) =
     (if utf8_width (c # cs) = 0 then None # runes cs
      else Some (take (utf8_width (c # cs)) (c # cs)) # runes (drop (utf8_width (c # cs)) (c # cs)))"
  by pat_completeness auto
termination
  by (relation "measure length") auto

text \<open>
  An invalid byte is written as the escape of U+FFFD, the line separators U+2028 and U+2029 as
  escapes, ASCII by \<open>print_char\<close>, every other code point as its bytes.
\<close>

definition print_rune :: "string option \<Rightarrow> string" where
  "print_rune r =
     (case r of
        None \<Rightarrow> CHR 0x5C # ''ufffd''
      | Some u \<Rightarrow>
          if u = [CHR 0xE2, CHR 0x80, CHR 0xA8] then CHR 0x5C # ''u2028''
          else if u = [CHR 0xE2, CHR 0x80, CHR 0xA9] then CHR 0x5C # ''u2029''
          else if length u = 1 then print_char (hd u) else u)"

definition print_str :: "string \<Rightarrow> string" where
  "print_str s = CHR 0x22 # concat (map print_rune (runes s)) @ [CHR 0x22]"

fun print_json :: "json \<Rightarrow> string" where
  "print_json JNull = ''null''"
| "print_json (JInt i) = show_int i"
| "print_json (JStr s) = print_str s"
| "print_json (JArr xs) = ''['' @ join_with '','' (map print_json xs) @ '']''"
| "print_json (JObj kvs) =
     CHR ''{'' # join_with '','' (map (\<lambda>(k, v). print_str k @ '':'' @ print_json v) kvs) @ [CHR ''}'']"

section \<open>Reading\<close>

definition is_ws :: "char \<Rightarrow> bool" where
  "is_ws c \<longleftrightarrow> c \<in> {CHR '' '', CHR 0x09, CHR 0x0A, CHR 0x0D}"

definition skip_ws :: "string \<Rightarrow> string" where
  "skip_ws = dropWhile is_ws"

definition hex_val :: "char \<Rightarrow> nat option" where
  "hex_val c =
     (let n = of_char c :: nat
      in if 48 \<le> n \<and> n \<le> 57 then Some (n - 48)
         else if 97 \<le> n \<and> n \<le> 102 then Some (n - 87)
         else if 65 \<le> n \<and> n \<le> 70 then Some (n - 55) else None)"

definition unescape :: "char \<Rightarrow> char option" where
  "unescape e =
     (if e \<in> {CHR 0x22, CHR 0x5C, CHR ''/''} then Some e
      else if e = CHR ''b'' then Some (CHR 0x08)
      else if e = CHR ''f'' then Some (CHR 0x0C)
      else if e = CHR ''n'' then Some (CHR 0x0A)
      else if e = CHR ''r'' then Some (CHR 0x0D)
      else if e = CHR ''t'' then Some (CHR 0x09) else None)"

text \<open>
  \<open>utf8.EncodeRune\<close>, and what follows \<open>\u\<close>: four hexadecimal digits, and for the first half of
  a surrogate pair a second escape. A half without its partner is read as U+FFFD.
\<close>

definition encode_rune :: "nat \<Rightarrow> string" where
  "encode_rune n =
     (if n < 0x80 then [char_of n]
      else if n < 0x800 then [char_of (0xC0 + n div 64), char_of (0x80 + n mod 64)]
      else if n < 0x10000 then
        [char_of (0xE0 + n div 4096), char_of (0x80 + n div 64 mod 64), char_of (0x80 + n mod 64)]
      else [char_of (0xF0 + n div 262144), char_of (0x80 + n div 4096 mod 64),
            char_of (0x80 + n div 64 mod 64), char_of (0x80 + n mod 64)])"

definition getu4 :: "string \<Rightarrow> nat option" where
  "getu4 ds =
     (case map hex_val (take 4 ds) of
        [Some a, Some b, Some c, Some d] \<Rightarrow> Some (4096 * a + 256 * b + 16 * c + d)
      | _ \<Rightarrow> None)"

definition next_u4 :: "string \<Rightarrow> nat option" where
  "next_u4 s = (if take 2 s = [CHR 0x5C, CHR ''u''] then getu4 (drop 2 s) else None)"

definition unescape_u :: "string \<Rightarrow> (string \<times> string) option" where
  "unescape_u s =
     (case getu4 s of
        None \<Rightarrow> None
      | Some n \<Rightarrow>
          if n < 0xD800 \<or> 0xE000 \<le> n then Some (encode_rune n, drop 4 s)
          else
            (case next_u4 (drop 4 s) of
               None \<Rightarrow> Some (encode_rune 0xFFFD, drop 4 s)
             | Some l \<Rightarrow>
                 if n < 0xDC00 \<and> 0xDC00 \<le> l \<and> l < 0xE000
                 then Some (encode_rune (0x10000 + 1024 * (n - 0xD800) + (l - 0xDC00)), drop 10 s)
                 else Some (encode_rune 0xFFFD, drop 4 s)))"

lemma unescape_u_length: "unescape_u s = Some (d, r) \<Longrightarrow> length r \<le> length s"
  by (auto simp: unescape_u_def split: option.splits if_splits)

text \<open>The rest of a string literal after its opening quote. Bytes that are not UTF-8 are read as U+FFFD.\<close>

function parse_str :: "string \<Rightarrow> (string \<times> string) option" where
  "parse_str [] = None"
| "parse_str (c # cs) =
     (if c = CHR 0x22 then Some ([], cs)
      else if c = CHR 0x5C then
        (case cs of
           [] \<Rightarrow> None
         | e # cs' \<Rightarrow>
             if e = CHR ''u'' then
               (case unescape_u cs' of
                  None \<Rightarrow> None
                | Some (d, r) \<Rightarrow> map_option (apfst ((@) (d))) (parse_str r))
             else
               (case unescape e of
                  None \<Rightarrow> None
                | Some d \<Rightarrow> map_option (apfst ((@) [d])) (parse_str cs')))
      else if (of_char c :: nat) < 32 then None
      else if utf8_width (c # cs) = 0 then map_option (apfst ((@) (encode_rune 0xFFFD))) (parse_str cs)
      else map_option (apfst ((@) (take (utf8_width (c # cs)) (c # cs))))
        (parse_str (drop (utf8_width (c # cs)) (c # cs))))"
  by pat_completeness auto
termination
  by (relation "measure length") (auto dest: unescape_u_length)

text \<open>An integer; a fraction or exponent after it is an error.\<close>

definition parse_nat :: "string \<Rightarrow> (nat \<times> string) option" where
  "parse_nat s =
     (let ds = takeWhile is_digit s; rest = dropWhile is_digit s
      in if ds = [] \<or> (1 < length ds \<and> hd ds = CHR ''0'') then None
         else if rest \<noteq> [] \<and> hd rest \<in> {CHR ''.'', CHR ''e'', CHR ''E''} then None
         else Some (digits_val 0 ds, rest))"

definition parse_int :: "string \<Rightarrow> (int \<times> string) option" where
  "parse_int s =
     (if s \<noteq> [] \<and> hd s = CHR ''-'' then map_option (apfst (\<lambda>n. - int n)) (parse_nat (tl s))
      else map_option (apfst int) (parse_nat s))"

text \<open>
  Values, the elements of an array up to its end, the members of an object up to its end. The
  first argument bounds the depth of the calls; \<open>parse_json\<close> starts with the length of the
  text, which is enough.
\<close>

fun parse_value :: "nat \<Rightarrow> string \<Rightarrow> (json \<times> string) option"
and parse_elems :: "nat \<Rightarrow> string \<Rightarrow> (json list \<times> string) option"
and parse_members :: "nat \<Rightarrow> string \<Rightarrow> ((string \<times> json) list \<times> string) option" where
  "parse_value 0 s = None"
| "parse_value (Suc k) s =
     (case skip_ws s of
        [] \<Rightarrow> None
      | c # cs \<Rightarrow>
          if c = CHR 0x22 then map_option (apfst JStr) (parse_str cs)
          else if c = CHR ''['' then
            (case skip_ws cs of
               [] \<Rightarrow> None
             | d # ds \<Rightarrow>
                 if d = CHR '']'' then Some (JArr [], ds)
                 else map_option (apfst JArr) (parse_elems k (d # ds)))
          else if c = CHR ''{'' then
            (case skip_ws cs of
               [] \<Rightarrow> None
             | d # ds \<Rightarrow>
                 if d = CHR ''}'' then Some (JObj [], ds)
                 else map_option (apfst JObj) (parse_members k (d # ds)))
          else if take 4 (c # cs) = ''null'' then Some (JNull, drop 4 (c # cs))
          else map_option (apfst JInt) (parse_int (c # cs)))"
| "parse_elems 0 s = None"
| "parse_elems (Suc k) s =
     (case parse_value k s of
        None \<Rightarrow> None
      | Some (v, r) \<Rightarrow>
          (case skip_ws r of
             [] \<Rightarrow> None
           | c # cs \<Rightarrow>
               if c = CHR '']'' then Some ([v], cs)
               else if c = CHR '','' then map_option (apfst (\<lambda>vs. v # vs)) (parse_elems k cs)
               else None))"
| "parse_members 0 s = None"
| "parse_members (Suc k) s =
     (case skip_ws s of
        [] \<Rightarrow> None
      | q # qs \<Rightarrow>
          if q \<noteq> CHR 0x22 then None
          else
            (case parse_str qs of
               None \<Rightarrow> None
             | Some (key, r1) \<Rightarrow>
                 (case skip_ws r1 of
                    [] \<Rightarrow> None
                  | col # r2 \<Rightarrow>
                      if col \<noteq> CHR '':'' then None
                      else
                        (case parse_value k r2 of
                           None \<Rightarrow> None
                         | Some (v, r3) \<Rightarrow>
                             (case skip_ws r3 of
                                [] \<Rightarrow> None
                              | c # cs \<Rightarrow>
                                  if c = CHR ''}'' then Some ([(key, v)], cs)
                                  else if c = CHR '','' then
                                    map_option (apfst (\<lambda>kvs. (key, v) # kvs)) (parse_members k cs)
                                  else None)))))"

definition parse_json :: "string \<Rightarrow> json option" where
  "parse_json s =
     (case parse_value (Suc (length s)) s of
        Some (j, r) \<Rightarrow> if skip_ws r = [] then Some j else None
      | None \<Rightarrow> None)"

section \<open>Reading back what was written\<close>

declare parse_str.simps(2) [simp del]

lemma hex_val_char: "d < 16 \<Longrightarrow> hex_val (hex_char d) = Some d"
  by (auto simp: hex_val_def hex_char_def of_char_of)

lemma getu4_char:
  assumes "n < 128"
  shows "getu4 ([CHR ''0'', CHR ''0'', hex_char (n div 16), hex_char (n mod 16)] @ r) = Some n"
proof -
  have "hex_val (CHR ''0'') = Some 0" by (simp add: hex_val_def)
  moreover have "16 * (n div 16) + n mod 16 = n" by simp
  ultimately show ?thesis using assms by (simp add: getu4_def hex_val_char)
qed

lemma unescape_u_char:
  assumes "n < 128"
  shows "unescape_u ([CHR ''0'', CHR ''0'', hex_char (n div 16), hex_char (n mod 16)] @ r) = Some ([char_of n], r)"
  unfolding unescape_u_def getu4_char [OF assms] using assms by (simp add: encode_rune_def)

definition short_escapes :: "(char \<times> char) list" where
  "short_escapes = [(CHR 0x22, CHR 0x22), (CHR 0x5C, CHR 0x5C), (CHR 0x08, CHR ''b''), (CHR 0x09, CHR ''t''),
     (CHR 0x0A, CHR ''n''), (CHR 0x0C, CHR ''f''), (CHR 0x0D, CHR ''r'')]"

lemma short_escapes_ok:
  "list_all (\<lambda>(c, x). print_char c = [CHR 0x5C, x] \<and> unescape x = Some c \<and> x \<noteq> CHR ''u'') short_escapes"
  by code_simp

lemma utf8_width_ascii: "(of_char c :: nat) < 128 \<Longrightarrow> utf8_width (c # cs) = 1"
  by (simp add: utf8_width_def byte_in_def)

lemma parse_print_char:
  assumes "(of_char c :: nat) < 128"
  shows "parse_str (print_char c @ r) = map_option (apfst ((@) ([c]))) (parse_str r)"
proof -
  define n where "n = (of_char c :: nat)"
  have c: "c = char_of n" and n: "n < 128" using assms by (simp_all add: n_def)
  have u: "parse_str ([CHR 0x5C, CHR ''u'', CHR ''0'', CHR ''0'', hex_char (n div 16), hex_char (n mod 16)] @ r) =
      map_option (apfst ((@) ([c]))) (parse_str r)"
    using unescape_u_char [OF n, of r] c by (simp add: parse_str.simps(2))
  have e: "parse_str ([CHR 0x5C, e] @ r) = map_option (apfst ((@) ([d]))) (parse_str r)"
    if "unescape e = Some d" "e \<noteq> CHR ''u''" for e d
    using that by (simp add: parse_str.simps(2))
  show ?thesis
  proof (cases "c = CHR 0x22 \<or> c = CHR 0x5C \<or> n \<in> {8, 9, 10, 12, 13}")
    case True
    have "char_of (8::nat) = CHR 0x08" "char_of (9::nat) = CHR 0x09" "char_of (10::nat) = CHR 0x0A"
      "char_of (12::nat) = CHR 0x0C" "char_of (13::nat) = CHR 0x0D" by code_simp+
    then obtain x where "(c, x) \<in> set short_escapes" using True c by (auto simp: short_escapes_def)
    then have "print_char c = [CHR 0x5C, x]" "unescape x = Some c" "x \<noteq> CHR ''u''"
      using short_escapes_ok by (force simp: list_all_iff)+
    then show ?thesis using e [of x c] by simp
  next
    case False
    show ?thesis
    proof (cases "n < 32 \<or> c \<in> {CHR ''<'', CHR ''>'', CHR ''&''}")
      case True
      then show ?thesis using u False by (simp add: print_char_def Let_def n_def [symmetric])
    next
      case False': False
      then have "print_char c = [c]" using False by (simp add: print_char_def Let_def n_def [symmetric])
      then show ?thesis using False False' assms by (simp add: parse_str.simps(2) n_def utf8_width_ascii)
    qed
  qed
qed

text \<open>
  Strings that are UTF-8 come back as they are; the others with every invalid byte replaced by
  U+FFFD.
\<close>

definition clean_rune :: "string option \<Rightarrow> string" where
  "clean_rune r = (case r of None \<Rightarrow> encode_rune 0xFFFD | Some u \<Rightarrow> u)"

definition utf8_clean :: "string \<Rightarrow> string" where
  "utf8_clean s = concat (map clean_rune (runes s))"

definition valid_utf8 :: "string \<Rightarrow> bool" where
  "valid_utf8 s \<longleftrightarrow> None \<notin> set (runes s)"

definition rune_ok :: "string \<Rightarrow> bool" where
  "rune_ok u \<longleftrightarrow> u \<noteq> [] \<and> utf8_width u = length u"

lemma byte_in_Cons [simp]: "byte_in lo hi (c # cs) \<longleftrightarrow> lo \<le> (of_char c :: nat) \<and> (of_char c :: nat) \<le> hi"
  "\<not> byte_in lo hi []"
  by (simp_all add: byte_in_def)

lemma byte_in_drop: "byte_in lo hi (drop i s) \<Longrightarrow> i < length s"
  by (rule ccontr) simp

lemma byte_in_take:
  assumes "i < w" "w \<le> length s"
  shows "byte_in lo hi (drop i (take w s @ r)) = byte_in lo hi (drop i s)"
proof -
  obtain c cs where "drop i s = c # cs" using assms by (cases "drop i s") auto
  moreover from this have "drop i (take w s @ r) = c # take (w - Suc i) cs @ r"
    using assms by (simp add: drop_take take_Cons' Suc_diff_Suc)
  ultimately show ?thesis by simp
qed

lemma utf8_width_range: "utf8_width s \<in> {0, 1, 2, 3, 4}"
  by (simp add: utf8_width_def)

lemma second_ok_drop: "second_ok s \<Longrightarrow> Suc 0 < length s"
  using byte_in_drop [of _ _ "Suc 0" s] by (simp add: second_ok_def split: if_splits)

lemma utf8_width_length: "utf8_width s \<le> length s"
  using byte_in_drop [of 0 127 0 s] byte_in_drop [of 128 191 2 s] byte_in_drop [of 128 191 3 s] second_ok_drop [of s]
  by (auto simp: utf8_width_def Suc_le_eq)

lemma utf8_width_same:
  assumes "\<And>lo hi. byte_in lo hi t = byte_in lo hi s" "1 < utf8_width s \<Longrightarrow> second_ok t = second_ok s"
    "2 < utf8_width s \<Longrightarrow> byte_in 0x80 0xBF (drop 2 t) = byte_in 0x80 0xBF (drop 2 s)"
    "3 < utf8_width s \<Longrightarrow> byte_in 0x80 0xBF (drop 3 t) = byte_in 0x80 0xBF (drop 3 s)" "utf8_width s \<noteq> 0"
  shows "utf8_width t = utf8_width s"
  using assms(2-5) unfolding utf8_width_def assms(1) by (simp split: if_splits)

lemma utf8_width_append:
  assumes "utf8_width s = w" "w \<noteq> 0"
  shows "utf8_width (take w s @ r) = w"
proof -
  let ?t = "take w s @ r"
  have l: "w \<le> length s" using utf8_width_length [of s] assms(1) by simp
  have b: "byte_in lo hi (drop i ?t) = byte_in lo hi (drop i s)" if "i < w" for lo hi i
    using that l by (rule byte_in_take)
  have "utf8_width ?t = utf8_width s"
  proof (rule utf8_width_same)
    show b0: "byte_in lo hi ?t = byte_in lo hi s" for lo hi using b [of 0] assms(2) by simp
    show "second_ok ?t = second_ok s" if "1 < utf8_width s"
      unfolding second_ok_def b0 using b [of 1] that assms(1) by simp
  qed (use assms b in auto)
  then show ?thesis using assms(1) by simp
qed

lemma rune_ok_take: "utf8_width s = w \<Longrightarrow> w \<noteq> 0 \<Longrightarrow> rune_ok (take w s)"
  using utf8_width_append [of s w "[]"] utf8_width_length [of s] by (auto simp: rune_ok_def)

lemma runes_ok: "Some u \<in> set (runes s) \<Longrightarrow> rune_ok u"
  by (induction s rule: runes.induct) (auto simp: rune_ok_take split: if_splits)

lemma rune_ok_hd: "rune_ok u \<Longrightarrow> \<exists>c cs. u = c # cs \<and> (length u = 1 \<longleftrightarrow> (of_char c :: nat) < 128)"
  by (cases u) (auto simp: rune_ok_def utf8_width_def split: if_splits)

lemma utf8_width_rune: "rune_ok u \<Longrightarrow> utf8_width (u @ r) = length u"
  using utf8_width_append [of u "length u" r] by (simp add: rune_ok_def)

lemma parse_str_rune:
  assumes "rune_ok u" "length u \<noteq> 1"
  shows "parse_str (u @ r) = map_option (apfst ((@) (u))) (parse_str r)"
proof -
  obtain c cs where u: "u = c # cs" and c: "\<not> (of_char c :: nat) < 128"
    using rune_ok_hd [OF assms(1)] assms(2) by auto
  have w: "utf8_width (c # cs @ r) = length u" using utf8_width_rune [OF assms(1), of r] by (simp add: u)
  have "c \<noteq> CHR 0x22" "c \<noteq> CHR 0x5C" "\<not> (of_char c :: nat) < 32" using c by auto
  then have "parse_str (c # cs @ r) = map_option (apfst ((@) (take (length u) (c # cs @ r))))
      (parse_str (drop (length u) (c # cs @ r)))"
    by (subst parse_str.simps(2)) (simp add: w u)
  then show ?thesis by (simp add: u)
qed

lemma escapes_read:
  "unescape_u (''fffd'' @ r) = Some (encode_rune 0xFFFD, r)"
  "unescape_u (''2028'' @ r) = Some ([CHR 0xE2, CHR 0x80, CHR 0xA8], r)"
  "unescape_u (''2029'' @ r) = Some ([CHR 0xE2, CHR 0x80, CHR 0xA9], r)"
  by (simp_all add: unescape_u_def getu4_def hex_val_def encode_rune_def, code_simp+)

lemma parse_print_rune:
  assumes "\<And>u. x = Some u \<Longrightarrow> rune_ok u"
  shows "parse_str (print_rune x @ r) = map_option (apfst ((@) (clean_rune x))) (parse_str r)"
proof (cases x)
  case None
  then show ?thesis
    using escapes_read(1) [of r] by (simp add: print_rune_def clean_rune_def parse_str.simps(2))
next
  case (Some u)
  then have u: "rune_ok u" using assms by blast
  consider "u = [CHR 0xE2, CHR 0x80, CHR 0xA8]" | "u = [CHR 0xE2, CHR 0x80, CHR 0xA9]"
    | "u \<noteq> [CHR 0xE2, CHR 0x80, CHR 0xA8]" "u \<noteq> [CHR 0xE2, CHR 0x80, CHR 0xA9]" by blast
  then show ?thesis
  proof cases
    case 1
    then show ?thesis using Some escapes_read(2) [of r] by (simp add: print_rune_def clean_rune_def parse_str.simps(2))
  next
    case 2
    then show ?thesis using Some escapes_read(3) [of r] by (simp add: print_rune_def clean_rune_def parse_str.simps(2))
  next
    case 3
    obtain c cs where c: "u = c # cs" "length u = 1 \<longleftrightarrow> (of_char c :: nat) < 128" using rune_ok_hd [OF u] by blast
    show ?thesis
    proof (cases "length u = 1")
      case True
      then show ?thesis using Some 3 c parse_print_char [of c r] by (simp add: print_rune_def clean_rune_def)
    next
      case False
      then show ?thesis using Some 3 parse_str_rune [OF u] by (simp add: print_rune_def clean_rune_def)
    qed
  qed
qed

lemma parse_print_runes:
  "(\<And>u. Some u \<in> set xs \<Longrightarrow> rune_ok u) \<Longrightarrow>
   parse_str (concat (map print_rune xs) @ CHR 0x22 # r) = Some (concat (map clean_rune xs), r)"
proof (induction xs)
  case Nil
  then show ?case by (simp add: parse_str.simps(2))
next
  case (Cons x xs)
  then show ?case using parse_print_rune [of x "concat (map print_rune xs) @ CHR 0x22 # r"] by simp
qed

lemma parse_print_str: "parse_str (concat (map print_rune (runes s)) @ CHR 0x22 # r) = Some (utf8_clean s, r)"
  unfolding utf8_clean_def by (rule parse_print_runes) (rule runes_ok)

lemma utf8_clean_valid: "valid_utf8 s \<Longrightarrow> utf8_clean s = s"
  unfolding valid_utf8_def utf8_clean_def by (induction s rule: runes.induct) (auto simp: clean_rune_def split: if_splits)

lemma runes_append: "rune_ok u \<Longrightarrow> runes (u @ r) = Some u # runes r"
  using utf8_width_rune [of u r] by (cases u) (auto simp: rune_ok_def)

lemma clean_rune_ok: "(\<And>u. x = Some u \<Longrightarrow> rune_ok u) \<Longrightarrow> rune_ok (clean_rune x)"
  by (cases x) (simp_all add: clean_rune_def rune_ok_def encode_rune_def utf8_width_def second_ok_def)

lemma utf8_clean_is_valid: "valid_utf8 (utf8_clean s)"
proof -
  have "(\<And>u. Some u \<in> set xs \<Longrightarrow> rune_ok u) \<Longrightarrow> None \<notin> set (runes (concat (map clean_rune xs)))" for xs
    by (induction xs) (auto simp: runes_append clean_rune_ok)
  then show ?thesis unfolding valid_utf8_def utf8_clean_def using runes_ok by blast
qed

definition ascii :: "string \<Rightarrow> bool" where
  "ascii s \<longleftrightarrow> list_all (\<lambda>c. (of_char c :: nat) < 128) s"

lemma runes_ascii: "ascii s \<Longrightarrow> runes s = map (\<lambda>c. Some [c]) s"
  by (induction s) (simp_all add: ascii_def utf8_width_ascii)

lemma ascii_valid: "ascii s \<Longrightarrow> valid_utf8 s"
  by (auto simp: valid_utf8_def runes_ascii)

fun clean_json :: "json \<Rightarrow> json" where
  "clean_json JNull = JNull"
| "clean_json (JInt i) = JInt i"
| "clean_json (JStr s) = JStr (utf8_clean s)"
| "clean_json (JArr xs) = JArr (map clean_json xs)"
| "clean_json (JObj kvs) = JObj (map (\<lambda>(k, v). (utf8_clean k, clean_json v)) kvs)"

text \<open>What may follow a value: not a character that would continue a number.\<close>

definition ends_number :: "string \<Rightarrow> bool" where
  "ends_number r \<longleftrightarrow> r = [] \<or> (\<not> is_digit (hd r) \<and> hd r \<notin> {CHR ''.'', CHR ''e'', CHR ''E''})"

lemma show_nat_no_zero: "show_nat n = CHR ''0'' # cs \<Longrightarrow> cs = []"
proof (induction n arbitrary: cs rule: show_nat.induct)
  case (1 n)
  show ?case
  proof (cases "n < 10")
    case False
    then have e: "show_nat (n div 10) @ [digit_char (n mod 10)] = CHR ''0'' # cs"
      using 1(2) by (simp add: show_nat.simps [of n])
    then obtain ds where ds: "show_nat (n div 10) = CHR ''0'' # ds" by (cases "show_nat (n div 10)") auto
    then have "ds = []" using 1(1) False by blast
    then have "digits_val 0 (show_nat (n div 10)) = 0" by (simp add: ds digit_val_def)
    then show ?thesis using False by (simp add: digits_val_show)
  qed (use 1(2) in \<open>simp add: show_nat.simps [of n]\<close>)
qed

lemma parse_nat_show: "ends_number r \<Longrightarrow> parse_nat (show_nat n @ r) = Some (n, r)"
proof -
  assume r: "ends_number r"
  have t: "takeWhile is_digit (show_nat n @ r) = show_nat n" "dropWhile is_digit (show_nat n @ r) = r"
    using show_nat_digits [of n] r
    by (cases r; simp add: takeWhile_append2 dropWhile_append2 ends_number_def)+
  have z: "\<not> (1 < length (show_nat n) \<and> hd (show_nat n) = CHR ''0'')"
    using show_nat_no_zero [of n] by (cases "show_nat n") auto
  show ?thesis using z r by (auto simp: parse_nat_def t Let_def digits_val_show ends_number_def)
qed

lemma show_int_hd: "\<exists>c cs. show_int i = c # cs \<and> (is_digit c \<or> c = CHR ''-'')"
  using show_nat_digits [of "nat i"] by (cases "show_nat (nat i)") (auto simp: show_int_def)

lemma parse_int_show: "ends_number r \<Longrightarrow> parse_int (show_int i @ r) = Some (i, r)"
proof (cases "i < 0")
  case True
  assume "ends_number r"
  then show ?thesis using True by (simp add: parse_int_def show_int_def parse_nat_show)
next
  case False
  assume r: "ends_number r"
  obtain c cs where c: "show_nat (nat i) = c # cs" "is_digit c"
    using show_nat_digits [of "nat i"] by (cases "show_nat (nat i)") auto
  then have "c \<noteq> CHR ''-''" by (auto simp: is_digit_def)
  then have "parse_int (show_nat (nat i) @ r) = map_option (apfst int) (parse_nat (show_nat (nat i) @ r))"
    by (simp add: parse_int_def c)
  then show ?thesis using False r by (simp add: show_int_def parse_nat_show)
qed

lemma print_hd: "\<exists>c cs. print_json j = c # cs \<and> \<not> is_ws c \<and> c \<noteq> CHR '']'' \<and> c \<noteq> CHR ''}''"
proof (cases j)
  case (JInt i)
  then show ?thesis using show_int_hd [of i] by (auto simp: is_ws_def is_digit_def)
qed (auto simp: is_ws_def print_str_def)

lemma skip_ws_print: "skip_ws (print_json j @ r) = print_json j @ r"
  using print_hd [of j] by (auto simp: skip_ws_def)

lemma skip_ws_hd [simp]: "\<not> is_ws c \<Longrightarrow> skip_ws (c # cs) = c # cs"
  by (simp add: skip_ws_def)

lemma no_ws [simp]: "\<not> is_ws (CHR '']'')" "\<not> is_ws (CHR ''}'')" "\<not> is_ws (CHR '','')" "\<not> is_ws (CHR '':'')"
  "\<not> is_ws (CHR 0x22)" "\<not> is_ws (CHR ''['')" "\<not> is_ws (CHR ''{'')" "\<not> is_ws (CHR ''n'')"
  by (simp_all add: is_ws_def)

lemma ends_number_punct [simp]:
  "ends_number (CHR '']'' # r)" "ends_number (CHR ''}'' # r)" "ends_number (CHR '','' # r)" "ends_number []"
  by (simp_all add: ends_number_def is_digit_def)

definition reads_back :: "json \<Rightarrow> bool" where
  "reads_back j \<longleftrightarrow> (\<forall>k r. length (print_json j) < k \<longrightarrow> ends_number r \<longrightarrow>
     parse_value k (print_json j @ r) = Some (clean_json j, r))"

lemma reads_backD:
  "reads_back j \<Longrightarrow> length (print_json j) < k \<Longrightarrow> ends_number r \<Longrightarrow>
   parse_value k (print_json j @ r) = Some (clean_json j, r)"
  by (simp add: reads_back_def)

lemma parse_elems_print:
  "xs \<noteq> [] \<Longrightarrow> \<forall>x \<in> set xs. reads_back x \<Longrightarrow> Suc (length (join_with '','' (map print_json xs))) < k \<Longrightarrow>
   parse_elems k (join_with '','' (map print_json xs) @ CHR '']'' # r) = Some (map clean_json xs, r)"
proof (induction xs arbitrary: k)
  case (Cons x xs)
  obtain k' where k: "k = Suc k'" using Cons.prems(3) by (cases k) auto
  show ?case
  proof (cases xs)
    case Nil
    then show ?thesis using Cons.prems reads_backD [of x k' "CHR '']'' # r"] by (simp add: k)
  next
    case (Cons y ys)
    let ?rest = "join_with '','' (map print_json xs)"
    have j: "join_with '','' (map print_json (x # xs)) = print_json x @ '','' @ ?rest" by (simp add: Cons)
    have "print_json x \<noteq> []" using print_hd [of x] by auto
    then have len: "Suc (length ?rest) < k'" "length (print_json x) < k'"
      using Cons.prems(3) [unfolded j] k by (cases "print_json x"; simp)+
    have "parse_value k' (print_json x @ '','' @ ?rest @ CHR '']'' # r) = Some (clean_json x, '','' @ ?rest @ CHR '']'' # r)"
      using reads_backD [of x k'] Cons.prems(2) len(2) by simp
    moreover have "parse_elems k' (?rest @ CHR '']'' # r) = Some (map clean_json xs, r)"
      using Cons.IH [OF _ _ len(1)] Cons.prems(2) Cons by simp
    ultimately show ?thesis unfolding j k by simp
  qed
qed simp

lemma parse_members_print:
  "kvs \<noteq> [] \<Longrightarrow> \<forall>(n, v) \<in> set kvs. reads_back v \<Longrightarrow>
   Suc (length (join_with '','' (map (\<lambda>(n, v). print_str n @ '':'' @ print_json v) kvs))) < k \<Longrightarrow>
   parse_members k (join_with '','' (map (\<lambda>(n, v). print_str n @ '':'' @ print_json v) kvs) @ CHR ''}'' # r) =
   Some (map (\<lambda>(n, v). (utf8_clean n, clean_json v)) kvs, r)"
proof (induction kvs arbitrary: k)
  case (Cons m kvs)
  obtain n v where m: "m = (n, v)" by (cases m)
  obtain k' where k: "k = Suc k'" using Cons.prems(3) by (cases k) auto
  let ?js = "\<lambda>kvs. join_with '','' (map (\<lambda>(n, v). print_str n @ '':'' @ print_json v) kvs)"
  have key: "parse_str (concat (map print_rune (runes n)) @ CHR 0x22 # y) = Some (utf8_clean n, y)" for y
    by (rule parse_print_str)
  show ?case
  proof (cases kvs)
    case Nil
    then show ?thesis
      using Cons.prems reads_backD [of v k' "CHR ''}'' # r"] by (simp add: k m print_str_def key)
  next
    case (Cons y ys)
    let ?rest = "?js kvs"
    have j: "?js (m # kvs) = print_str n @ '':'' @ print_json v @ '','' @ ?rest" by (simp add: Cons m)
    have len: "Suc (length ?rest) < k'" "length (print_json v) < k'"
      using Cons.prems(3) [unfolded j] k by (auto simp: print_str_def)
    have "parse_value k' (print_json v @ '','' @ ?rest @ CHR ''}'' # r) = Some (clean_json v, '','' @ ?rest @ CHR ''}'' # r)"
      using reads_backD [of v k'] Cons.prems(2) len(2) by (simp add: m)
    moreover have "parse_members k' (?rest @ CHR ''}'' # r) = Some (map (\<lambda>(n, v). (utf8_clean n, clean_json v)) kvs, r)"
      using Cons.IH [OF _ _ len(1)] Cons.prems(2) Cons by simp
    ultimately show ?thesis unfolding j k by (simp add: print_str_def key m)
  qed
qed simp

lemma reads_backI:
  assumes "\<And>k r. length (print_json j) \<le> k \<Longrightarrow> ends_number r \<Longrightarrow>
    parse_value (Suc k) (print_json j @ r) = Some (clean_json j, r)"
  shows "reads_back j"
  unfolding reads_back_def
proof (intro allI impI)
  fix k r assume "length (print_json j) < k" "ends_number r"
  then show "parse_value k (print_json j @ r) = Some (clean_json j, r)" using assms [of "k - 1" r] by (cases k) auto
qed

lemma json_reads_back: "reads_back j"
proof (induction j)
  case (JInt i)
  show ?case
  proof (rule reads_backI)
    fix k r assume r: "ends_number r"
    obtain c cs where c: "show_int i = c # cs" "is_digit c \<or> c = CHR ''-''" using show_int_hd [of i] by blast
    then have "\<not> is_ws c" "c \<noteq> CHR 0x22" "c \<noteq> CHR ''[''" "c \<noteq> CHR ''{''" "c \<noteq> CHR ''n''"
      by (auto simp: is_ws_def is_digit_def)
    then show "parse_value (Suc k) (print_json (JInt i) @ r) = Some (clean_json (JInt i), r)"
      using parse_int_show [OF r, of i] by (simp add: c)
  qed
next
  case (JArr xs)
  show ?case
  proof (rule reads_backI, cases xs)
    fix k r x ys assume l: "length (print_json (JArr xs)) \<le> k" and xs: "xs = x # ys"
    obtain c cs where c: "join_with '','' (map print_json xs) = c # cs" "\<not> is_ws c" "c \<noteq> CHR '']''"
      using print_hd [of x] by (cases ys) (auto simp: xs)
    have "parse_elems k (join_with '','' (map print_json xs) @ CHR '']'' # r) = Some (map clean_json xs, r)"
      by (rule parse_elems_print) (use JArr xs l in auto)
    then show "parse_value (Suc k) (print_json (JArr xs) @ r) = Some (clean_json (JArr xs), r)" using c by simp
  qed simp
next
  case (JObj kvs)
  have rb: "\<forall>(n, v) \<in> set kvs. reads_back v"
  proof clarify
    fix n v assume "(n, v) \<in> set kvs"
    from JObj [OF this, of v] show "reads_back v" by simp
  qed
  show ?case
  proof (rule reads_backI, cases kvs)
    fix k r x ys assume l: "length (print_json (JObj kvs)) \<le> k" and kvs: "kvs = x # ys"
    let ?js = "join_with '','' (map (\<lambda>(n, v). print_str n @ '':'' @ print_json v) kvs)"
    obtain cs where c: "?js = CHR 0x22 # cs"
      by (cases x; cases ys) (auto simp: kvs print_str_def)
    have "parse_members k (?js @ CHR ''}'' # r) = Some (map (\<lambda>(n, v). (utf8_clean n, clean_json v)) kvs, r)"
      by (rule parse_members_print [OF _ rb]) (use kvs l in auto)
    then show "parse_value (Suc k) (print_json (JObj kvs) @ r) = Some (clean_json (JObj kvs), r)" using c by simp
  qed simp
qed (rule reads_backI, simp add: print_str_def parse_print_str)+

lemma parse_print_json [simp]: "parse_json (print_json j) = Some (clean_json j)"
  using reads_backD [OF json_reads_back, of j "Suc (length (print_json j))" "[]"]
  by (simp add: parse_json_def skip_ws_def)

end
