(* ===== verification/Snapshot.thy ===== *)
theory Snapshot
  imports Afs_Sessions Json
begin

text \<open>
  \<open>primefinder/pkg/snapshot/snapshot.go\<close>: the snapshots of workers and coordinator, their JSON
  form and the files on AFS that hold them. A Go slice is an optional list here, as \<open>json\<close>
  writes the nil slice as \<open>null\<close> and the empty one as \<open>[]\<close>. The functions act on the session of
  the client they are given.
\<close>

section \<open>Data\<close>

type_synonym 'a slice = "'a list option"

definition elems :: "'a slice \<Rightarrow> 'a list" where
  "elems s = (case s of None \<Rightarrow> [] | Some xs \<Rightarrow> xs)"

record WorkerSnapshot =
  ws_WorkerID :: string
  ws_CompletedFiles :: "string slice"
  ws_PrimesFound :: "u64 slice"
  ws_TimestampUnix :: i64

record ChannelState =
  cs_WorkerID :: string
  cs_MessagesInFlight :: i64

record CoordSnapshot =
  cs_CompletedFiles :: "string slice"
  cs_PendingFiles :: "string slice"
  cs_CollectedPrimes :: "u64 slice"
  cs_ChannelStates :: "ChannelState slice"
  cs_MarkersSent :: i64
  cs_MarkersAcked :: i64
  cs_TimestampUnix :: i64

definition CoordSnapshotFile :: string where
  "CoordSnapshotFile = ''snapshot_coordinator.json''"

definition WorkerSnapshotFile :: "string \<Rightarrow> string" where
  "WorkerSnapshotFile workerID = ''snapshot_'' @ workerID @ ''.json''"

section \<open>JSON form\<close>

definition json_slice :: "('a \<Rightarrow> json) \<Rightarrow> 'a slice \<Rightarrow> json" where
  "json_slice f s = (case s of None \<Rightarrow> JNull | Some xs \<Rightarrow> JArr (map f xs))"

definition json_u64 :: "u64 \<Rightarrow> json" where
  "json_u64 w = JInt (uint w)"

definition json_worker :: "WorkerSnapshot \<Rightarrow> json" where
  "json_worker s = JObj
     [(''worker_id'', JStr (ws_WorkerID s)),
      (''completed_files'', json_slice JStr (ws_CompletedFiles s)),
      (''primes_found'', json_slice json_u64 (ws_PrimesFound s)),
      (''timestamp_unix'', JInt (ws_TimestampUnix s))]"

definition json_channel :: "ChannelState \<Rightarrow> json" where
  "json_channel c = JObj
     [(''worker_id'', JStr (cs_WorkerID c)), (''messages_in_flight'', JInt (cs_MessagesInFlight c))]"

definition json_coord :: "CoordSnapshot \<Rightarrow> json" where
  "json_coord s = JObj
     [(''completed_files'', json_slice JStr (cs_CompletedFiles s)),
      (''pending_files'', json_slice JStr (cs_PendingFiles s)),
      (''collected_primes'', json_slice json_u64 (cs_CollectedPrimes s)),
      (''channel_states'', json_slice json_channel (cs_ChannelStates s)),
      (''markers_sent'', JInt (cs_MarkersSent s)),
      (''markers_acked'', JInt (cs_MarkersAcked s)),
      (''timestamp_unix'', JInt (cs_TimestampUnix s))]"

text \<open>
  Reading a value into a Go variable that holds \<open>old\<close>: \<open>null\<close> leaves it, except for a slice,
  which becomes nil; a value of another type or out of range is an error. The names of the
  members are compared without regard to case, where U+017F also stands for \<open>s\<close> and U+212A for
  \<open>k\<close>; unknown members are ignored.
\<close>

definition read_str :: "string \<Rightarrow> json \<Rightarrow> string option" where
  "read_str old j = (case j of JStr s \<Rightarrow> Some s | JNull \<Rightarrow> Some old | _ \<Rightarrow> None)"

definition read_i64 :: "i64 \<Rightarrow> json \<Rightarrow> i64 option" where
  "read_i64 old j = (case j of JInt i \<Rightarrow> (if i64_ok i then Some i else None) | JNull \<Rightarrow> Some old | _ \<Rightarrow> None)"

definition read_u64 :: "u64 \<Rightarrow> json \<Rightarrow> u64 option" where
  "read_u64 old j =
     (case j of JInt i \<Rightarrow> (if 0 \<le> i \<and> i < 2 ^ 64 then Some (word_of_int i) else None)
      | JNull \<Rightarrow> Some old | _ \<Rightarrow> None)"

definition read_slice :: "(json \<Rightarrow> 'a option) \<Rightarrow> json \<Rightarrow> 'a slice option" where
  "read_slice f j =
     (case j of JNull \<Rightarrow> Some None | JArr xs \<Rightarrow> map_option Some (those (map f xs)) | _ \<Rightarrow> None)"

definition to_lower :: "char \<Rightarrow> char" where
  "to_lower c = (let n = of_char c :: nat in if 65 \<le> n \<and> n \<le> 90 then char_of (n + 32) else c)"

definition fold_name :: "string \<Rightarrow> string" where
  "fold_name k = concat (map (\<lambda>r.
     if r = Some [CHR 0xC5, CHR 0xBF] then ''s''
     else if r = Some [CHR 0xE2, CHR 0x84, CHR 0xAA] then ''k'' else map to_lower (clean_rune r)) (runes k))"

fun read_members :: "(string \<Rightarrow> json \<Rightarrow> 'r \<Rightarrow> 'r option) \<Rightarrow> (string \<times> json) list \<Rightarrow> 'r \<Rightarrow> 'r option" where
  "read_members f [] r = Some r"
| "read_members f ((k, v) # kvs) r =
     (case f (fold_name k) v r of None \<Rightarrow> None | Some r' \<Rightarrow> read_members f kvs r')"

definition read_struct :: "(string \<Rightarrow> json \<Rightarrow> 'r \<Rightarrow> 'r option) \<Rightarrow> 'r \<Rightarrow> json \<Rightarrow> 'r option" where
  "read_struct f r j = (case j of JObj kvs \<Rightarrow> read_members f kvs r | JNull \<Rightarrow> Some r | _ \<Rightarrow> None)"

definition worker_member :: "string \<Rightarrow> json \<Rightarrow> WorkerSnapshot \<Rightarrow> WorkerSnapshot option" where
  "worker_member k v s =
     (if k = ''worker_id'' then map_option (\<lambda>x. s\<lparr>ws_WorkerID := x\<rparr>) (read_str (ws_WorkerID s) v)
      else if k = ''completed_files'' then map_option (\<lambda>x. s\<lparr>ws_CompletedFiles := x\<rparr>) (read_slice (read_str []) v)
      else if k = ''primes_found'' then map_option (\<lambda>x. s\<lparr>ws_PrimesFound := x\<rparr>) (read_slice (read_u64 0) v)
      else if k = ''timestamp_unix'' then map_option (\<lambda>x. s\<lparr>ws_TimestampUnix := x\<rparr>) (read_i64 (ws_TimestampUnix s) v)
      else Some s)"

definition no_worker :: WorkerSnapshot where
  "no_worker = \<lparr>ws_WorkerID = [], ws_CompletedFiles = None, ws_PrimesFound = None, ws_TimestampUnix = 0\<rparr>"

definition channel_member :: "string \<Rightarrow> json \<Rightarrow> ChannelState \<Rightarrow> ChannelState option" where
  "channel_member k v c =
     (if k = ''worker_id'' then map_option (\<lambda>x. c\<lparr>cs_WorkerID := x\<rparr>) (read_str (cs_WorkerID c) v)
      else if k = ''messages_in_flight'' then map_option (\<lambda>x. c\<lparr>cs_MessagesInFlight := x\<rparr>) (read_i64 (cs_MessagesInFlight c) v)
      else Some c)"

definition coord_member :: "string \<Rightarrow> json \<Rightarrow> CoordSnapshot \<Rightarrow> CoordSnapshot option" where
  "coord_member k v s =
     (if k = ''completed_files'' then map_option (\<lambda>x. s\<lparr>cs_CompletedFiles := x\<rparr>) (read_slice (read_str []) v)
      else if k = ''pending_files'' then map_option (\<lambda>x. s\<lparr>cs_PendingFiles := x\<rparr>) (read_slice (read_str []) v)
      else if k = ''collected_primes'' then map_option (\<lambda>x. s\<lparr>cs_CollectedPrimes := x\<rparr>) (read_slice (read_u64 0) v)
      else if k = ''channel_states'' then map_option (\<lambda>x. s\<lparr>cs_ChannelStates := x\<rparr>)
        (read_slice (read_struct channel_member \<lparr>cs_WorkerID = [], cs_MessagesInFlight = 0\<rparr>) v)
      else if k = ''markers_sent'' then map_option (\<lambda>x. s\<lparr>cs_MarkersSent := x\<rparr>) (read_i64 (cs_MarkersSent s) v)
      else if k = ''markers_acked'' then map_option (\<lambda>x. s\<lparr>cs_MarkersAcked := x\<rparr>) (read_i64 (cs_MarkersAcked s) v)
      else if k = ''timestamp_unix'' then map_option (\<lambda>x. s\<lparr>cs_TimestampUnix := x\<rparr>) (read_i64 (cs_TimestampUnix s) v)
      else Some s)"

definition no_coord :: CoordSnapshot where
  "no_coord = \<lparr>cs_CompletedFiles = None, cs_PendingFiles = None, cs_CollectedPrimes = None,
     cs_ChannelStates = None, cs_MarkersSent = 0, cs_MarkersAcked = 0, cs_TimestampUnix = 0\<rparr>"

definition marshal_worker :: "WorkerSnapshot \<Rightarrow> bytes" where
  "marshal_worker s = print_json (json_worker s)"

definition unmarshal_worker :: "bytes \<Rightarrow> WorkerSnapshot option" where
  "unmarshal_worker b = Option.bind (parse_json b) (read_struct worker_member no_worker)"

definition marshal_coord :: "CoordSnapshot \<Rightarrow> bytes" where
  "marshal_coord s = print_json (json_coord s)"

definition unmarshal_coord :: "bytes \<Rightarrow> CoordSnapshot option" where
  "unmarshal_coord b = Option.bind (parse_json b) (read_struct coord_member no_coord)"

section \<open>Files on AFS\<close>

definition writeToAFS :: "machine \<Rightarrow> string \<Rightarrow> bytes \<Rightarrow> session \<Rightarrow> string option \<times> session" where
  "writeToAFS m name data s =
     (case CreateFile m name (snd (DeleteFile m name s)) of
        (Inl e, s1) \<Rightarrow> (Some (''CreateFile '' @ name @ '': '' @ e), s1)
      | (Inr hid, s1) \<Rightarrow>
          (case Write m hid data s1 of
             (Inl e, s2) \<Rightarrow> (Some (''Write '' @ name @ '': '' @ e), snd (Close m hid s2))
           | (Inr _, s2) \<Rightarrow>
               (case Close m hid s2 of
                  (Some e, s3) \<Rightarrow> (Some (''Close '' @ name @ '': '' @ e), s3)
                | (None, s3) \<Rightarrow> (None, s3))))"

text \<open>
  Reading a handle to its end into a buffer of \<open>n\<close> bytes: what was read, and the error other
  than \<open>io.EOF\<close> that ended it, if any. Every read that is not at the end advances the offset,
  so the loop ends; for a buffer without room it would not, and the model stops.
\<close>

definition unread :: "i64 \<Rightarrow> session \<Rightarrow> nat" where
  "unread hid s =
     (case openFiles (cache (s_client s)) hid of
        None \<Rightarrow> 0
      | Some e \<Rightarrow> length (inodes (files (s_client s)) (fd_inode (localFd e))) - fd_off (localFd e))"

lemma Read_advances:
  assumes "Read m hid n s = (Inr (b, False), s1)" "0 < n"
  shows "unread hid s1 < unread hid s"
proof -
  obtain e where e: "openFiles (cache (s_client s)) hid = Some e"
    using assms(1) by (auto simp: Read_def getOpenEntry_def split: option.splits)
  then have "b = read_at (inodes (files (s_client s)) (fd_inode (localFd e))) (fd_off (localFd e)) n" "b \<noteq> []"
    "unread hid s1 = length (inodes (files (s_client s)) (fd_inode (localFd e))) - (fd_off (localFd e) + length b)"
    using assms by (auto simp: Read_def getOpenEntry_def Let_def unread_def on_cache_def on_client_def setFd_def
        split: option.splits)
  then show ?thesis using e assms(2) by (auto simp: read_at_def unread_def)
qed

function read_all :: "machine \<Rightarrow> nat \<Rightarrow> i64 \<Rightarrow> session \<Rightarrow> (bytes \<times> string option) \<times> session" where
  "read_all m n hid s =
     (case Read m hid n s of
        (Inl e, s1) \<Rightarrow> (([], Some e), s1)
      | (Inr (b, eof), s1) \<Rightarrow>
          if eof \<or> n = 0 then ((b, None), s1)
          else (case read_all m n hid s1 of ((bs, err), s2) \<Rightarrow> ((b @ bs, err), s2)))"
  by pat_completeness auto
termination
  by (relation "measure (\<lambda>(m, n, hid, s). unread hid s)") (auto intro: Read_advances [OF sym])

declare read_all.simps [simp del]

definition readFromAFS :: "machine \<Rightarrow> string \<Rightarrow> session \<Rightarrow> bytes res \<times> session" where
  "readFromAFS m name s =
     (case Open m name False s of
        (Inl e, s1) \<Rightarrow> (Inl (''open '' @ name @ '': '' @ e), s1)
      | (Inr hid, s1) \<Rightarrow>
          (case read_all m (32 * 1024) hid s1 of
             ((all, _), s2) \<Rightarrow>
               (if all = [] then Inl (''empty or missing file '' @ name) else Inr all,
                snd (Close m hid s2))))"

section \<open>Saving, loading, deleting\<close>

definition SaveWorkerSnapshot :: "machine \<Rightarrow> WorkerSnapshot \<Rightarrow> session \<Rightarrow> string option \<times> session" where
  "SaveWorkerSnapshot m snap s = writeToAFS m (WorkerSnapshotFile (ws_WorkerID snap)) (marshal_worker snap) s"

definition LoadWorkerSnapshot :: "machine \<Rightarrow> string \<Rightarrow> session \<Rightarrow> WorkerSnapshot option res \<times> session" where
  "LoadWorkerSnapshot m workerID s =
     (case readFromAFS m (WorkerSnapshotFile workerID) s of
        (Inl _, s1) \<Rightarrow> (Inr None, s1)
      | (Inr data, s1) \<Rightarrow>
          (case unmarshal_worker data of
             None \<Rightarrow> (Inl ''unmarshal worker snapshot'', s1)
           | Some snap \<Rightarrow> (Inr (Some snap), s1)))"

definition SaveCoordSnapshot :: "machine \<Rightarrow> CoordSnapshot \<Rightarrow> session \<Rightarrow> string option \<times> session" where
  "SaveCoordSnapshot m snap s = writeToAFS m CoordSnapshotFile (marshal_coord snap) s"

definition LoadCoordSnapshot :: "machine \<Rightarrow> session \<Rightarrow> CoordSnapshot option res \<times> session" where
  "LoadCoordSnapshot m s =
     (case readFromAFS m CoordSnapshotFile s of
        (Inl _, s1) \<Rightarrow> (Inr None, s1)
      | (Inr data, s1) \<Rightarrow>
          (case unmarshal_coord data of
             None \<Rightarrow> (Inl ''unmarshal coord snapshot'', s1)
           | Some snap \<Rightarrow> (Inr (Some snap), s1)))"

definition DeleteCoordSnapshot :: "machine \<Rightarrow> session \<Rightarrow> session" where
  "DeleteCoordSnapshot m s = snd (DeleteFile m CoordSnapshotFile s)"

definition DeleteWorkerSnapshot :: "machine \<Rightarrow> string \<Rightarrow> session \<Rightarrow> session" where
  "DeleteWorkerSnapshot m workerID s = snd (DeleteFile m (WorkerSnapshotFile workerID) s)"

fun SetContains :: "string list \<Rightarrow> string \<Rightarrow> bool" where
  "SetContains [] s = False"
| "SetContains (v # vs) s = (if v = s then True else SetContains vs s)"

definition BuildSeenSet :: "u64 list \<Rightarrow> (u64 \<rightharpoonup> bool)" where
  "BuildSeenSet primes = foldl (\<lambda>m p. m(p \<mapsto> True)) Map.empty primes"

section \<open>The coordinator's snapshot with markers\<close>

text \<open>
  \<open>ack url\<close> says whether the HTTP post to \<open>url\<close> got an answer. The clock of a session counts
  milliseconds; \<open>Unix\<close> is its seconds as an \<open>int64\<close>. The result \<open>None\<close> of the loop is
  the panic on an index beyond \<open>workerIDs\<close>.
\<close>

fun marker_loop ::
  "(string \<Rightarrow> bool) \<Rightarrow> string list \<Rightarrow> string list \<Rightarrow> ChannelState list \<Rightarrow> i64 \<Rightarrow> i64 \<Rightarrow>
   (ChannelState list \<times> i64 \<times> i64) option" where
  "marker_loop ack [] ids states sent acked = Some (states, sent, acked)"
| "marker_loop ack (a # as) [] states sent acked = None"
| "marker_loop ack (a # as) (i # ids) states sent acked =
     marker_loop ack as ids (states @ [\<lparr>cs_WorkerID = i, cs_MessagesInFlight = 0\<rparr>]) (i64_add sent 1)
       (if ack (''http://'' @ a @ ''/snapshot'') then i64_add acked 1 else acked)"

definition InitiateSnapshot ::
  "machine \<Rightarrow> (string \<Rightarrow> bool) \<Rightarrow> string slice \<Rightarrow> string slice \<Rightarrow> u64 slice \<Rightarrow> string list \<Rightarrow> string list \<Rightarrow>
   session \<Rightarrow> string option outcome \<times> session" where
  "InitiateSnapshot m ack completedFiles pendingFiles collectedPrimes workerHTTPAddrs workerIDs s =
     (case marker_loop ack workerHTTPAddrs workerIDs [] 0 0 of
        None \<Rightarrow> (Panic, s)
      | Some (channelStates, markersSent, markersAcked) \<Rightarrow>
          apfst Reply (SaveCoordSnapshot m
            \<lparr>cs_CompletedFiles = completedFiles, cs_PendingFiles = pendingFiles,
             cs_CollectedPrimes = collectedPrimes, cs_ChannelStates = Some channelStates,
             cs_MarkersSent = markersSent, cs_MarkersAcked = markersAcked,
             cs_TimestampUnix = i64_wrap (int (s_now s div 1000))\<rparr> s))"

section \<open>Round trips\<close>

lemma those_map_Some [simp]: "(\<And>x. x \<in> set xs \<Longrightarrow> f x = Some (g x)) \<Longrightarrow> those (map f xs) = Some (map g xs)"
  by (induction xs) auto

lemma read_json_slice:
  "(\<And>x. x \<in> set (elems s) \<Longrightarrow> r (f x) = Some x) \<Longrightarrow> read_slice r (json_slice f s) = Some s"
  by (cases s) (simp_all add: read_slice_def json_slice_def elems_def comp_def)

lemma read_values [simp]:
  "read_str old (JStr x) = Some x" "i64_ok i \<Longrightarrow> read_i64 i0 (JInt i) = Some i" "read_u64 w0 (json_u64 w) = Some w"
  using unsigned_less [of w, where 'a = int] by (simp_all add: read_str_def read_i64_def read_u64_def json_u64_def)

lemma fold_name_ascii: "ascii k \<Longrightarrow> fold_name k = map to_lower k"
proof -
  assume "ascii k"
  moreover have "concat (map (\<lambda>c. [to_lower c]) k) = map to_lower k" by (induction k) simp_all
  ultimately show ?thesis by (simp add: fold_name_def runes_ascii comp_def clean_rune_def)
qed

text \<open>The names the program gives the members of its objects.\<close>

definition member_names :: "string list" where
  "member_names = [''worker_id'', ''completed_files'', ''primes_found'', ''timestamp_unix'', ''messages_in_flight'',
     ''pending_files'', ''collected_primes'', ''channel_states'', ''markers_sent'', ''markers_acked'']"

lemma member_names_plain: "list_all (\<lambda>k. ascii k \<and> map to_lower k = k) member_names"
  by code_simp

lemma member_name_plain: "k \<in> set member_names \<Longrightarrow> fold_name k = k \<and> utf8_clean k = k"
  using member_names_plain by (auto simp: list_all_iff fold_name_ascii utf8_clean_valid ascii_valid)

lemma fold_member_names [simp]: "k \<in> set member_names \<Longrightarrow> fold_name k = k"
  using member_name_plain by blast

lemma clean_member_names [simp]: "k \<in> set member_names \<Longrightarrow> utf8_clean k = k"
  using member_name_plain by blast

lemma read_channel:
  "i64_ok (cs_MessagesInFlight c) \<Longrightarrow>
   read_struct channel_member \<lparr>cs_WorkerID = [], cs_MessagesInFlight = 0\<rparr> (json_channel c) = Some c"
  by (simp add: read_struct_def json_channel_def channel_member_def member_names_def)

text \<open>The integers of a snapshot are Go integers.\<close>

definition worker_ok :: "WorkerSnapshot \<Rightarrow> bool" where
  "worker_ok s \<longleftrightarrow> i64_ok (ws_TimestampUnix s)"

definition coord_ok :: "CoordSnapshot \<Rightarrow> bool" where
  "coord_ok s \<longleftrightarrow> i64_ok (cs_MarkersSent s) \<and> i64_ok (cs_MarkersAcked s) \<and> i64_ok (cs_TimestampUnix s) \<and>
     (\<forall>c \<in> set (elems (cs_ChannelStates s)). i64_ok (cs_MessagesInFlight c))"

lemma read_json_worker: "worker_ok s \<Longrightarrow> read_struct worker_member no_worker (json_worker s) = Some s"
  by (simp add: json_worker_def read_struct_def worker_member_def worker_ok_def read_json_slice no_worker_def
      member_names_def)

lemma read_json_coord: "coord_ok s \<Longrightarrow> read_struct coord_member no_coord (json_coord s) = Some s"
proof -
  assume ok: "coord_ok s"
  then have "read_slice (read_struct channel_member \<lparr>cs_WorkerID = [], cs_MessagesInFlight = 0\<rparr>)
      (json_slice json_channel (cs_ChannelStates s)) = Some (cs_ChannelStates s)"
    by (intro read_json_slice read_channel) (simp add: coord_ok_def)
  then show ?thesis
    using ok
    by (simp add: json_coord_def read_struct_def [of coord_member] coord_member_def coord_ok_def
        read_json_slice no_coord_def member_names_def)
qed

text \<open>
  JSON text is UTF-8: what a snapshot looks like once its strings are. Snapshots whose strings
  are UTF-8 are left as they are.
\<close>

definition utf8_worker :: "WorkerSnapshot \<Rightarrow> WorkerSnapshot" where
  "utf8_worker s = s\<lparr>ws_WorkerID := utf8_clean (ws_WorkerID s),
     ws_CompletedFiles := map_option (map utf8_clean) (ws_CompletedFiles s)\<rparr>"

definition utf8_channel :: "ChannelState \<Rightarrow> ChannelState" where
  "utf8_channel c = c\<lparr>cs_WorkerID := utf8_clean (cs_WorkerID c)\<rparr>"

definition utf8_coord :: "CoordSnapshot \<Rightarrow> CoordSnapshot" where
  "utf8_coord s = s\<lparr>cs_CompletedFiles := map_option (map utf8_clean) (cs_CompletedFiles s),
     cs_PendingFiles := map_option (map utf8_clean) (cs_PendingFiles s),
     cs_ChannelStates := map_option (map utf8_channel) (cs_ChannelStates s)\<rparr>"

definition worker_utf8 :: "WorkerSnapshot \<Rightarrow> bool" where
  "worker_utf8 s \<longleftrightarrow> valid_utf8 (ws_WorkerID s) \<and> list_all valid_utf8 (elems (ws_CompletedFiles s))"

definition coord_utf8 :: "CoordSnapshot \<Rightarrow> bool" where
  "coord_utf8 s \<longleftrightarrow> list_all valid_utf8 (elems (cs_CompletedFiles s)) \<and> list_all valid_utf8 (elems (cs_PendingFiles s)) \<and>
     list_all (\<lambda>c. valid_utf8 (cs_WorkerID c)) (elems (cs_ChannelStates s))"

lemma slice_map_id: "(\<And>x. x \<in> set (elems s) \<Longrightarrow> f x = x) \<Longrightarrow> map_option (map f) s = s"
  by (cases s) (simp_all add: elems_def map_idI)

lemma elems_map [simp]: "elems (map_option (map f) s) = map f (elems s)"
  by (cases s) (simp_all add: elems_def)

lemma utf8_clean_strings: "list_all valid_utf8 (elems s) \<Longrightarrow> map_option (map utf8_clean) s = s"
  by (rule slice_map_id) (simp add: list_all_iff utf8_clean_valid)

lemma utf8_worker_id: "worker_utf8 s \<Longrightarrow> utf8_worker s = s"
  by (simp add: worker_utf8_def utf8_worker_def utf8_clean_valid utf8_clean_strings)

lemma utf8_coord_id:
  assumes "coord_utf8 s"
  shows "utf8_coord s = s"
proof -
  have "map_option (map utf8_channel) (cs_ChannelStates s) = cs_ChannelStates s"
    using assms by (intro slice_map_id) (simp add: coord_utf8_def utf8_channel_def list_all_iff utf8_clean_valid)
  then show ?thesis using assms by (simp add: coord_utf8_def utf8_coord_def utf8_clean_strings)
qed

lemma utf8_snapshots_valid: "worker_utf8 (utf8_worker w)" "coord_utf8 (utf8_coord c)"
  by (simp_all add: worker_utf8_def utf8_worker_def coord_utf8_def utf8_coord_def utf8_channel_def list_all_iff
      utf8_clean_is_valid)

lemma clean_json_slice: "(\<And>x. clean_json (f x) = f (g x)) \<Longrightarrow> clean_json (json_slice f s) = json_slice f (map_option (map g) s)"
  by (cases s) (simp_all add: json_slice_def)

lemma clean_json_strings [simp]: "clean_json (json_slice JStr s) = json_slice JStr (map_option (map utf8_clean) s)"
  by (rule clean_json_slice) simp

lemma clean_json_u64s [simp]: "clean_json (json_slice json_u64 s) = json_slice json_u64 s"
  using clean_json_slice [of json_u64 id s] by (simp add: json_u64_def option.map_id)

lemma clean_json_worker: "clean_json (json_worker w) = json_worker (utf8_worker w)"
  by (simp add: json_worker_def utf8_worker_def member_names_def)

lemma clean_json_coord: "clean_json (json_coord c) = json_coord (utf8_coord c)"
proof -
  have "clean_json (json_channel x) = json_channel (utf8_channel x)" for x
    by (simp add: json_channel_def utf8_channel_def member_names_def)
  then show ?thesis by (simp add: json_coord_def utf8_coord_def member_names_def clean_json_slice)
qed

text \<open>
  What a file format must give so that a saved value is the one loaded, up to the form \<open>norm\<close>
  that the format stores: the coordinator's and the workers' snapshots are its two instances.
\<close>

locale codec =
  fixes enc :: "'v \<Rightarrow> bytes" and dec :: "bytes \<Rightarrow> 'v option" and valid :: "'v \<Rightarrow> bool"
    and norm :: "'v \<Rightarrow> 'v" and normal :: "'v \<Rightarrow> bool"
  assumes dec_enc: "valid v \<Longrightarrow> dec (enc v) = Some (norm v)"
    and norm_normal: "normal (norm v)" and norm_id: "normal v \<Longrightarrow> norm v = v"
    and norm_valid: "valid v \<Longrightarrow> valid (norm v)"
    and enc_nonempty: "enc v \<noteq> []"
begin

lemma enc_inj: "valid v \<Longrightarrow> valid w \<Longrightarrow> enc v = enc w \<Longrightarrow> norm v = norm w"
  using dec_enc by (metis option.inject)

lemma normal_inj: "valid v \<Longrightarrow> valid w \<Longrightarrow> normal v \<Longrightarrow> normal w \<Longrightarrow> enc v = enc w \<Longrightarrow> v = w"
  using enc_inj norm_id by metis

text \<open>What was loaded is saved and loaded without a further change.\<close>

lemma second_trip: "valid v \<Longrightarrow> dec (enc v) = Some w \<Longrightarrow> dec (enc w) = Some w"
  using dec_enc norm_valid norm_normal norm_id by (metis option.inject)

end

interpretation worker_codec: codec marshal_worker unmarshal_worker worker_ok utf8_worker worker_utf8
proof unfold_locales
  show "worker_ok v \<Longrightarrow> unmarshal_worker (marshal_worker v) = Some (utf8_worker v)" for v
    using read_json_worker [of "utf8_worker v"]
    by (simp add: marshal_worker_def unmarshal_worker_def clean_json_worker worker_ok_def utf8_worker_def)
qed (simp_all add: utf8_worker_id utf8_snapshots_valid worker_ok_def, simp_all add: utf8_worker_def marshal_worker_def json_worker_def)

interpretation coord_codec: codec marshal_coord unmarshal_coord coord_ok utf8_coord coord_utf8
proof unfold_locales
  have ok: "coord_ok v \<Longrightarrow> coord_ok (utf8_coord v)" for v
    by (auto simp: coord_ok_def utf8_coord_def utf8_channel_def)
  then show "coord_ok v \<Longrightarrow> coord_ok (utf8_coord v)" for v .
  show "coord_ok v \<Longrightarrow> unmarshal_coord (marshal_coord v) = Some (utf8_coord v)" for v
    using read_json_coord [OF ok] by (simp add: marshal_coord_def unmarshal_coord_def clean_json_coord)
qed (simp_all add: utf8_coord_id utf8_snapshots_valid, simp add: marshal_coord_def json_coord_def)

section \<open>Whole files in a calm environment\<close>

lemma read_at_split: "read_at d off n @ drop (off + length (read_at d off n)) d = drop off d"
proof (cases "n \<le> length d - off")
  case True
  then show ?thesis by (simp add: read_at_def) (metis add.commute append_take_drop_id drop_drop)
qed (simp add: read_at_def)

lemma read_all_calm:
  assumes "m_flt m = no_faults" "openFiles (cache (s_client s)) hid = Some e" "0 < n"
  shows "\<exists>x. read_all m n hid s =
    ((drop (fd_off (localFd e)) (inodes (files (s_client s)) (fd_inode (localFd e))), None),
     on_cache (setFd hid ((localFd e)\<lparr>fd_off := x\<rparr>)) s)"
  using assms(2)
proof (induction "unread hid s" arbitrary: s e rule: less_induct)
  case less
  let ?fd = "localFd e"
  let ?c = "inodes (files (s_client s)) (fd_inode ?fd)"
  let ?b = "read_at ?c (fd_off ?fd) n"
  let ?s1 = "on_cache (setFd hid (?fd\<lparr>fd_off := fd_off ?fd + length ?b\<rparr>)) s"
  have r: "Read m hid n s = (Inr (?b, ?b = []), ?s1)"
    using less.prems assms(1,3) by (simp add: Read_def getOpenEntry_def Let_def)
  show ?case
  proof (cases "?b = []")
    case True
    then have "drop (fd_off ?fd) ?c = []" using assms(3) by (auto simp: read_at_def)
    then show ?thesis using r True by (subst read_all.simps) (auto intro!: exI [of _ "fd_off ?fd"])
  next
    case False
    have "unread hid ?s1 < unread hid s" using r False by (intro Read_advances [OF _ assms(3)]) auto
    moreover have o: "openFiles (cache (s_client ?s1)) hid = Some (e\<lparr>localFd := ?fd\<lparr>fd_off := fd_off ?fd + length ?b\<rparr>\<rparr>)"
      and f: "files (s_client ?s1) = files (s_client s)"
      using less.prems by (simp_all add: on_cache_def on_client_def setFd_def)
    ultimately obtain x where x: "read_all m n hid ?s1 = ((drop (fd_off ?fd + length ?b) ?c, None),
        on_cache (setFd hid (?fd\<lparr>fd_off := x\<rparr>)) ?s1)"
      using less.hyps [of ?s1] by fastforce
    have "?b @ drop (fd_off ?fd + length ?b) ?c = drop (fd_off ?fd) ?c" by (rule read_at_split)
    moreover have "on_cache (setFd hid (?fd\<lparr>fd_off := x\<rparr>)) ?s1 = on_cache (setFd hid (?fd\<lparr>fd_off := x\<rparr>)) s"
      using less.prems by (simp add: on_cache_def on_client_def setFd_def)
    ultimately show ?thesis using r x False assms(3) by (subst read_all.simps) auto
  qed
qed

lemma read_all_opened:
  assumes "calm m" "linked a k s1" "opened n False b ver s hid s1" "0 < N"
  shows "\<exists>s2. read_all m N hid s1 = ((b, None), s2) \<and> linked a k s2 \<and> s_cl s2 = s_cl s1 \<and>
    (\<exists>e. openFiles (cache (s_client s2)) hid = Some e \<and> \<not> dirty e)"
proof -
  obtain i sh where e: "openFiles (cache (s_client s1)) hid =
        Some \<lparr>localFd = \<lparr>fd_inode = i, fd_off = 0, fd_write = False\<rparr>, dirty = False, serverHandleID = sh, oe_path = n\<rparr>"
      "inodes (files (s_client s1)) i = b"
    using assms(3) by (auto simp: opened_def)
  obtain x where x: "read_all m N hid s1 =
      ((b, None), on_cache (setFd hid \<lparr>fd_inode = i, fd_off = x, fd_write = False\<rparr>) s1)"
    using read_all_calm [OF calm_env(3) [OF assms(1)] e(1) assms(4)] e(2) by auto
  have "cm_ok (setFd hid fd (cache (s_client s1)))" for fd
    using assms(2) e(1) by (auto simp: linked_def cm_ok_def setFd_def)
  then have "linked a k (on_cache (setFd hid fd) s1)" for fd
    using assms(2) by (auto simp: linked_def on_cache_def on_client_def setFd_def split: option.splits)
  then show ?thesis using x e(1) by (auto simp: on_cache_def on_client_def setFd_def)
qed

lemma readFromAFS_opened:
  assumes "calm m" "Open m n False s = (Inr hid, s1)" "linked a k s1" "s_cl s1 a = Some h1" "opened n False b ver s hid s1"
    and "b \<noteq> []"
  shows "\<exists>s' h'. readFromAFS m n s = (Inr b, s') \<and> linked a k s' \<and> s_cl s' = (s_cl s1)(a \<mapsto> h') \<and> same_files h1 h'"
proof -
  obtain s2 e where r: "read_all m (32 * 1024) hid s1 = ((b, None), s2)" "linked a k s2" "s_cl s2 = s_cl s1"
      "openFiles (cache (s_client s2)) hid = Some e" "\<not> dirty e"
    using read_all_opened [OF assms(1,3,5), of "32 * 1024"] by auto
  obtain s3 h3 where c: "Close m hid s2 = (None, s3)" "linked a k s3" "s_cl s3 = (s_cl s2)(a \<mapsto> h3)" "same_files h1 h3"
    using Close_clean [OF assms(1) r(2) _ r(4,5), of h1] assms(4) r(3) by auto
  then show ?thesis using assms(2,6) r(1,3) by (auto simp: readFromAFS_def)
qed

lemma same_files_trans: "same_files h h1 \<Longrightarrow> same_files h1 h2 \<Longrightarrow> same_files h h2"
  by (simp add: same_files_def same_role_def)

lemma readFromAFS_calm:
  assumes "calm m" "linked a (Suc k) s" "s_cl s a = Some h" "served h n b v" "b \<noteq> []"
    and "cached (cache (s_client s)) n = None"
  shows "\<exists>s' h'. readFromAFS m n s = (Inr b, s') \<and> linked a k s' \<and> s_cl s' = (s_cl s)(a \<mapsto> h') \<and> same_files h h'"
proof -
  obtain hid s1 h1 where o: "Open m n False s = (Inr hid, s1)" "linked a k s1" "s_cl s1 = (s_cl s)(a \<mapsto> h1)"
      "same_files h h1" "opened n False b (if b = [] \<or> v \<le> 0 then 0 else v) s hid s1"
    using Open_calm [OF assms(1-4), of b False] assms(6) by auto
  have "s_cl s1 a = Some h1" using o(3) by simp
  from readFromAFS_opened [OF assms(1) o(1,2) this o(5) assms(5)] show ?thesis
    using o(3,4) by (auto intro: same_files_trans)
qed

lemma readFromAFS_missing:
  assumes "calm m" "linked a (Suc k) s" "s_cl s a = Some h" "missing h n" "ordinary n" "CHR '' '' \<notin> set n"
  shows "\<exists>e s'. readFromAFS m n s = (Inl e, s') \<and> linked a k s' \<and> s_cl s' = s_cl s"
  using Open_missing [OF assms, of False] by (auto simp: readFromAFS_def)

lemma writeToAFS_calm:
  assumes "calm m" "linked a (Suc (Suc (Suc k))) s" "good_name n" "b \<noteq> []"
  shows "\<exists>s'. writeToAFS m n b s = (None, s') \<and> linked a k s' \<and> all_change a (Put b 2) n (s_cl s) (s_cl s')"
proof -
  have ok: "cluster_ok a (s_cl s)" using assms(2) by (simp add: linked_def)
  obtain s0 where d: "DeleteFile m n s = (None, s0)" "linked a (Suc (Suc k)) s0" "all_change a Del n (s_cl s) (s_cl s0)"
    using DeleteFile_calm [OF assms(1-3)] by blast
  obtain h where "s_cl s a = Some h" using ok by (rule cluster_okD)
  then have "a \<in> replicas a (s_cl s)" by (simp add: replicas_def)
  from all_changeD [OF d(3) this] have "view (the (s_cl s0 a)) n = None" using assms(3) by auto
  from write_cycle [OF assms(1) d(2) assms(3) this assms(4)] obtain hid s1 s2 s3 where
    c: "CreateFile m n s0 = (Inr hid, s1)" "Write m hid b s1 = (Inr (length b), s2)"
      "Close m hid s2 = (None, s3)" "linked a k s3" "all_change a (Put [] 1) n (s_cl s0) (s_cl s2)"
      "all_change a (Put b 2) n (s_cl s2) (s_cl s3)" by blast
  have "all_change a (Put b 2) n (s_cl s) (s_cl s3)"
    using all_change_overwrite [OF all_change_overwrite [OF d(3) c(5) ok] c(6) ok] .
  then show ?thesis using c(1-4) d(1) by (simp add: writeToAFS_def)
qed

section \<open>The file service the snapshots and the output rely on\<close>

text \<open>
  What the application needs of AFS: a put replaces a whole file, a delete removes it, every
  other file stays, and each use of the service takes a bounded number of request numbers.
\<close>

locale file_store =
  fixes ready :: "nat \<Rightarrow> 's \<Rightarrow> bool"
    and put :: "string \<Rightarrow> bytes \<Rightarrow> 's \<Rightarrow> string option \<times> 's"
    and del :: "string \<Rightarrow> 's \<Rightarrow> string option \<times> 's"
    and content :: "'s \<Rightarrow> string \<Rightarrow> bytes option"
    and name_ok :: "string \<Rightarrow> bool"
  assumes put_ok: "ready (Suc (Suc (Suc k))) s \<Longrightarrow> name_ok n \<Longrightarrow> b \<noteq> [] \<Longrightarrow>
      \<exists>s'. put n b s = (None, s') \<and> ready k s' \<and>
        (\<forall>x. name_ok x \<longrightarrow> content s' x = (if x = n then Some b else content s x))"
    and del_ok: "ready (Suc k) s \<Longrightarrow> name_ok n \<Longrightarrow>
      \<exists>s'. del n s = (None, s') \<and> ready k s' \<and>
        (\<forall>x. name_ok x \<longrightarrow> content s' x = (if x = n then None else content s x))"
begin

fun del_all :: "string list \<Rightarrow> 's \<Rightarrow> 's" where
  "del_all [] s = s"
| "del_all (n # ns) s = del_all ns (snd (del n s))"

lemma del_all_ok:
  "ready (k + length ns) s \<Longrightarrow> \<forall>n \<in> set ns. name_ok n \<Longrightarrow>
   ready k (del_all ns s) \<and>
   (\<forall>x. name_ok x \<longrightarrow> content (del_all ns s) x = (if x \<in> set ns then None else content s x))"
proof (induction ns arbitrary: s)
  case (Cons n ns)
  obtain s' where "del n s = (None, s')" "ready (k + length ns) s'"
      "\<forall>x. name_ok x \<longrightarrow> content s' x = (if x = n then None else content s x)"
    using del_ok [of "k + length ns" s n] Cons.prems by auto
  then show ?case using Cons.IH [of s'] Cons.prems(2) by auto
qed simp

end

lemma all_change_content:
  assumes "all_change a c n cl cl'" "r \<in> replicas a cl" "good_name x"
  shows "map_option fst (view (the (cl' r)) x) =
    (if x = n then (case c of Put b v \<Rightarrow> Some b | Del \<Rightarrow> None) else map_option fst (view (the (cl r)) x))"
  using all_changeD [OF assms(1,2)] assms(3) by (cases c) auto

interpretation afs: file_store "\<lambda>k s. calm m \<and> linked a k s \<and> r \<in> replicas a (s_cl s)"
  "writeToAFS m" "DeleteFile m" "\<lambda>s x. map_option fst (view (the (s_cl s r)) x)" good_name for m a r
proof unfold_locales
  fix k s n and b :: bytes
  assume r: "calm m \<and> linked a (Suc (Suc (Suc k))) s \<and> r \<in> replicas a (s_cl s)" and n: "good_name n" "b \<noteq> []"
  then obtain s' where w: "writeToAFS m n b s = (None, s')" "linked a k s'" "all_change a (Put b 2) n (s_cl s) (s_cl s')"
    using writeToAFS_calm by blast
  moreover have "replicas a (s_cl s') = replicas a (s_cl s)"
    by (rule all_change_ok(2) [OF w(3)]) (use r in \<open>simp add: linked_def\<close>)
  ultimately show "\<exists>s'. writeToAFS m n b s = (None, s') \<and> (calm m \<and> linked a k s' \<and> r \<in> replicas a (s_cl s')) \<and>
      (\<forall>x. good_name x \<longrightarrow> map_option fst (view (the (s_cl s' r)) x) =
        (if x = n then Some b else map_option fst (view (the (s_cl s r)) x)))"
    using r all_change_content [OF w(3)] by auto
next
  fix k s n
  assume r: "calm m \<and> linked a (Suc k) s \<and> r \<in> replicas a (s_cl s)" and n: "good_name n"
  then obtain s' where w: "DeleteFile m n s = (None, s')" "linked a k s'" "all_change a Del n (s_cl s) (s_cl s')"
    using DeleteFile_calm by blast
  moreover have "replicas a (s_cl s') = replicas a (s_cl s)"
    by (rule all_change_ok(2) [OF w(3)]) (use r in \<open>simp add: linked_def\<close>)
  ultimately show "\<exists>s'. DeleteFile m n s = (None, s') \<and> (calm m \<and> linked a k s' \<and> r \<in> replicas a (s_cl s')) \<and>
      (\<forall>x. good_name x \<longrightarrow> map_option fst (view (the (s_cl s' r)) x) =
        (if x = n then None else map_option fst (view (the (s_cl s r)) x)))"
    using r all_change_content [OF w(3)] by auto
qed

section \<open>Properties\<close>

lemma put_served:
  assumes "all_change a (Put b v) n cl cl'" "cluster_ok a cl" "cl a = Some h" "output_only h n" "good_name n"
  shows "\<exists>h'. cl' a = Some h' \<and> served h' n b v \<and> output_only h' n"
proof -
  have "a \<in> replicas a cl" using assms(3) by (simp add: replicas_def)
  from all_changeD [OF assms(1) this] obtain h' where h': "cl' a = Some h'" "server_ok h'" "view h' n = Some (b, v)"
    using assms(3,5) by auto
  moreover have "server_ok h" using assms(2,3) by (auto elim: cluster_okD)
  ultimately show ?thesis
    using output_only_change [OF assms(1,3) h'(1) assms(4) _ good_ordinary [OF assms(5)]]
      output_only_served [OF h'(2) assms(5)] by blast
qed

lemma CoordSnapshotFile_good: "good_name CoordSnapshotFile" "CHR '' '' \<notin> set CoordSnapshotFile"
  by code_simp+

text \<open>
  C28: A snapshot that is written as JSON and read back keeps every field over the whole range of
  \<open>uint64\<close> and \<open>int64\<close>, nil and empty slices told apart; in its strings (ids and file names)
  every byte that is not UTF-8 has become U+FFFD. So a snapshot whose strings are UTF-8
  comes back as it was, two different ones of this kind never have the same text, and what
  was read once is written and read again without a further change.
\<close>

theorem snapshot_round_trip:
  assumes "worker_ok w" "coord_ok c"
  shows "unmarshal_worker (marshal_worker w) = Some (utf8_worker w) \<and>
    unmarshal_coord (marshal_coord c) = Some (utf8_coord c) \<and>
    (worker_utf8 w \<longrightarrow> unmarshal_worker (marshal_worker w) = Some w) \<and>
    (coord_utf8 c \<longrightarrow> unmarshal_coord (marshal_coord c) = Some c) \<and>
    (\<forall>w'. worker_ok w' \<longrightarrow> worker_utf8 w \<longrightarrow> worker_utf8 w' \<longrightarrow> marshal_worker w' = marshal_worker w \<longrightarrow> w' = w) \<and>
    (\<forall>c'. coord_ok c' \<longrightarrow> coord_utf8 c \<longrightarrow> coord_utf8 c' \<longrightarrow> marshal_coord c' = marshal_coord c \<longrightarrow> c' = c) \<and>
    unmarshal_worker (marshal_worker (utf8_worker w)) = Some (utf8_worker w) \<and>
    unmarshal_coord (marshal_coord (utf8_coord c)) = Some (utf8_coord c)"
proof (intro conjI allI impI)
  note w = worker_codec.dec_enc [OF assms(1)] and c = coord_codec.dec_enc [OF assms(2)]
  show "unmarshal_worker (marshal_worker w) = Some (utf8_worker w)" by (rule w)
  show "unmarshal_coord (marshal_coord c) = Some (utf8_coord c)" by (rule c)
  show "unmarshal_worker (marshal_worker w) = Some w" if "worker_utf8 w" using w utf8_worker_id [OF that] by simp
  show "unmarshal_coord (marshal_coord c) = Some c" if "coord_utf8 c" using c utf8_coord_id [OF that] by simp
  show "unmarshal_worker (marshal_worker (utf8_worker w)) = Some (utf8_worker w)"
    by (rule worker_codec.second_trip [OF assms(1) w])
  show "unmarshal_coord (marshal_coord (utf8_coord c)) = Some (utf8_coord c)"
    by (rule coord_codec.second_trip [OF assms(2) c])
qed (use assms worker_codec.normal_inj coord_codec.normal_inj in blast)+

theorem snapshot_round_trip_witness:
  "unmarshal_coord (marshal_coord \<lparr>cs_CompletedFiles = Some [''a''], cs_PendingFiles = None,
       cs_CollectedPrimes = Some [18446744073709551557], cs_ChannelStates = Some [\<lparr>cs_WorkerID = ''w1'', cs_MessagesInFlight = 0\<rparr>],
       cs_MarkersSent = 1, cs_MarkersAcked = 1, cs_TimestampUnix = 0\<rparr>) =
    Some \<lparr>cs_CompletedFiles = Some [''a''], cs_PendingFiles = None,
       cs_CollectedPrimes = Some [18446744073709551557], cs_ChannelStates = Some [\<lparr>cs_WorkerID = ''w1'', cs_MessagesInFlight = 0\<rparr>],
       cs_MarkersSent = 1, cs_MarkersAcked = 1, cs_TimestampUnix = 0\<rparr> \<and>
   unmarshal_worker (marshal_worker (no_worker\<lparr>ws_WorkerID := [CHR ''w'', CHR 0xFF]\<rparr>)) =
    Some (no_worker\<lparr>ws_WorkerID := [CHR ''w'', CHR 0xEF, CHR 0xBF, CHR 0xBD]\<rparr>)"
proof -
  let ?c = "\<lparr>cs_CompletedFiles = Some [''a''], cs_PendingFiles = None,
       cs_CollectedPrimes = Some [18446744073709551557 :: u64], cs_ChannelStates = Some [\<lparr>cs_WorkerID = ''w1'', cs_MessagesInFlight = 0\<rparr>],
       cs_MarkersSent = 1, cs_MarkersAcked = 1, cs_TimestampUnix = 0\<rparr>"
  let ?w = "no_worker\<lparr>ws_WorkerID := [CHR ''w'', CHR 0xFF]\<rparr>"
  have ok: "worker_ok ?w" "coord_ok ?c" by (simp_all add: worker_ok_def coord_ok_def no_worker_def elems_def i64_ok_def)
  have "ascii ''a''" "ascii ''w1''" by code_simp+
  then have u: "coord_utf8 ?c" by (simp add: coord_utf8_def elems_def ascii_valid)
  have "char_of (239::nat) = CHR 0xEF" "char_of (191::nat) = CHR 0xBF" "char_of (189::nat) = CHR 0xBD" by code_simp+
  then have "encode_rune 0xFFFD = [CHR 0xEF, CHR 0xBF, CHR 0xBD]" by (simp add: encode_rune_def)
  then have "utf8_clean [CHR ''w'', CHR 0xFF] = [CHR ''w'', CHR 0xEF, CHR 0xBF, CHR 0xBD]"
    by (simp add: utf8_clean_def clean_rune_def utf8_width_def)
  then have "utf8_worker ?w = no_worker\<lparr>ws_WorkerID := [CHR ''w'', CHR 0xEF, CHR 0xBF, CHR 0xBD]\<rparr>"
    by (simp add: utf8_worker_def no_worker_def)
  then show ?thesis using snapshot_round_trip [OF ok] utf8_coord_id [OF u] by simp
qed

text \<open>
  C12: Without a snapshot file loading finds none. A coordinator snapshot that is saved is the one
  that a client which has not read the file before loads (its strings being UTF-8, as all file
  names and ids of the program are; otherwise their invalid bytes come back as U+FFFD), and
  every other file of every replica stays as it was.
\<close>

theorem saved_snapshot_is_loaded:
  assumes "calm m" "linked a (Suc (Suc (Suc k))) s" "coord_ok snap" "s_cl s a = Some h" "output_only h CoordSnapshotFile"
  shows "(missing h CoordSnapshotFile \<longrightarrow> (\<exists>t. LoadCoordSnapshot m s = (Inr None, t))) \<and>
    (\<exists>s1. SaveCoordSnapshot m snap s = (None, s1) \<and> linked a k s1 \<and>
      all_change a (Put (marshal_coord snap) 2) CoordSnapshotFile (s_cl s) (s_cl s1) \<and>
      (\<forall>m' t j. calm m' \<longrightarrow> s_cl t = s_cl s1 \<longrightarrow> linked a (Suc j) t \<longrightarrow>
        cached (cache (s_client t)) CoordSnapshotFile = None \<longrightarrow>
        (\<exists>t'. LoadCoordSnapshot m' t = (Inr (Some (utf8_coord snap)), t') \<and> linked a j t' \<and>
          (coord_utf8 snap \<longrightarrow> LoadCoordSnapshot m' t = (Inr (Some snap), t')))))"
proof -
  note n = CoordSnapshotFile_good
  have none: "missing h CoordSnapshotFile \<longrightarrow> (\<exists>t. LoadCoordSnapshot m s = (Inr None, t))"
    using readFromAFS_missing [OF assms(1,2,4) _ good_ordinary [OF n(1)] n(2)] by (auto simp: LoadCoordSnapshot_def)
  obtain s1 where w: "SaveCoordSnapshot m snap s = (None, s1)" "linked a k s1"
      "all_change a (Put (marshal_coord snap) 2) CoordSnapshotFile (s_cl s) (s_cl s1)"
    using writeToAFS_calm [OF assms(1,2) n(1) coord_codec.enc_nonempty] by (auto simp: SaveCoordSnapshot_def)
  have "cluster_ok a (s_cl s)" using assms(2) by (simp add: linked_def)
  from put_served [OF w(3) this assms(4,5) n(1)] obtain h' where h': "s_cl s1 a = Some h'"
      "served h' CoordSnapshotFile (marshal_coord snap) 2" by blast
  have "\<exists>t'. LoadCoordSnapshot m' t = (Inr (Some (utf8_coord snap)), t') \<and> linked a j t' \<and>
      (coord_utf8 snap \<longrightarrow> LoadCoordSnapshot m' t = (Inr (Some snap), t'))"
    if t: "calm m'" "s_cl t = s_cl s1" "linked a (Suc j) t" "cached (cache (s_client t)) CoordSnapshotFile = None"
    for m' t j
  proof -
    have "s_cl t a = Some h'" using t(2) h'(1) by simp
    from readFromAFS_calm [OF t(1,3) this h'(2) coord_codec.enc_nonempty t(4)]
    show ?thesis
      using coord_codec.dec_enc [OF assms(3)] utf8_coord_id [of snap] by (auto simp: LoadCoordSnapshot_def)
  qed
  then show ?thesis using none w by blast
qed

lemma compose_coord:
  "output_only (compose_server compose_disk i p r) CoordSnapshotFile"
  "missing (compose_server compose_disk i p r) CoordSnapshotFile"
proof -
  have d: "dir_prefix ''/data/input'' = ''/data/input/''" "dir_prefix ''/data/output'' = ''/data/output/''"
    "path_Join ''/data/input'' CoordSnapshotFile = ''/data/input/snapshot_coordinator.json''"
    "path_Base CoordSnapshotFile = CoordSnapshotFile"
    "path_Join ''/data/output'' CoordSnapshotFile = ''/data/output/snapshot_coordinator.json''" by code_simp+
  show "output_only (compose_server compose_disk i p r) CoordSnapshotFile"
    "missing (compose_server compose_disk i p r) CoordSnapshotFile"
    by (simp_all add: missing_def output_only_def outPath_def d compose_disk_def)
qed

theorem saved_snapshot_is_loaded_witness:
  "\<exists>s1 t'. SaveCoordSnapshot calm_machine no_coord compose_session = (None, s1) \<and>
    LoadCoordSnapshot calm_machine (on_cache (dropCacheEntry CoordSnapshotFile) s1) = (Inr (Some no_coord), t')"
proof -
  have ok: "coord_ok no_coord" and u: "coord_utf8 no_coord"
    by (simp_all add: coord_ok_def coord_utf8_def no_coord_def elems_def i64_ok_def)
  have c: "s_cl compose_session ''s1:50051'' = Some (compose_server compose_disk ''s1'' ''s1:50051'' True)"
    by (simp add: compose_session_def compose_def)
  have l: "linked ''s1:50051'' (Suc (Suc (Suc 1))) compose_session" by (rule compose_linked) simp
  obtain s1 where s1: "SaveCoordSnapshot calm_machine no_coord compose_session = (None, s1)" "linked ''s1:50051'' 1 s1"
      and r: "\<And>t. s_cl t = s_cl s1 \<Longrightarrow> linked ''s1:50051'' (Suc 0) t \<Longrightarrow>
        cached (cache (s_client t)) CoordSnapshotFile = None \<Longrightarrow>
        \<exists>t'. LoadCoordSnapshot calm_machine t = (Inr (Some no_coord), t')"
    using saved_snapshot_is_loaded [OF calm_machine_calm l ok c compose_coord(1)] calm_machine_calm u by blast
  have "linked ''s1:50051'' (Suc 0) (on_cache (dropCacheEntry CoordSnapshotFile) s1)"
    using s1(2) by (simp add: linked_def on_cache_def on_client_def dropCacheEntry_def cm_ok_def)
  from r [OF _ this] show ?thesis
    using s1(1) by (auto simp: on_cache_def on_client_def dropCacheEntry_def)
qed

text \<open>
  C27: Versions do not tell rewritten files apart. \<open>writeToAFS\<close> deletes and creates the file, so
  its version is 2 after every write: a client that holds a copy from an earlier write takes
  it for valid and reads the old bytes, whatever was written since.
\<close>

theorem rewritten_file_is_read_stale:
  assumes "calm m" "linked a (Suc (Suc (Suc k))) s" "good_name n" "new \<noteq> []" "s_cl s a = Some h" "output_only h n"
    and "writeToAFS m n new s = (err, s1)" "calm m'" "s_cl t = s_cl s1" "linked a (Suc j) t"
    and "local_copy t n = Some (old, 2)" "old \<noteq> []"
  shows "err = None \<and> (\<exists>t'. readFromAFS m' n t = (Inr old, t'))"
proof -
  have w: "err = None" "all_change a (Put new 2) n (s_cl s) (s_cl s1)"
    using writeToAFS_calm [OF assms(1-4)] assms(7) by auto
  have "cluster_ok a (s_cl s)" using assms(2) by (simp add: linked_def)
  from put_served [OF w(2) this assms(5,6,3)] obtain h' where h': "s_cl t a = Some h'" "served h' n new 2"
    using assms(9) by auto
  have "map_option cachedVersion (cached (cache (s_client t)) n) = Some 2"
    using assms(11) by (auto simp: local_copy_def split: option.splits)
  then obtain hid t1 h1 where o: "Open m' n False t = (Inr hid, t1)" "linked a j t1" "s_cl t1 = (s_cl t)(a \<mapsto> h1)"
      "opened n False old 2 t hid t1"
    using Open_calm [OF assms(8,10) h'(1,2), of old False] assms(11) by auto
  have "s_cl t1 a = Some h1" using o(3) by simp
  from readFromAFS_opened [OF assms(8) o(1,2) this o(4) assms(12)] show ?thesis using w(1) by blast
qed

text \<open>The local copy of an earlier write.\<close>

definition old_copy :: "session \<Rightarrow> session" where
  "old_copy = on_client (\<lambda>c. c
     \<lparr>cache := (cache compose_client)\<lparr>cached := [''primes.txt'' \<mapsto> \<lparr>ce_localPath = ''/cache/primes.txt'', cachedVersion = 2\<rparr>]\<rparr>,
      files := \<lparr>names = [''/cache/primes.txt'' \<mapsto> 0], inodes = (\<lambda>_. ''3''), next_inode = 1\<rparr>\<rparr>)"

theorem rewritten_file_is_read_stale_witness:
  "\<exists>s1 t'. writeToAFS calm_machine ''primes.txt'' ''2'' compose_session = (None, s1) \<and>
    readFromAFS calm_machine ''primes.txt'' (old_copy s1) = (Inr ''3'', t')"
proof -
  have l: "linked ''s1:50051'' (Suc (Suc (Suc 1))) compose_session" by (rule compose_linked) simp
  have c: "s_cl compose_session ''s1:50051'' = Some (compose_server compose_disk ''s1'' ''s1:50051'' True)"
    by (simp add: compose_session_def compose_def)
  obtain s1 where w: "writeToAFS calm_machine ''primes.txt'' ''2'' compose_session = (None, s1)" "linked ''s1:50051'' 1 s1"
    using writeToAFS_calm [OF calm_machine_calm l primes_txt_good, of "''2''"] by auto
  have p: "path_Join ''/cache'' ''primes.txt'' = ''/cache/primes.txt''" by code_simp
  have lc: "local_copy (old_copy s1) ''primes.txt'' = Some (''3'', 2)"
    by (simp add: local_copy_def old_copy_def on_client_def lf_content_def localPath_def compose_client_def p)
  have t: "s_cl (old_copy s1) = s_cl s1" by (simp add: old_copy_def on_client_def)
  have "linked ''s1:50051'' (Suc 0) (old_copy s1)"
    using w(2) by (simp add: linked_def old_copy_def on_client_def compose_client_def cm_ok_def)
  from rewritten_file_is_read_stale [OF calm_machine_calm l primes_txt_good _ c compose_output_only(2) w(1)
      calm_machine_calm t this lc] w(1) show ?thesis by simp
qed

lemma marker_loop_result:
  "int (length as) + sent < 2 ^ 63 \<Longrightarrow> 0 \<le> sent \<Longrightarrow> 0 \<le> acked \<Longrightarrow> acked \<le> sent \<Longrightarrow>
   marker_loop ack as ids states sent acked =
     (if length ids < length as then None
      else Some (states @ map (\<lambda>i. \<lparr>cs_WorkerID = i, cs_MessagesInFlight = 0\<rparr>) (take (length as) ids),
        sent + int (length as),
        acked + int (length (filter (\<lambda>a. ack (''http://'' @ a @ ''/snapshot'')) as))))"
proof (induction ack as ids states sent acked rule: marker_loop.induct)
  case (3 ack a as i ids states sent acked)
  have "i64_add sent 1 = sent + 1" "i64_add acked 1 = acked + 1"
    using "3.prems" by (auto intro!: i64_add_1)
  then show ?case using "3.IH" "3.prems" by simp
qed simp_all

text \<open>The record a global snapshot is to save: an empty channel per worker and the markers counted.\<close>

definition marked_snapshot ::
  "(string \<Rightarrow> bool) \<Rightarrow> string slice \<Rightarrow> string slice \<Rightarrow> u64 slice \<Rightarrow> string list \<Rightarrow> string list \<Rightarrow> nat \<Rightarrow> CoordSnapshot" where
  "marked_snapshot ack completed pending primes as ids now =
     \<lparr>cs_CompletedFiles = completed, cs_PendingFiles = pending, cs_CollectedPrimes = primes,
      cs_ChannelStates = Some (map (\<lambda>i. \<lparr>cs_WorkerID = i, cs_MessagesInFlight = 0\<rparr>) (take (length as) ids)),
      cs_MarkersSent = int (length as),
      cs_MarkersAcked = int (length (filter (\<lambda>a. ack (''http://'' @ a @ ''/snapshot'')) as)),
      cs_TimestampUnix = i64_wrap (int (now div 1000))\<rparr>"

text \<open>
  C29: A global snapshot sends one marker to every worker and counts the ones that answer; every
  channel is recorded as empty, beside the lists it was given. With fewer ids than addresses it
  panics and writes nothing. Otherwise, on a machine and a cluster without faults, it reports
  success and this record is the content of the snapshot file on every replica, whatever the
  file held before, every other file being as before.
\<close>

theorem global_snapshot_markers:
  assumes "int (length as) < 2 ^ 63" "calm m" "linked a (Suc (Suc (Suc k))) s"
  shows "if length ids < length as then InitiateSnapshot m ack completed pending primes as ids s = (Panic, s)
    else \<exists>s'. InitiateSnapshot m ack completed pending primes as ids s = (Reply None, s') \<and> linked a k s' \<and>
      all_change a (Put (marshal_coord (marked_snapshot ack completed pending primes as ids (s_now s))) 2)
        CoordSnapshotFile (s_cl s) (s_cl s')"
proof -
  let ?snap = "marked_snapshot ack completed pending primes as ids (s_now s)"
  obtain s' where "SaveCoordSnapshot m ?snap s = (None, s')" "linked a k s'"
      "all_change a (Put (marshal_coord ?snap) 2) CoordSnapshotFile (s_cl s) (s_cl s')"
    using writeToAFS_calm [OF assms(2,3) CoordSnapshotFile_good(1) coord_codec.enc_nonempty, of ?snap]
    by (auto simp: SaveCoordSnapshot_def)
  then show ?thesis
    using marker_loop_result [of as 0 0 ack ids "[]"] assms(1) by (simp add: InitiateSnapshot_def marked_snapshot_def)
qed

theorem global_snapshot_markers_witness:
  "\<exists>s'. InitiateSnapshot calm_machine (\<lambda>_. False) (Some []) None (Some []) [''w:6100''] [''w1''] compose_session = (Reply None, s') \<and>
    all_change ''s1:50051'' (Put (marshal_coord \<lparr>cs_CompletedFiles = Some [], cs_PendingFiles = None, cs_CollectedPrimes = Some [],
      cs_ChannelStates = Some [\<lparr>cs_WorkerID = ''w1'', cs_MessagesInFlight = 0\<rparr>], cs_MarkersSent = 1, cs_MarkersAcked = 0,
      cs_TimestampUnix = i64_wrap (int (s_now compose_session div 1000))\<rparr>) 2) CoordSnapshotFile (s_cl compose_session) (s_cl s')"
proof -
  have l: "linked ''s1:50051'' (Suc (Suc (Suc 1))) compose_session" by (rule compose_linked) simp
  show ?thesis
    using global_snapshot_markers [OF _ calm_machine_calm l, of "[''w:6100'']" "[''w1'']" "\<lambda>_. False" "Some []" None "Some []"]
    by (auto simp: marked_snapshot_def)
qed

end
