(* ===== verification/Worker.thy ===== *)
theory Worker
  imports Snapshot Miller_Rabin
begin

text \<open>
  \<open>primefinder/cmd/worker/main.go\<close>: a worker process. \<open>ProcessFile\<close> opens its own AFS client,
  reads one input file, sends its primes in batches and saves a snapshot of what the worker
  has found so far. The reader goroutine and the scanner are connected by a pipe that keeps the
  order of the bytes, so the model reads first and scans then. The Go map of the primes of one
  file is the list of its keys; ranging over it visits them in an order the runtime chooses
  (\<open>iter\<close>). Whether a \<open>Send\<close> on the response stream fails is given by its position (\<open>serr\<close>).
\<close>

section \<open>State\<close>

definition primeBatchSize :: nat where
  "primeBatchSize = 10000"

record workerServer =
  wk_workerID :: string
  wk_completedFiles :: "string list"
  wk_primesFound :: "u64 list"
  wk_seenPrimes :: "u64 \<rightharpoonup> bool"

record ProcessFileRequest =
  pq_FilePath :: string
  pq_AfsServers :: string
  pq_CacheDir :: string
  pq_WorkerId :: string

record ProcessFileResponse =
  pr_Primes :: "u64 list"
  pr_Error :: string
  pr_Count :: i64
  pr_ElapsedMs :: i64

definition newWorkerServer :: "string \<Rightarrow> workerServer" where
  "newWorkerServer wid =
     \<lparr>wk_workerID = wid, wk_completedFiles = [], wk_primesFound = [], wk_seenPrimes = Map.empty\<rparr>"

definition Health :: "workerServer \<Rightarrow> bool \<times> string" where
  "Health w = (True, wk_workerID w)"

definition currentSnapshot :: "workerServer \<Rightarrow> nat \<Rightarrow> WorkerSnapshot" where
  "currentSnapshot w now =
     \<lparr>ws_WorkerID = wk_workerID w, ws_CompletedFiles = Some (wk_completedFiles w),
      ws_PrimesFound = Some (wk_primesFound w), ws_TimestampUnix = i64_wrap (int (now div 1000))\<rparr>"

text \<open>The HTTP endpoints; \<open>Encode\<close> ends its output with a newline.\<close>

definition http_snapshot :: "workerServer \<Rightarrow> nat \<Rightarrow> bytes" where
  "http_snapshot w now = marshal_worker (currentSnapshot w now) @ [newline]"

definition http_health :: "workerServer \<Rightarrow> bytes" where
  "http_health w = ''worker '' @ wk_workerID w @ '' OK''"

section \<open>Scanning a file\<close>

definition primes_msg :: "u64 list \<Rightarrow> ProcessFileResponse" where
  "primes_msg ps = \<lparr>pr_Primes = ps, pr_Error = [], pr_Count = 0, pr_ElapsedMs = 0\<rparr>"

definition error_msg :: "string \<Rightarrow> ProcessFileResponse" where
  "error_msg e = \<lparr>pr_Primes = [], pr_Error = e, pr_Count = 0, pr_ElapsedMs = 0\<rparr>"

definition count_msg :: "i64 \<Rightarrow> i64 \<Rightarrow> ProcessFileResponse" where
  "count_msg n ms = \<lparr>pr_Primes = [], pr_Error = [], pr_Count = n, pr_ElapsedMs = ms\<rparr>"

record scan =
  sc_fileSeenPrimes :: "u64 list"
  sc_batch :: "u64 list"
  sc_count :: i64
  sc_sent :: "ProcessFileResponse list"

definition send :: "(nat \<Rightarrow> string option) \<Rightarrow> ProcessFileResponse \<Rightarrow> scan \<Rightarrow> string option \<times> scan" where
  "send serr msg sc =
     (case serr (length (sc_sent sc)) of
        Some e \<Rightarrow> (Some e, sc)
      | None \<Rightarrow> (None, sc\<lparr>sc_sent := sc_sent sc @ [msg]\<rparr>))"

text \<open>The body of the scan loop for one line, then the loop; a failed \<open>Send\<close> ends it.\<close>

definition scan_line :: "(nat \<Rightarrow> string option) \<Rightarrow> bytes \<Rightarrow> scan \<Rightarrow> string option \<times> scan" where
  "scan_line serr l sc =
     (let line = TrimSpace l
      in if line = [] then (None, sc)
         else
           (case ParseUint line of
              None \<Rightarrow> (None, sc)
            | Some num \<Rightarrow>
                let sc = sc\<lparr>sc_count := i64_add (sc_count sc) 1\<rparr>
                in if IsPrime num = Some True \<and> num \<notin> set (sc_fileSeenPrimes sc) then
                     let sc = sc\<lparr>sc_fileSeenPrimes := sc_fileSeenPrimes sc @ [num],
                                 sc_batch := sc_batch sc @ [num]\<rparr>
                     in if primeBatchSize \<le> length (sc_batch sc) then
                          (case send serr (primes_msg (sc_batch sc)) sc of
                             (Some e, sc) \<Rightarrow> (Some e, sc)
                           | (None, sc) \<Rightarrow> (None, sc\<lparr>sc_batch := []\<rparr>))
                        else (None, sc)
                   else (None, sc)))"

fun scan_loop :: "(nat \<Rightarrow> string option) \<Rightarrow> bytes list \<Rightarrow> scan \<Rightarrow> string option \<times> scan" where
  "scan_loop serr [] sc = (None, sc)"
| "scan_loop serr (l # ls) sc =
     (case scan_line serr l sc of
        (Some e, sc) \<Rightarrow> (Some e, sc)
      | (None, sc) \<Rightarrow> scan_loop serr ls sc)"

text \<open>What follows the scan when it had no error: the last batch and the count.\<close>

definition send_rest :: "(nat \<Rightarrow> string option) \<Rightarrow> i64 \<Rightarrow> scan \<Rightarrow> string option \<times> scan" where
  "send_rest serr elapsed sc =
     (case (if sc_batch sc \<noteq> [] then send serr (primes_msg (sc_batch sc)) sc else (None, sc)) of
        (Some e, sc) \<Rightarrow> (Some e, sc)
      | (None, sc) \<Rightarrow> send serr (count_msg (sc_count sc) elapsed) sc)"

text \<open>Recording a finished file in the state of the worker.\<close>

definition record_file :: "(u64 list \<Rightarrow> u64 list) \<Rightarrow> string \<Rightarrow> u64 list \<Rightarrow> workerServer \<Rightarrow> workerServer" where
  "record_file iter path seen w =
     (case foldl add_unseen (wk_seenPrimes w, wk_primesFound w) (iter seen) of
        (m, xs) \<Rightarrow> w\<lparr>wk_seenPrimes := m, wk_primesFound := xs,
                      wk_completedFiles := wk_completedFiles w @ [path]\<rparr>)"

section \<open>ProcessFile\<close>

text \<open>
  The result: the messages on the stream, the error the handler returns, the worker, and the
  local files, cluster and clock after the call.
\<close>

type_synonym processed = "ProcessFileResponse list \<times> string option \<times> workerServer \<times> localfs \<times> cluster \<times> nat"

definition leave :: "string option \<times> scan \<Rightarrow> workerServer \<Rightarrow> session \<Rightarrow> processed" where
  "leave r w s = (sc_sent (snd r), fst r, w, files (s_client s), s_cl s, s_now s)"

definition no_scan :: scan where
  "no_scan = \<lparr>sc_fileSeenPrimes = [], sc_batch = [], sc_count = 0, sc_sent = []\<rparr>"

definition finish_file ::
  "machine \<Rightarrow> (nat \<Rightarrow> string option) \<Rightarrow> (u64 list \<Rightarrow> u64 list) \<Rightarrow> nat \<Rightarrow> string \<Rightarrow> workerServer \<Rightarrow> scan \<Rightarrow> session \<Rightarrow>
   processed" where
  "finish_file m serr iter start path w sc s =
     (case send_rest serr (int (s_now s - start)) sc of
        (Some e, sc) \<Rightarrow> leave (Some e, sc) w (CloseConn s)
      | (None, sc) \<Rightarrow>
          let w = record_file iter path (sc_fileSeenPrimes sc) w
          in leave (None, sc) w (CloseConn (snd (SaveWorkerSnapshot m (currentSnapshot w (s_now s)) s))))"

definition ProcessFile ::
  "machine \<Rightarrow> (nat \<Rightarrow> string option) \<Rightarrow> (u64 list \<Rightarrow> u64 list) \<Rightarrow> nat \<Rightarrow> nat \<Rightarrow> ProcessFileRequest \<Rightarrow>
   workerServer \<Rightarrow> localfs \<Rightarrow> cluster \<Rightarrow> nat \<Rightarrow> processed" where
  "ProcessFile m serr iter pid nanos req w fs cl start =
     (case NewClient m pid nanos (split_on (CHR '','') (pq_AfsServers req)) (pq_CacheDir req) fs cl start of
        Inl (e, cl1, now1) \<Rightarrow>
          (case send serr (error_msg (''AFS connect failed: '' @ e)) no_scan of
             (r, sc) \<Rightarrow> (sc_sent sc, r, w, fs, cl1, now1))
      | Inr s \<Rightarrow>
          (case Open m (pq_FilePath req) False s of
             (Inl e, s1) \<Rightarrow> leave (send serr (error_msg (''Open failed: '' @ e)) no_scan) w (CloseConn s1)
           | (Inr hid, s1) \<Rightarrow>
               (case read_all m (64 * 1024) hid s1 of
                  ((data, readErr), s2) \<Rightarrow>
                    let (lines, tooLong) = scan_lines 256 data; s3 = snd (Close m hid s2)
                    in (case scan_loop serr lines no_scan of
                          (Some e, sc) \<Rightarrow> leave (Some e, sc) w (CloseConn s3)
                        | (None, sc) \<Rightarrow>
                            (case (if tooLong then Some ''bufio.Scanner: token too long'' else readErr) of
                               Some e \<Rightarrow> leave (send serr (error_msg (''scan error: '' @ e)) sc) w (CloseConn s3)
                             | None \<Rightarrow> finish_file m serr iter start (pq_FilePath req) w sc s3)))))"

section \<open>The primality test the worker relies on\<close>

text \<open>
  The contract of a test on \<open>uint64\<close>: it accepts every prime, and is exact below a bound. What
  the worker sends follows from the contract alone.
\<close>

locale prime_test =
  fixes accepts :: "u64 \<Rightarrow> bool" and bound :: nat
  assumes complete: "prime_nat (unat n) \<Longrightarrow> accepts n"
    and exact: "unat n < bound \<Longrightarrow> accepts n \<longleftrightarrow> prime_nat (unat n)"
begin

lemma no_prime_lost: "{n \<in> N. prime_nat (unat n)} \<subseteq> {n \<in> N. accepts n}"
  using complete by blast

lemma exact_on: "\<forall>n \<in> N. unat n < bound \<Longrightarrow> {n \<in> N. accepts n} = {n \<in> N. prime_nat (unat n)}"
  using exact by blast

end

definition is_prime :: "u64 \<Rightarrow> bool" where
  "is_prime n \<longleftrightarrow> IsPrime n = Some True"

interpretation mr: prime_test is_prime 1681
  by unfold_locales (simp_all add: is_prime_def IsPrime_strong_test prime_passes strong_test_exact_below)

section \<open>What a scan finds\<close>

definition file_numbers :: "bytes list \<Rightarrow> u64 list" where
  "file_numbers ls = List.map_filter (\<lambda>l. ParseUint (TrimSpace l)) ls"

lemma ParseUint_Nil [simp]: "ParseUint [] = None"
  by (simp add: ParseUint_def)

lemma file_numbers_simps [simp]:
  "file_numbers [] = []"
  "ParseUint (TrimSpace l) = None \<Longrightarrow> file_numbers (l # ls) = file_numbers ls"
  "ParseUint (TrimSpace l) = Some n \<Longrightarrow> file_numbers (l # ls) = n # file_numbers ls"
  by (simp_all add: file_numbers_def List.map_filter_simps)

text \<open>
  The batches that were sent and the current one are the primes of the file so far, each once;
  every batch that was sent is full.
\<close>

definition scan_inv :: "scan \<Rightarrow> bool" where
  "scan_inv sc \<longleftrightarrow> concat (map pr_Primes (sc_sent sc)) @ sc_batch sc = sc_fileSeenPrimes sc \<and>
     distinct (sc_fileSeenPrimes sc) \<and> length (sc_batch sc) < primeBatchSize \<and>
     (\<forall>r \<in> set (sc_sent sc). r = primes_msg (pr_Primes r) \<and> length (pr_Primes r) = primeBatchSize)"

lemma no_scan_inv: "scan_inv no_scan"
  by (simp add: scan_inv_def no_scan_def primeBatchSize_def)

text \<open>One line adds its number to the count, and to the primes if it is a new prime.\<close>

lemma scan_line_spec:
  assumes "scan_line serr l sc = (r, sc')" "scan_inv sc"
  shows "case r of
      None \<Rightarrow> scan_inv sc' \<and>
        set (sc_fileSeenPrimes sc') = set (sc_fileSeenPrimes sc) \<union> {n \<in> set (file_numbers [l]). is_prime n} \<and>
        sc_count sc' = foldl (\<lambda>c _. i64_add c 1) (sc_count sc) (file_numbers [l])
    | Some e \<Rightarrow> \<exists>i. serr i = Some e"
proof (cases "ParseUint (TrimSpace l)")
  case None
  then show ?thesis using assms by (auto simp: scan_line_def Let_def split: if_splits)
next
  case (Some num)
  then have ne: "TrimSpace l \<noteq> []" by auto
  show ?thesis
  proof (cases "is_prime num \<and> num \<notin> set (sc_fileSeenPrimes sc)")
    case False
    then show ?thesis
      using assms Some ne by (auto simp: scan_line_def Let_def is_prime_def scan_inv_def split: if_splits)
  next
    case True
    then have p: "IsPrime num = Some True" "num \<notin> set (sc_fileSeenPrimes sc)" by (simp_all add: is_prime_def)
    show ?thesis
    proof (cases "primeBatchSize \<le> Suc (length (sc_batch sc))")
      case full: True
      then have "length (sc_batch sc) = primeBatchSize - 1" "0 < primeBatchSize"
        using assms(2) by (auto simp: scan_inv_def)
      then show ?thesis
        using assms Some ne p True full
        by (auto simp: scan_line_def Let_def send_def scan_inv_def primes_msg_def split: option.splits)
    next
      case False
      then show ?thesis
        using assms Some ne p True by (auto simp: scan_line_def Let_def scan_inv_def is_prime_def)
    qed
  qed
qed

lemma file_numbers_Cons: "file_numbers (l # ls) = file_numbers [l] @ file_numbers ls"
  by (cases "ParseUint (TrimSpace l)") simp_all

lemma scan_loop_spec:
  assumes "scan_loop serr ls sc = (r, sc')" "scan_inv sc"
  shows "case r of
      None \<Rightarrow> scan_inv sc' \<and>
        set (sc_fileSeenPrimes sc') = set (sc_fileSeenPrimes sc) \<union> {n \<in> set (file_numbers ls). is_prime n} \<and>
        sc_count sc' = foldl (\<lambda>c _. i64_add c 1) (sc_count sc) (file_numbers ls)
    | Some e \<Rightarrow> \<exists>i. serr i = Some e"
  using assms
proof (induction ls arbitrary: sc)
  case (Cons l ls)
  obtain r1 sc1 where l: "scan_line serr l sc = (r1, sc1)" by (metis surj_pair)
  note one = scan_line_spec [OF l Cons.prems(2)]
  show ?case
  proof (cases r1)
    case None
    then have "scan_loop serr ls sc1 = (r, sc')" "scan_inv sc1" using Cons.prems(1) l one by simp_all
    from Cons.IH [OF this] show ?thesis
      using one None by (cases r) (auto simp: file_numbers_Cons [of l ls])
  next
    case (Some e)
    then show ?thesis using Cons.prems(1) l one by auto
  qed
qed simp

lemma count_exact:
  "0 \<le> c \<Longrightarrow> i64_ok (c + int (length ns)) \<Longrightarrow> foldl (\<lambda>c _. i64_add c 1) c ns = c + int (length ns)"
proof (induction ns arbitrary: c)
  case (Cons n ns)
  then have "i64_add c 1 = c + 1" by (intro i64_add_exact) (simp add: i64_ok_def)
  then show ?case using Cons.IH [of "c + 1"] Cons.prems by (simp add: add.assoc)
qed simp

text \<open>The numbers of a file's lines, and the primes among them that the worker finds.\<close>

definition file_lines :: "bytes \<Rightarrow> bytes list" where
  "file_lines b = fst (scan_lines 256 b)"

definition found_in :: "bytes \<Rightarrow> u64 set" where
  "found_in b = {n \<in> set (file_numbers (file_lines b)). is_prime n}"

lemma i64_wrap_add: "i64_wrap (i64_wrap a + b) = i64_wrap (a + b)"
proof -
  define y where "y = (a + 2 ^ 63) mod (2 ^ 64 :: int)"
  have "(y + b) mod 2 ^ 64 = (a + 2 ^ 63 + b) mod 2 ^ 64" unfolding y_def by (rule mod_add_left_eq)
  moreover have "i64_wrap a + b + 2 ^ 63 = y + b" by (simp add: i64_wrap_def y_def)
  moreover have "a + b + 2 ^ 63 = a + 2 ^ 63 + b" by simp
  ultimately show ?thesis by (simp only: i64_wrap_def [of "_ + b"])
qed

lemma count_wraps: "i64_ok c \<Longrightarrow> foldl (\<lambda>c _. i64_add c 1) c ns = i64_wrap (c + int (length ns))"
proof (induction ns arbitrary: c)
  case (Cons n ns)
  have "foldl (\<lambda>c _. i64_add c 1) (i64_add c 1) ns = i64_wrap (i64_add c 1 + int (length ns))"
    by (rule Cons.IH) simp
  then show ?case by (simp add: i64_add_def i64_wrap_add add.assoc)
qed simp

section \<open>The state of a worker\<close>

text \<open>The primes found are kept once each, and \<open>seenPrimes\<close> is the set of them.\<close>

definition worker_inv :: "workerServer \<Rightarrow> bool" where
  "worker_inv w \<longleftrightarrow> seen_ok (wk_seenPrimes w, wk_primesFound w)"

lemma newWorkerServer_inv: "worker_inv (newWorkerServer i)"
  by (simp add: worker_inv_def newWorkerServer_def)

lemma record_file:
  assumes "worker_inv w"
  shows "worker_inv (record_file iter path ps w)"
    "set (wk_primesFound (record_file iter path ps w)) = set (wk_primesFound w) \<union> set (iter ps)"
    "wk_completedFiles (record_file iter path ps w) = wk_completedFiles w @ [path]"
    "wk_workerID (record_file iter path ps w) = wk_workerID w"
proof -
  obtain m xs where f: "foldl add_unseen (wk_seenPrimes w, wk_primesFound w) (iter ps) = (m, xs)" by (metis surj_pair)
  then have r: "record_file iter path ps w =
      w\<lparr>wk_seenPrimes := m, wk_primesFound := xs, wk_completedFiles := wk_completedFiles w @ [path]\<rparr>"
    by (simp add: record_file_def)
  note a = add_all_unseen [OF assms [unfolded worker_inv_def], of "iter ps", unfolded f]
  show "worker_inv (record_file iter path ps w)"
    "set (wk_primesFound (record_file iter path ps w)) = set (wk_primesFound w) \<union> set (iter ps)"
    "wk_completedFiles (record_file iter path ps w) = wk_completedFiles w @ [path]"
    "wk_workerID (record_file iter path ps w) = wk_workerID w"
    unfolding r worker_inv_def using a by simp_all
qed

text \<open>The messages of a file that was processed to its end: full batches, a last batch, the count.\<close>

definition answers :: "u64 set \<Rightarrow> i64 \<Rightarrow> ProcessFileResponse list \<Rightarrow> bool" where
  "answers P n msgs \<longleftrightarrow> (\<forall>r \<in> set msgs. pr_Error r = [] \<and> length (pr_Primes r) \<le> primeBatchSize) \<and>
     distinct (concat (map pr_Primes msgs)) \<and> set (concat (map pr_Primes msgs)) = P \<and>
     msgs \<noteq> [] \<and> (\<exists>ms. last msgs = count_msg n ms)"

lemma send_rest_spec:
  assumes "send_rest serr ms sc = (None, sc')" "scan_inv sc"
  shows "answers (set (sc_fileSeenPrimes sc)) (sc_count sc) (sc_sent sc')"
    "sc_fileSeenPrimes sc' = sc_fileSeenPrimes sc"
proof -
  have f: "sc_sent sc' = sc_sent sc @ (if sc_batch sc \<noteq> [] then [primes_msg (sc_batch sc)] else []) @ [count_msg (sc_count sc) ms]"
    and "sc_fileSeenPrimes sc' = sc_fileSeenPrimes sc"
    using assms(1) by (auto simp: send_rest_def send_def split: if_splits option.splits prod.splits)
  then show "sc_fileSeenPrimes sc' = sc_fileSeenPrimes sc" by simp
  have inv: "concat (map pr_Primes (sc_sent sc)) @ sc_batch sc = sc_fileSeenPrimes sc" "distinct (sc_fileSeenPrimes sc)"
    "length (sc_batch sc) < primeBatchSize"
    "\<forall>r \<in> set (sc_sent sc). pr_Error r = [] \<and> length (pr_Primes r) \<le> primeBatchSize"
    using assms(2) by (auto simp: scan_inv_def primes_msg_def) (metis ProcessFileResponse.select_convs(2))+
  have c: "concat (map pr_Primes (sc_sent sc')) = sc_fileSeenPrimes sc"
    using f inv(1) by (auto simp: primes_msg_def count_msg_def)
  show "answers (set (sc_fileSeenPrimes sc)) (sc_count sc) (sc_sent sc')"
    unfolding answers_def c using f inv(2-4) by (auto simp: primes_msg_def count_msg_def)
qed

lemma send_rest_ok: "\<forall>i. serr i = None \<Longrightarrow> \<exists>sc'. send_rest serr ms sc = (None, sc')"
  by (simp add: send_rest_def send_def)

lemma scan_loop_ok: "\<forall>i. serr i = None \<Longrightarrow> \<exists>sc'. scan_loop serr ls sc = (None, sc')"
proof (induction ls arbitrary: sc)
  case (Cons l ls)
  have "\<exists>sc1. scan_line serr l sc = (None, sc1)"
    using Cons.prems by (auto simp: scan_line_def Let_def send_def split: option.split)
  then obtain sc1 where "scan_line serr l sc = (None, sc1)" by blast
  then show ?case using Cons.IH [OF Cons.prems, of sc1] by simp
qed simp

section \<open>Properties\<close>

text \<open>\<open>ProcessFile\<close> could connect, opened the file and read it to its end: it holds \<open>data\<close>.\<close>

definition read_to_end :: "machine \<Rightarrow> nat \<Rightarrow> nat \<Rightarrow> ProcessFileRequest \<Rightarrow> localfs \<Rightarrow> cluster \<Rightarrow> nat \<Rightarrow> bytes \<Rightarrow> bool" where
  "read_to_end m pid nanos req fs cl start data \<longleftrightarrow>
     (\<exists>s hid s1 s2. NewClient m pid nanos (split_on (CHR '','') (pq_AfsServers req)) (pq_CacheDir req) fs cl start = Inr s \<and>
        Open m (pq_FilePath req) False s = (Inr hid, s1) \<and> read_all m (64 * 1024) hid s1 = ((data, None), s2))"

text \<open>The stream ends with a message that carries an error.\<close>

definition ends_in_error :: "ProcessFileResponse list \<Rightarrow> bool" where
  "ends_in_error msgs \<longleftrightarrow> msgs \<noteq> [] \<and> pr_Error (last msgs) \<noteq> []"

lemma send_error: "send serr (error_msg e) sc = (None, sc') \<Longrightarrow> e \<noteq> [] \<Longrightarrow> ends_in_error (sc_sent sc')"
  by (auto simp: send_def ends_in_error_def error_msg_def split: option.splits)

lemma finish_file_spec:
  assumes "finish_file m serr iter start path w sc s = (msgs, err, w', rest)" "scan_inv sc"
  shows "w' = w \<and> err \<noteq> None \<or>
    err = None \<and> w' = record_file iter path (sc_fileSeenPrimes sc) w \<and>
    answers (set (sc_fileSeenPrimes sc)) (sc_count sc) msgs"
proof -
  obtain r sc' where f: "send_rest serr (int (s_now s - start)) sc = (r, sc')" by (metis surj_pair)
  show ?thesis
  proof (cases r)
    case None
    then show ?thesis
      using assms(1) f send_rest_spec [of serr "int (s_now s - start)" sc sc'] assms(2)
      by (auto simp: finish_file_def leave_def Let_def)
  qed (use assms(1) f in \<open>auto simp: finish_file_def leave_def\<close>)
qed

lemma leave_error:
  "leave (send serr (error_msg e) sc) w s = (msgs, err, w', rest) \<Longrightarrow> e \<noteq> [] \<Longrightarrow>
   w' = w \<and> (err = None \<longrightarrow> ends_in_error msgs)"
  using send_error [of serr e sc "snd (send serr (error_msg e) sc)"] by (auto simp: leave_def prod_eq_iff)

lemma ProcessFile_recorded:
  assumes "ProcessFile m serr iter pid nanos req w fs cl start = (msgs, err, w', rest)"
  shows "w' = w \<and> (err = None \<longrightarrow> ends_in_error msgs) \<or>
    (\<exists>seen data. err = None \<and> w' = record_file iter (pq_FilePath req) seen w \<and> set seen = found_in data \<and>
      read_to_end m pid nanos req fs cl start data \<and> \<not> snd (scan_lines 256 data) \<and>
      answers (found_in data) (i64_wrap (int (length (file_numbers (file_lines data))))) msgs)"
proof (cases "NewClient m pid nanos (split_on (CHR '','') (pq_AfsServers req)) (pq_CacheDir req) fs cl start")
  case (Inl x)
  then show ?thesis using assms by (cases x) (auto simp: ProcessFile_def dest: send_error split: prod.splits)
next
  case nc: (Inr s)
  obtain ro s1 where op: "Open m (pq_FilePath req) False s = (ro, s1)" by (metis surj_pair)
  show ?thesis
  proof (cases ro)
    case (Inl e)
    then have "leave (send serr (error_msg (''Open failed: '' @ e)) no_scan) w (CloseConn s1) = (msgs, err, w', rest)"
      using assms nc op by (simp add: ProcessFile_def)
    from leave_error [OF this] show ?thesis by simp
  next
    case (Inr hid)
    obtain data readErr s2 where rd: "read_all m (64 * 1024) hid s1 = ((data, readErr), s2)" by (metis surj_pair)
    obtain long where sl: "scan_lines 256 data = (file_lines data, long)" by (metis file_lines_def prod.collapse)
    obtain r sc where lp: "scan_loop serr (file_lines data) no_scan = (r, sc)" by (metis surj_pair)
    let ?s3 = "snd (Close m hid s2)"
    have eq: "(case r of Some e \<Rightarrow> leave (Some e, sc) w (CloseConn ?s3)
        | None \<Rightarrow> (case (if long then Some ''bufio.Scanner: token too long'' else readErr) of
            Some e \<Rightarrow> leave (send serr (error_msg (''scan error: '' @ e)) sc) w (CloseConn ?s3)
          | None \<Rightarrow> finish_file m serr iter start (pq_FilePath req) w sc ?s3)) = (msgs, err, w', rest)"
      using assms nc op Inr rd sl lp by (cases r) (simp_all add: ProcessFile_def Let_def)
    consider (stopped) e where "r = Some e"
      | (bad) e where "r = None" "(if long then Some ''bufio.Scanner: token too long'' else readErr) = Some e"
      | (complete) "r = None" "\<not> long" "readErr = None" by (cases r; cases long; cases readErr) auto
    then show ?thesis
    proof cases
      case stopped
      then show ?thesis using eq by (auto simp: leave_def)
    next
      case bad
      then have "leave (send serr (error_msg (''scan error: '' @ e)) sc) w (CloseConn ?s3) = (msgs, err, w', rest)"
        using eq by simp
      from leave_error [OF this] show ?thesis by simp
    next
      case complete
      then have ff: "finish_file m serr iter start (pq_FilePath req) w sc ?s3 = (msgs, err, w', rest)" using eq by simp
      have sc: "scan_inv sc" "set (sc_fileSeenPrimes sc) = found_in data"
          "sc_count sc = i64_wrap (int (length (file_numbers (file_lines data))))"
        using scan_loop_spec [OF lp no_scan_inv] complete(1) count_wraps [of 0 "file_numbers (file_lines data)"]
        by (auto simp: no_scan_def found_in_def i64_ok_def)
      have "read_to_end m pid nanos req fs cl start data"
        unfolding read_to_end_def using nc op Inr rd complete(3) by blast
      moreover have "\<not> snd (scan_lines 256 data)" using sl complete(2) by simp
      ultimately have "read_to_end m pid nanos req fs cl start data" "\<not> snd (scan_lines 256 data)" by blast+
      with finish_file_spec [OF ff sc(1)] show ?thesis
        unfolding sc(2,3) by (elim disjE) (auto intro!: exI [of _ "sc_fileSeenPrimes sc"] exI [of _ data] simp: sc(2))
    qed
  qed
qed

text \<open>
  C9: Whatever the network, the disks and the input do, a call of \<open>ProcessFile\<close> keeps the state of
  the worker consistent. Either it leaves the state as it was, and then the call returns an
  error or the last message of the stream carries one. Or the file was opened and read to
  its end without an error and without an over-long line; then the messages of the stream hold
  exactly the numbers of this file that pass the primality test, each once, at most 10000 per
  message and without an error, the last message counts the numbers of the file, and the
  worker adds exactly those primes and the file to its state.
\<close>

theorem ProcessFile_records_only_complete:
  assumes "ProcessFile m serr iter pid nanos req w fs cl start = (msgs, err, w', rest)"
    and "worker_inv w" "\<forall>xs. set (iter xs) = set xs"
  shows "worker_inv w' \<and> wk_workerID w' = wk_workerID w \<and>
    (w' = w \<and> (err = None \<longrightarrow> ends_in_error msgs) \<or>
     err = None \<and> wk_completedFiles w' = wk_completedFiles w @ [pq_FilePath req] \<and>
      (\<exists>data. read_to_end m pid nanos req fs cl start data \<and> \<not> snd (scan_lines 256 data) \<and>
        answers (found_in data) (i64_wrap (int (length (file_numbers (file_lines data))))) msgs \<and>
        set (wk_primesFound w') = set (wk_primesFound w) \<union> found_in data))"
  using ProcessFile_recorded [OF assms(1)]
proof (elim disjE exE conjE)
  fix seen data assume "w' = record_file iter (pq_FilePath req) seen w" "err = None" "set seen = found_in data"
    "read_to_end m pid nanos req fs cl start data" "\<not> snd (scan_lines 256 data)"
    "answers (found_in data) (i64_wrap (int (length (file_numbers (file_lines data))))) msgs"
  then show ?thesis using record_file [OF assms(2), of iter "pq_FilePath req" seen] assms(3) by auto
qed (use assms(2) in simp)

text \<open>A request of the deployment.\<close>

definition compose_request :: ProcessFileRequest where
  "compose_request = \<lparr>pq_FilePath = ''input_dataset_001.txt'', pq_AfsServers = ''s1:50051,s2:50052,s3:50053'',
     pq_CacheDir = ''/tmp/afs-worker-w1'', pq_WorkerId = ''w1''\<rparr>"

definition no_files :: localfs where
  "no_files = \<lparr>names = Map.empty, inodes = (\<lambda>_. []), next_inode = 0\<rparr>"

lemma read_file_calm:
  assumes "calm m" "linked a (Suc k) s" "s_cl s a = Some h" "served h n b v" "cached (cache (s_client s)) = Map.empty"
  shows "\<exists>hid s1 s2 s3 h'. Open m n False s = (Inr hid, s1) \<and> read_all m (64 * 1024) hid s1 = ((b, None), s2) \<and>
    Close m hid s2 = (None, s3) \<and> linked a k s3 \<and> s_cl s3 = (s_cl s)(a \<mapsto> h') \<and> same_files h h'"
proof -
  obtain hid s1 h1 where o: "Open m n False s = (Inr hid, s1)" "linked a k s1" "s_cl s1 = (s_cl s)(a \<mapsto> h1)"
      "same_files h h1" "opened n False b (if b = [] \<or> v \<le> 0 then 0 else v) s hid s1"
    using Open_calm [OF assms(1-4), of b False] assms(5) by auto
  obtain s2 e where r: "read_all m (64 * 1024) hid s1 = ((b, None), s2)" "linked a k s2" "s_cl s2 = s_cl s1"
      "openFiles (cache (s_client s2)) hid = Some e" "\<not> dirty e"
    using read_all_opened [OF assms(1) o(2,5), of "64 * 1024"] by auto
  have "s_cl s2 a = Some h1" using r(3) o(3) by simp
  from Close_clean [OF assms(1) r(2) this r(4,5)] obtain s3 h3 where
    c: "Close m hid s2 = (None, s3)" "linked a k s3" "s_cl s3 = (s_cl s2)(a \<mapsto> h3)" "same_files h1 h3" by blast
  have "s_cl s3 = (s_cl s)(a \<mapsto> h3)" using c(3) r(3) o(3) by simp
  then show ?thesis using o(1) r(1) c(1,2) same_files_trans [OF o(4) c(4)] by blast
qed

lemma same_files_content:
  "cl a = Some h \<Longrightarrow> same_files h h' \<Longrightarrow> map_option fst (view (the ((cl(a \<mapsto> h')) r)) x) = map_option fst (view (the (cl r)) x)"
  by (cases "r = a") (simp_all add: same_files_view)

lemma same_files_replicas:
  "cl a = Some h \<Longrightarrow> same_files h h' \<Longrightarrow> replicas a (cl(a \<mapsto> h')) = replicas a cl"
  by (simp add: replicas_def same_files_def same_role_def)

text \<open>Every replica holds \<open>b\<close> under the name \<open>n\<close> now; the contents of the other files are as before.\<close>

definition overwritten :: "string \<Rightarrow> cluster \<Rightarrow> string \<Rightarrow> bytes \<Rightarrow> cluster \<Rightarrow> bool" where
  "overwritten a cl n b cl' \<longleftrightarrow>
     (\<forall>r \<in> replicas a cl. \<forall>x. good_name x \<longrightarrow> map_option fst (view (the (cl' r)) x) =
        (if x = n then Some b else map_option fst (view (the (cl r)) x)))"

lemma finish_file_calm:
  assumes "calm m" "linked a (Suc (Suc (Suc k))) s" "\<forall>i. serr i = None" "scan_inv sc" "worker_inv w"
    "good_name (WorkerSnapshotFile (wk_workerID w))"
  shows "\<exists>msgs w' fs' cl' now' t. finish_file m serr iter start path w sc s = (msgs, None, w', fs', cl', now') \<and>
    answers (set (sc_fileSeenPrimes sc)) (sc_count sc) msgs \<and> w' = record_file iter path (sc_fileSeenPrimes sc) w \<and>
    overwritten a (s_cl s) (WorkerSnapshotFile (wk_workerID w)) (marshal_worker (currentSnapshot w' t)) cl'"
proof -
  obtain sc' where r: "send_rest serr (int (s_now s - start)) sc = (None, sc')" using send_rest_ok [OF assms(3)] by blast
  let ?w = "record_file iter path (sc_fileSeenPrimes sc) w"
  let ?snap = "currentSnapshot ?w (s_now s)"
  obtain s' where w: "SaveWorkerSnapshot m ?snap s = (None, s')"
    and c: "overwritten a (s_cl s) (WorkerSnapshotFile (wk_workerID w)) (marshal_worker ?snap) (s_cl s')"
    using writeToAFS_calm [OF assms(1,2,6) worker_codec.enc_nonempty, of ?snap] all_change_content
    by (fastforce simp: overwritten_def SaveWorkerSnapshot_def currentSnapshot_def record_file(4) [OF assms(5)])
  have "finish_file m serr iter start path w sc s =
      (sc_sent sc', None, ?w, files (s_client (CloseConn s')), s_cl s', s_now (CloseConn s'))"
    using r w send_rest_spec(2) [OF r assms(4)]
    by (simp add: finish_file_def leave_def Let_def CloseConn_def on_client_def)
  then show ?thesis using send_rest_spec(1) [OF r assms(4)] c by blast
qed

lemma ProcessFile_calm:
  assumes "reaches_primary m pid nanos (split_on (CHR '','') (pq_AfsServers req)) a cl"
    and "cl a = Some h" "served h (pq_FilePath req) b v" "worker_inv w" "\<forall>i. serr i = None" "\<forall>xs. set (iter xs) = set xs"
    and "good_name (WorkerSnapshotFile (wk_workerID w))" "int (length (file_numbers (file_lines b))) < 2 ^ 63"
  shows "\<exists>msgs w' fs' cl' now' t. ProcessFile m serr iter pid nanos req w fs cl start = (msgs, None, w', fs', cl', now') \<and>
    (if snd (scan_lines 256 b)
     then w' = w \<and> msgs \<noteq> [] \<and> last msgs = error_msg ''scan error: bufio.Scanner: token too long''
     else answers (found_in b) (int (length (file_numbers (file_lines b)))) msgs \<and>
       wk_completedFiles w' = wk_completedFiles w @ [pq_FilePath req] \<and>
       set (wk_primesFound w') = set (wk_primesFound w) \<union> found_in b \<and>
       overwritten a cl (WorkerSnapshotFile (wk_workerID w)) (marshal_worker (currentSnapshot w' t)) cl')"
proof -
  have cm: "calm m" using assms(1) by (simp add: reaches_primary_def)
  obtain s h1 where nc: "NewClient m pid nanos (split_on (CHR '','') (pq_AfsServers req)) (pq_CacheDir req) fs cl start = Inr s"
      "linked a (Suc 3) s" "s_cl s = cl(a \<mapsto> h1)" "same_files h h1" "cached (cache (s_client s)) = Map.empty"
    using NewClient_calm [OF assms(1), of "Suc 3" "pq_CacheDir req" fs start] assms(2) by auto
  have "resolvePath no_faults h1 n = resolvePath no_faults h n" for n
    using nc(4) by (simp add: resolvePath_def same_files_def same_role_def Let_def)
  then have sv: "served h1 (pq_FilePath req) b v" using assms(3) nc(4) unfolding served_def by (auto simp: same_files_def)
  have "s_cl s a = Some h1" using nc(3) by simp
  from read_file_calm [OF cm nc(2) this sv nc(5)] obtain hid s1 s2 s3 h3 where
    rd: "Open m (pq_FilePath req) False s = (Inr hid, s1)" "read_all m (64 * 1024) hid s1 = ((b, None), s2)"
      "Close m hid s2 = (None, s3)" "linked a 3 s3" "s_cl s3 = (s_cl s)(a \<mapsto> h3)" "same_files h1 h3" by blast
  obtain long where sl: "scan_lines 256 b = (file_lines b, long)" by (metis file_lines_def prod.collapse)
  obtain sc where lp: "scan_loop serr (file_lines b) no_scan = (None, sc)" using scan_loop_ok [OF assms(5)] by blast
  have inv: "scan_inv sc" "set (sc_fileSeenPrimes sc) = found_in b" "sc_count sc = int (length (file_numbers (file_lines b)))"
    using scan_loop_spec [OF lp no_scan_inv] count_exact [of 0 "file_numbers (file_lines b)"] assms(8)
    by (auto simp: no_scan_def found_in_def i64_ok_def)
  show ?thesis
  proof (cases long)
    case True
    have "ProcessFile m serr iter pid nanos req w fs cl start =
        leave (send serr (error_msg (''scan error: '' @ ''bufio.Scanner: token too long'')) sc) w (CloseConn s3)"
      using nc(1) rd(1-3) sl lp True by (simp add: ProcessFile_def)
    then show ?thesis using True sl assms(5) by (simp add: leave_def send_def)
  next
    case False
    have eq: "ProcessFile m serr iter pid nanos req w fs cl start = finish_file m serr iter start (pq_FilePath req) w sc s3"
      using nc(1) rd(1-3) sl lp False by (simp add: ProcessFile_def)
    have rep: "replicas a (s_cl s3) = replicas a cl"
      "map_option fst (view (the (s_cl s3 r)) x) = map_option fst (view (the (cl r)) x)" for r x
      using rd(5) nc(3) same_files_trans [OF nc(4) rd(6)] assms(2)
      by (simp_all add: same_files_replicas same_files_view(1))
    then have ow: "overwritten a (s_cl s3) n y cl' = overwritten a cl n y cl'" for n y cl' by (simp add: overwritten_def)
    have l3: "linked a (Suc (Suc (Suc 0))) s3" using rd(4) by (simp add: numeral_3_eq_3)
    show ?thesis
      using finish_file_calm [OF cm l3 assms(5) inv(1) assms(4,7), of iter start "pq_FilePath req"]
        record_file [OF assms(4), of iter "pq_FilePath req" "sc_fileSeenPrimes sc"] assms(6) inv(2,3) sl False
      unfolding eq ow by auto
  qed
qed

text \<open>
  C8: On a healthy cluster that serves the input file, a worker with a working stream sends exactly
  the numbers of the file that pass the primality test, each once, with the number of all
  numbers at the end, adds them to its state and saves a snapshot of it on every replica. A
  line of 256 bytes or more makes it report an error instead of a count, and nothing is
  recorded.
\<close>

theorem ProcessFile_streams_primes:
  assumes "reaches_primary m pid nanos (split_on (CHR '','') (pq_AfsServers req)) a cl"
    and "cl a = Some h" "served h (pq_FilePath req) b v" "worker_inv w" "\<forall>i. serr i = None" "\<forall>xs. set (iter xs) = set xs"
    and "good_name (WorkerSnapshotFile (wk_workerID w))" "int (length (file_numbers (file_lines b))) < 2 ^ 63"
  shows "\<exists>msgs w' fs' cl' now' t. ProcessFile m serr iter pid nanos req w fs cl start = (msgs, None, w', fs', cl', now') \<and>
    (if snd (scan_lines 256 b)
     then w' = w \<and> msgs \<noteq> [] \<and> last msgs = error_msg ''scan error: bufio.Scanner: token too long''
     else answers (found_in b) (int (length (file_numbers (file_lines b)))) msgs \<and>
       wk_completedFiles w' = wk_completedFiles w @ [pq_FilePath req] \<and>
       set (wk_primesFound w') = set (wk_primesFound w) \<union> found_in b \<and>
       overwritten a cl (WorkerSnapshotFile (wk_workerID w)) (marshal_worker (currentSnapshot w' t)) cl')"
  using assms by (rule ProcessFile_calm)

text \<open>One number per line, as the input files and the final output hold them.\<close>

definition number_file :: "u64 list \<Rightarrow> bytes" where
  "number_file ns = unlines (map (\<lambda>n. show_nat (unat n)) ns)"

lemma scan_number_file: "scan_lines 256 (number_file ns) = (map (\<lambda>n. show_nat (unat n)) ns, False)"
  unfolding number_file_def
  by (rule scan_unlines) (auto intro: order_le_less_trans [OF show_u64_length]
      simp: digits_drop_cr [OF show_nat_digits] digit_not_newline [OF show_nat_digits])

lemma number_file_numbers [simp]: "file_numbers (file_lines (number_file ns)) = ns"
proof -
  have "file_numbers (map (\<lambda>n. show_nat (unat n)) ns) = ns"
    by (induction ns) (simp_all add: TrimSpace_digits [OF show_nat_nonempty show_nat_digits])
  then show ?thesis by (simp add: file_lines_def scan_number_file)
qed

lemma found_in_number_file: "found_in (number_file ns) = {n \<in> set ns. is_prime n}"
  by (simp add: found_in_def)

text \<open>The deployment with input files on its primary.\<close>

definition loaded_server :: "(string \<times> bytes) list \<Rightarrow> server" where
  "loaded_server ins = compose_server (compose_disk @ map (\<lambda>(n, b). (''/data/input/'' @ n, FFile b)) ins) ''s1'' ''s1:50051'' True"

definition loaded :: "(string \<times> bytes) list \<Rightarrow> cluster" where
  "loaded ins = compose(''s1:50051'' \<mapsto> loaded_server ins)"

lemma loaded_ok: "cluster_ok ''s1:50051'' (loaded ins)"
proof -
  have "map_of (map (\<lambda>(n, b). (''/data/input/'' @ n, FFile b)) ins) k \<noteq> Some FDir" for k
    by (auto dest!: map_of_SomeD)
  moreover have "dir_prefix ''/data/output'' = ''/data/output/''" by code_simp
  ultimately have "server_ok (loaded_server ins)"
    by (simp add: server_ok_def loaded_server_def compose_disk_def map_add_def split: option.split)
  then show ?thesis
    by (auto simp: cluster_ok_def replicas_def loaded_def compose_def compose_server_ok)
      (auto simp: loaded_server_def compose_server_def compose_peers_def)
qed

lemma loaded_reaches:
  "reaches_primary calm_machine pid nanos [''s1:50051'', ''s2:50052'', ''s3:50053''] ''s1:50051'' (loaded ins)"
  using loaded_ok [of ins] calm_machine_calm
  by (simp add: reaches_primary_def no_entry_def loaded_def loaded_server_def calm_machine_def)

lemma loaded_server_sel [simp]:
  "disk (loaded_server ins) = compose_disk @ map (\<lambda>(n, b). (''/data/input/'' @ n, FFile b)) ins"
  "inputDir (loaded_server ins) = ''/data/input''" "outputDir (loaded_server ins) = ''/data/output''"
  "versions (loaded_server ins) = Map.empty"
  by (simp_all add: loaded_server_def)

lemma loaded_path: "ordinary n \<Longrightarrow> path_Join ''/data/input'' n = ''/data/input/'' @ n"
proof -
  have "dir_prefix ''/data/input'' = ''/data/input/''" by code_simp
  then show "ordinary n \<Longrightarrow> ?thesis" by (simp add: path_Join_ordinary)
qed

lemma loaded_served:
  assumes "map_of ins n = Some b" "ordinary n"
  shows "served (loaded_server ins) n b 0"
proof -
  have "map_of (map (\<lambda>(n, b). (''/data/input/'' @ n, FFile b)) ins) (''/data/input/'' @ n) = Some (FFile b)"
    using assms(1) by (induction ins) (auto split: if_splits)
  then have m: "map_of (disk (loaded_server ins)) (''/data/input/'' @ n) = Some (FFile b)"
    by (simp add: compose_disk_def)
  have b: "path_Base n = n" "n \<noteq> ''.''" "n \<noteq> ''..''" using assms(2) by (auto simp: path_Base_ordinary ordinary_def)
  have st: "os_Stat no_faults (path_Join (inputDir (loaded_server ins)) n) (disk (loaded_server ins)) = StatOk"
    using m loaded_path [OF assms(2)] by (simp add: os_Stat_def del: loaded_server_sel(1))
  have "resolvePath no_faults (loaded_server ins) n = Inr (path_Join (inputDir (loaded_server ins)) n)"
    using b st by (simp add: resolvePath_def Let_def del: loaded_server_sel)
  then show ?thesis using m loaded_path [OF assms(2)] by (simp add: served_def get0_def del: loaded_server_sel(1))
qed

lemma loaded_missing:
  assumes "map_of ins n = None" "ordinary n"
  shows "missing (loaded_server ins) n"
proof -
  have p: "dir_prefix ''/data/output'' = ''/data/output/''" by code_simp
  have "map_of (map (\<lambda>(n, b). (''/data/input/'' @ n, FFile b)) ins) (''/data/input/'' @ n) = None"
    using assms(1) by (induction ins) (auto split: if_splits)
  moreover have "map_of (map (\<lambda>(n, b). (''/data/input/'' @ n, FFile b)) ins) (''/data/output/'' @ n) = None"
    by (induction ins) auto
  moreover have "n \<noteq> []" using assms(2) by (auto simp: ordinary_def)
  moreover have "outPath (loaded_server ins) n = ''/data/output/'' @ n"
    using outPath_ordinary [of "loaded_server ins" n] assms(2) p by simp
  ultimately show ?thesis
    unfolding missing_def by (simp add: loaded_path [OF assms(2)] compose_disk_def)
qed

lemma test_examples: "is_prime 7" "\<not> is_prime 4"
proof -
  have "prime_nat 7" "\<not> prime_nat 4" by code_simp+
  then show "is_prime 7" "\<not> is_prime 4" using mr.exact [of 7] mr.exact [of 4] by simp_all
qed

theorem ProcessFile_streams_primes_witness:
  "\<exists>msgs w' rest. ProcessFile calm_machine (\<lambda>_. None) rev 1 1 compose_request (newWorkerServer ''w1'') no_files
      (loaded [(''input_dataset_001.txt'', number_file [4, 7, 7])]) 0 = (msgs, None, w', rest) \<and>
    answers {7} 3 msgs \<and> wk_completedFiles w' = [''input_dataset_001.txt'']"
proof -
  let ?ins = "[(''input_dataset_001.txt'', number_file [4, 7, 7])]"
  have sp: "split_on (CHR '','') (pq_AfsServers compose_request) = [''s1:50051'', ''s2:50052'', ''s3:50053'']"
    by (simp add: compose_request_def)
  have g: "good_name (WorkerSnapshotFile (wk_workerID (newWorkerServer ''w1'')))" by code_simp
  have f: "found_in (number_file [4, 7, 7]) = {7}" using test_examples by (auto simp: found_in_number_file)
  have c: "loaded ?ins ''s1:50051'' = Some (loaded_server ?ins)" by (simp add: loaded_def)
  have sv: "served (loaded_server ?ins) (pq_FilePath compose_request) (number_file [4, 7, 7]) 0"
    by (rule loaded_served) (simp_all add: compose_request_def ordinary_def)
  show ?thesis
    using ProcessFile_streams_primes [OF loaded_reaches [of 1 1 ?ins, folded sp] c sv newWorkerServer_inv _ _ g,
        of "\<lambda>_. None" rev no_files 0]
    by (simp add: f scan_number_file compose_request_def newWorkerServer_def) blast
qed

theorem ProcessFile_records_only_complete_witness:
  "\<exists>msgs w' rest data. ProcessFile calm_machine (\<lambda>_. None) rev 1 1 compose_request (newWorkerServer ''w1'') no_files
      (loaded [(''input_dataset_001.txt'', number_file [4, 7, 7])]) 0 = (msgs, None, w', rest) \<and> worker_inv w' \<and>
    read_to_end calm_machine 1 1 compose_request no_files (loaded [(''input_dataset_001.txt'', number_file [4, 7, 7])]) 0 data \<and>
    answers (found_in data) (i64_wrap (int (length (file_numbers (file_lines data))))) msgs"
proof -
  let ?ins = "[(''input_dataset_001.txt'', number_file [4, 7, 7])]"
  have sp: "split_on (CHR '','') (pq_AfsServers compose_request) = [''s1:50051'', ''s2:50052'', ''s3:50053'']"
    by (simp add: compose_request_def)
  have g: "good_name (WorkerSnapshotFile (wk_workerID (newWorkerServer ''w1'')))" by code_simp
  have c: "loaded ?ins ''s1:50051'' = Some (loaded_server ?ins)" by (simp add: loaded_def)
  have sv: "served (loaded_server ?ins) (pq_FilePath compose_request) (number_file [4, 7, 7]) 0"
    by (rule loaded_served) (simp_all add: compose_request_def ordinary_def)
  obtain msgs w' rest where p: "ProcessFile calm_machine (\<lambda>_. None) rev 1 1 compose_request (newWorkerServer ''w1'') no_files
      (loaded ?ins) 0 = (msgs, None, w', rest)" "wk_completedFiles w' = [pq_FilePath compose_request]"
    using ProcessFile_calm [OF loaded_reaches [of 1 1 ?ins, folded sp] c sv newWorkerServer_inv _ _ g,
        of "\<lambda>_. None" rev no_files 0]
    by (simp add: scan_number_file newWorkerServer_def) blast
  have "w' \<noteq> newWorkerServer ''w1''" using p(2) by (auto simp: newWorkerServer_def)
  then obtain data where "worker_inv w'"
      "read_to_end calm_machine 1 1 compose_request no_files (loaded ?ins) 0 data"
      "answers (found_in data) (i64_wrap (int (length (file_numbers (file_lines data))))) msgs"
    using ProcessFile_records_only_complete [OF p(1) newWorkerServer_inv] by auto
  then show ?thesis using p(1) by blast
qed

end
