(* ===== verification/Coordinator.thy ===== *)
theory Coordinator
  imports Worker "HOL-Library.Multiset"
begin

text \<open>
  \<open>primefinder/pkg/coordinator/coordinator.go\<close>: the coordinator finds the input files on AFS,
  hands them to the workers, merges their primes, saves a snapshot after every file and writes
  the sorted result. Workers are reached over the network: what they answer is given by
  \<open>re_rpc\<close>, in the terms of \<open>Worker\<close>. The goroutines, one per worker, put their results on a
  channel; \<open>re_sched\<close> is the order in which they arrive. Go maps that are ranged over are the
  list of their keys, visited in the order \<open>re_iter\<close> chooses.
\<close>

section \<open>Data\<close>

record Config =
  AfsServers :: "string list"
  WorkerAddrs :: "string list"
  cf_CacheDir :: string
  OutputFile :: string

record workerResult =
  wr_workerID :: string
  wr_filePath :: string
  wr_primes :: "u64 list"
  wr_count :: i64
  wr_elapsed :: i64
  wr_err :: "string option"

record workerConn =
  wc_id :: string
  wc_addr :: string

text \<open>The messages received on a \<open>ProcessFile\<close> stream with its status, or the error of the call.\<close>

type_synonym stream_result = "(ProcessFileResponse list \<times> string option) res"

record run_env =
  re_machine :: machine
  re_pid :: nat
  re_nanos :: nat
  re_dial :: "string \<Rightarrow> bool"
  re_health :: "nat \<Rightarrow> string \<Rightarrow> bool"
  re_rpc :: "string \<Rightarrow> workerConn \<Rightarrow> ProcessFileRequest \<Rightarrow> stream_result"
  re_sched :: "workerResult list list \<Rightarrow> workerResult list"
  re_acks :: "nat \<Rightarrow> string \<Rightarrow> bool"
  re_iter :: "u64 list \<Rightarrow> u64 list"

section \<open>Input files\<close>

definition input_name :: "nat \<Rightarrow> string" where
  "input_name i = ''input_dataset_'' @ show_nat03 i @ ''.txt''"

text \<open>\<open>n\<close> more names to try, from number \<open>i\<close> on.\<close>

fun discover_loop :: "machine \<Rightarrow> nat \<Rightarrow> nat \<Rightarrow> session \<Rightarrow> string list \<times> session" where
  "discover_loop m 0 i s = ([], s)"
| "discover_loop m (Suc n) i s =
     (case Open m (input_name i) False s of
        (Inl e, s1) \<Rightarrow> ([], s1)
      | (Inr hid, s1) \<Rightarrow>
          (case discover_loop m n (Suc i) (snd (Close m hid s1)) of
             (fs, s2) \<Rightarrow> (input_name i # fs, s2)))"

definition discoverInputFiles :: "machine \<Rightarrow> session \<Rightarrow> string list \<times> session" where
  "discoverInputFiles m s = discover_loop m 9999 1 s"

text \<open>A slice to which nothing was appended is nil.\<close>

definition filterPending :: "string list \<Rightarrow> string list \<Rightarrow> string slice" where
  "filterPending all completed =
     (let d = foldl (\<lambda>d f. d(f \<mapsto> True)) Map.empty completed;
          pending = filter (\<lambda>f. \<not> getb d f) all
      in if pending = [] then None else Some pending)"

section \<open>Workers\<close>

fun connect_workers :: "(string \<Rightarrow> bool) \<Rightarrow> (nat \<Rightarrow> string \<Rightarrow> bool) \<Rightarrow> nat \<Rightarrow> string list \<Rightarrow> workerConn list" where
  "connect_workers dial health i [] = []"
| "connect_workers dial health i (addr # addrs) =
     (if dial addr \<and> health i addr
      then \<lparr>wc_id = ''w'' @ show_nat (i + 1), wc_addr = addr\<rparr> # connect_workers dial health (Suc i) addrs
      else connect_workers dial health (Suc i) addrs)"

definition connectToWorkers ::
  "(string \<Rightarrow> bool) \<Rightarrow> (nat \<Rightarrow> string \<Rightarrow> bool) \<Rightarrow> string list \<Rightarrow> workerConn list res" where
  "connectToWorkers dial health addrs =
     (let workers = connect_workers dial health 0 addrs
      in if workers = [] then Inl ''no workers available'' else Inr workers)"

text \<open>The assignments by worker address; \<open>None\<close> is the panic on a remainder by zero.\<close>

definition append_to :: "(string \<rightharpoonup> string list) \<Rightarrow> string \<Rightarrow> string \<Rightarrow> (string \<rightharpoonup> string list)" where
  "append_to m k f = m(k \<mapsto> (case m k of None \<Rightarrow> [] | Some fs \<Rightarrow> fs) @ [f])"

fun assign_loop ::
  "nat \<Rightarrow> string list \<Rightarrow> workerConn list \<Rightarrow> (string \<rightharpoonup> string list) \<Rightarrow> (string \<rightharpoonup> string list) option" where
  "assign_loop i [] workers m = Some m"
| "assign_loop i (f # fs) workers m =
     (if workers = [] then None
      else assign_loop (Suc i) fs workers (append_to m (wc_addr (workers ! (i mod length workers))) f))"

definition assignFiles :: "string list \<Rightarrow> workerConn list \<Rightarrow> (string \<rightharpoonup> string list) option" where
  "assignFiles fs workers = assign_loop 0 fs workers Map.empty"

fun recv_loop ::
  "ProcessFileResponse list \<Rightarrow> string option \<Rightarrow> u64 list \<Rightarrow> i64 \<Rightarrow> i64 \<Rightarrow> (u64 list \<times> i64 \<times> i64) res" where
  "recv_loop [] None ps n ms = Inr (ps, n, ms)"
| "recv_loop [] (Some e) ps n ms = Inl e"
| "recv_loop (c # cs) st ps n ms =
     (if pr_Error c \<noteq> [] then Inl (pr_Error c)
      else recv_loop cs st (ps @ pr_Primes c)
             (if 0 < pr_Count c then pr_Count c else n)
             (if 0 < pr_ElapsedMs c then pr_ElapsedMs c else ms))"

definition failed :: "string \<Rightarrow> string \<Rightarrow> string \<Rightarrow> workerResult" where
  "failed i f e = \<lparr>wr_workerID = i, wr_filePath = f, wr_primes = [], wr_count = 0, wr_elapsed = 0, wr_err = Some e\<rparr>"

definition tryWorker ::
  "(workerConn \<Rightarrow> ProcessFileRequest \<Rightarrow> stream_result) \<Rightarrow> workerConn \<Rightarrow> string \<Rightarrow> Config \<Rightarrow> workerResult" where
  "tryWorker rpc w filePath cfg =
     (case rpc w \<lparr>pq_FilePath = filePath, pq_AfsServers = join_with '','' (AfsServers cfg),
                  pq_CacheDir = ''/tmp/afs-worker-'' @ wc_id w, pq_WorkerId = wc_id w\<rparr> of
        Inl e \<Rightarrow> failed (wc_id w) filePath e
      | Inr (chunks, st) \<Rightarrow>
          (case recv_loop chunks st [] 0 0 of
             Inl e \<Rightarrow> failed (wc_id w) filePath e
           | Inr (ps, n, ms) \<Rightarrow>
               \<lparr>wr_workerID = wc_id w, wr_filePath = filePath, wr_primes = ps, wr_count = n,
                wr_elapsed = ms, wr_err = None\<rparr>))"

text \<open>The other workers in turn; \<open>w\<close> is the one that has failed already.\<close>

fun try_others ::
  "(workerConn \<Rightarrow> ProcessFileRequest \<Rightarrow> stream_result) \<Rightarrow> workerConn \<Rightarrow> string \<Rightarrow> Config \<Rightarrow> workerConn list \<Rightarrow>
   workerResult" where
  "try_others rpc w filePath cfg [] = failed (wc_id w) filePath (''all workers failed for '' @ filePath)"
| "try_others rpc w filePath cfg (x # xs) =
     (if wc_id x = wc_id w then try_others rpc w filePath cfg xs
      else
        let res = tryWorker rpc x filePath cfg
        in if wr_err res = None then res else try_others rpc w filePath cfg xs)"

definition processOneFile ::
  "(workerConn \<Rightarrow> ProcessFileRequest \<Rightarrow> stream_result) \<Rightarrow> workerConn \<Rightarrow> string \<Rightarrow> Config \<Rightarrow> workerConn list \<Rightarrow>
   workerResult" where
  "processOneFile rpc w filePath cfg allWorkers =
     (let res = tryWorker rpc w filePath cfg
      in if wr_err res = None then res else try_others rpc w filePath cfg allWorkers)"

definition buildWorkerHTTPAddrs :: "workerConn list \<Rightarrow> string list \<times> string list" where
  "buildWorkerHTTPAddrs workers =
     (map (\<lambda>w. let parts = split_n2 (CHR '':'') (wc_addr w);
                   host = parts ! 0;
                   httpPort = (if length parts = 2
                     then let grpcPort = parts ! 1
                          in if length grpcPort = 4 \<and> grpcPort ! 0 = CHR ''6'' then ''6100'' else ''6100''
                     else ''6100'')
               in host @ '':'' @ httpPort) workers,
      map wc_id workers)"

section \<open>Output\<close>

definition dedupAndSort :: "(u64 list \<Rightarrow> u64 list) \<Rightarrow> u64 list \<Rightarrow> u64 list" where
  "dedupAndSort iter primes =
     (let keys = foldl (\<lambda>ks p. if p \<in> set ks then ks else ks @ [p]) [] primes
      in sort (iter keys))"

definition writeFinalOutput ::
  "machine \<Rightarrow> (u64 list \<Rightarrow> u64 list) \<Rightarrow> string \<Rightarrow> u64 list \<Rightarrow> session \<Rightarrow> string option \<times> session" where
  "writeFinalOutput m iter outputFile primes s =
     (let unique = dedupAndSort iter primes
      in case CreateFile m outputFile (snd (DeleteFile m outputFile s)) of
           (Inl e, s1) \<Rightarrow> (Some (''CreateFile '' @ outputFile @ '': '' @ e), s1)
         | (Inr hid, s1) \<Rightarrow>
             let sb = concat (map (\<lambda>p. show_nat (unat p) @ [newline]) unique)
             in (case Write m hid sb s1 of
                   (Inl e, s2) \<Rightarrow> (Some (''Write '' @ outputFile @ '': '' @ e), snd (Close m hid s2))
                 | (Inr _, s2) \<Rightarrow>
                     (case Close m hid s2 of
                        (Some e, s3) \<Rightarrow> (Some (''Close '' @ outputFile @ '': '' @ e), s3)
                      | (None, s3) \<Rightarrow> (None, s3))))"

section \<open>Run\<close>

text \<open>The variables of the main loop.\<close>

record progress =
  pg_seen :: "u64 \<rightharpoonup> bool"
  pg_primes :: "u64 list"
  pg_completed :: "string list"

definition merge_primes :: "u64 list \<Rightarrow> progress \<Rightarrow> progress" where
  "merge_primes ps g =
     (case foldl add_unseen (pg_seen g, pg_primes g) ps of
        (m, xs) \<Rightarrow> g\<lparr>pg_seen := m, pg_primes := xs\<rparr>)"

text \<open>
  One result: an error is skipped, a finished file is merged and a snapshot is saved. The lists
  of addresses and ids have the same length, so the snapshot does not panic; its error is only
  logged. \<open>k\<close> numbers the results.
\<close>

definition collect_one ::
  "run_env \<Rightarrow> string list \<Rightarrow> workerConn list \<Rightarrow> nat \<Rightarrow> workerResult \<Rightarrow> progress \<times> session \<Rightarrow> progress \<times> session" where
  "collect_one env allInputFiles workers k res gs =
     (case gs of (g, s) \<Rightarrow>
        if wr_err res \<noteq> None then (g, s)
        else
          let g = merge_primes (wr_primes res) g;
              g = g\<lparr>pg_completed := pg_completed g @ [wr_filePath res]\<rparr>;
              (httpAddrs, ids) = buildWorkerHTTPAddrs workers
          in (g, snd (InitiateSnapshot (re_machine env) (re_acks env k) (Some (pg_completed g))
                (filterPending allInputFiles (pg_completed g)) (Some (pg_primes g)) httpAddrs ids s)))"

fun collect_loop ::
  "run_env \<Rightarrow> string list \<Rightarrow> workerConn list \<Rightarrow> nat \<Rightarrow> workerResult list \<Rightarrow> progress \<times> session \<Rightarrow> progress \<times> session" where
  "collect_loop env allInputFiles workers k [] gs = gs"
| "collect_loop env allInputFiles workers k (r # rs) gs =
     collect_loop env allInputFiles workers (Suc k) rs (collect_one env allInputFiles workers k r gs)"

text \<open>What the goroutines put on the channel, one list per worker.\<close>

definition worker_results ::
  "run_env \<Rightarrow> Config \<Rightarrow> workerConn list \<Rightarrow> (string \<rightharpoonup> string list) \<Rightarrow> workerResult list list" where
  "worker_results env cfg workers assignments =
     map (\<lambda>w. case assignments (wc_addr w) of
            None \<Rightarrow> []
          | Some fs \<Rightarrow> map (\<lambda>f. processOneFile (re_rpc env (wc_id w)) w f cfg workers) fs) workers"

text \<open>
  From the connection to the workers on. There is at least one worker then, so the assignment
  does not panic.
\<close>

definition run_pending ::
  "run_env \<Rightarrow> Config \<Rightarrow> string list \<Rightarrow> string list \<Rightarrow> u64 list \<Rightarrow> string list \<Rightarrow> session \<Rightarrow> string option \<times> session" where
  "run_pending env cfg allInputFiles pendingFiles collectedPrimes completedFiles s =
     (case connectToWorkers (re_dial env) (re_health env) (WorkerAddrs cfg) of
        Inl e \<Rightarrow> (Some (''connect workers: '' @ e), s)
      | Inr workers \<Rightarrow>
          (case assignFiles pendingFiles workers of
             None \<Rightarrow> (Some ''panic'', s)
           | Some assignments \<Rightarrow>
               (case collect_loop env allInputFiles workers 0 (re_sched env (worker_results env cfg workers assignments))
                       (\<lparr>pg_seen = BuildSeenSet collectedPrimes, pg_primes = collectedPrimes,
                         pg_completed = completedFiles\<rparr>, s) of
                  (g, s1) \<Rightarrow>
                    (case writeFinalOutput (re_machine env) (re_iter env) (OutputFile cfg) (pg_primes g) s1 of
                       (Some e, s2) \<Rightarrow> (Some e, s2)
                     | (None, s2) \<Rightarrow>
                         (None, foldl (\<lambda>s w. DeleteWorkerSnapshot (re_machine env) (wc_id w) s)
                                  (DeleteCoordSnapshot (re_machine env) s2) workers)))))"

definition run_session :: "run_env \<Rightarrow> Config \<Rightarrow> session \<Rightarrow> string option \<times> session" where
  "run_session env cfg s =
     (case discoverInputFiles (re_machine env) s of
        (allInputFiles, s1) \<Rightarrow>
          if allInputFiles = [] then (Some ''no input files found on AFS server'', s1)
          else
            (case LoadCoordSnapshot (re_machine env) s1 of
               (r, s2) \<Rightarrow>
                 let (completedFiles, collectedPrimes) =
                       (case r of Inr (Some snap) \<Rightarrow> (elems (cs_CompletedFiles snap), elems (cs_CollectedPrimes snap))
                        | _ \<Rightarrow> ([], []))
                 in (case filterPending allInputFiles completedFiles of
                       None \<Rightarrow> writeFinalOutput (re_machine env) (re_iter env) (OutputFile cfg) collectedPrimes s2
                     | Some pendingFiles \<Rightarrow>
                         run_pending env cfg allInputFiles pendingFiles collectedPrimes completedFiles s2)))"

definition Run ::
  "run_env \<Rightarrow> Config \<Rightarrow> localfs \<Rightarrow> cluster \<Rightarrow> nat \<Rightarrow> string option \<times> cluster \<times> nat" where
  "Run env cfg fs cl now =
     (case NewClient (re_machine env) (re_pid env) (re_nanos env) (AfsServers cfg) (cf_CacheDir cfg) fs cl now of
        Inl (e, cl1, now1) \<Rightarrow> (Some (''AFS connect: '' @ e), cl1, now1)
      | Inr s \<Rightarrow> (case run_session env cfg s of (r, s1) \<Rightarrow> (r, s_cl (CloseConn s1), s_now (CloseConn s1))))"

section \<open>Pure parts\<close>

lemma done_map: "getb (foldl (\<lambda>d f. d(f \<mapsto> True)) m fs) f \<longleftrightarrow> f \<in> set fs \<or> getb m f"
  by (induction fs arbitrary: m) (auto simp: getb_def)

lemma filterPending_elems: "elems (filterPending all completed) = filter (\<lambda>f. f \<notin> set completed) all"
  by (simp add: filterPending_def Let_def elems_def done_map getb_def [of Map.empty])

lemma filterPending_None: "filterPending all completed = None \<longleftrightarrow> set all \<subseteq> set completed"
  by (auto simp: filterPending_def Let_def done_map getb_def [of Map.empty] filter_empty_conv)

lemma BuildSeenSet_mem: "getb (BuildSeenSet ps) p \<longleftrightarrow> p \<in> set ps"
  by (simp add: BuildSeenSet_def done_map getb_def [of Map.empty])

lemma keys_of:
  "distinct ks \<Longrightarrow> distinct (foldl (\<lambda>ks p. if p \<in> set ks then ks else ks @ [p]) ks ps) \<and>
   set (foldl (\<lambda>ks p. if p \<in> set ks then ks else ks @ [p]) ks ps) = set ks \<union> set ps"
proof (induction ps arbitrary: ks)
  case (Cons p ps)
  then show ?case using Cons.IH [of "if p \<in> set ks then ks else ks @ [p]"] by auto
qed simp

text \<open>An order in which a map is ranged over visits every key once.\<close>

definition ranges :: "('a list \<Rightarrow> 'a list) \<Rightarrow> bool" where
  "ranges iter \<longleftrightarrow> (\<forall>xs. distinct xs \<longrightarrow> distinct (iter xs) \<and> set (iter xs) = set xs)"

lemma dedupAndSort_set: "ranges iter \<Longrightarrow> dedupAndSort iter ps = sorted_list_of_set (set ps)"
proof -
  assume r: "ranges iter"
  let ?ks = "foldl (\<lambda>ks p. if p \<in> set ks then ks else ks @ [p]) [] ps"
  have "distinct (iter ?ks)" "set (iter ?ks) = set ps"
    using keys_of [of "[]" ps] r by (auto simp: ranges_def)
  moreover have "sorted_list_of_set (set xs) = sort xs" if "distinct xs" for xs :: "u64 list"
    by (rule sorted_distinct_set_unique) (use that in simp_all)
  ultimately have "sort (iter ?ks) = sorted_list_of_set (set ps)" by fastforce
  then show ?thesis by (simp add: dedupAndSort_def Let_def)
qed

lemma writeFinalOutput_write:
  "writeFinalOutput m iter n ps s = writeToAFS m n (number_file (dedupAndSort iter ps)) s"
proof -
  have d: "number_file qs = concat (map (\<lambda>p. show_nat (unat p) @ [newline]) qs)" for qs
    by (induction qs) (simp_all add: number_file_def)
  show ?thesis unfolding writeFinalOutput_def writeToAFS_def Let_def d by (rule refl)
qed

lemma buildWorkerHTTPAddrs_length:
  "length (fst (buildWorkerHTTPAddrs ws)) = length ws" "snd (buildWorkerHTTPAddrs ws) = map wc_id ws"
  by (simp_all add: buildWorkerHTTPAddrs_def)

subsection \<open>Assignment\<close>

text \<open>The files that fall on position \<open>j\<close> of \<open>n\<close> when they are dealt from position \<open>i\<close> on.\<close>

fun dealt :: "nat \<Rightarrow> nat \<Rightarrow> nat \<Rightarrow> 'a list \<Rightarrow> 'a list" where
  "dealt n j i [] = []"
| "dealt n j i (f # fs) = (if i mod n = j then [f] else []) @ dealt n j (Suc i) fs"

lemma assign_loop_dealt:
  assumes "ws \<noteq> []" "distinct (map wc_addr ws)" "assign_loop i fs ws m = Some m'" "j < length ws"
  shows "(case m' (wc_addr (ws ! j)) of None \<Rightarrow> [] | Some gs \<Rightarrow> gs) =
    (case m (wc_addr (ws ! j)) of None \<Rightarrow> [] | Some gs \<Rightarrow> gs) @ dealt (length ws) j i fs"
  using assms(3)
proof (induction fs arbitrary: i m)
  case (Cons f fs)
  have eq: "wc_addr (ws ! j) = wc_addr (ws ! (i mod length ws)) \<longleftrightarrow> j = i mod length ws"
    using assms(1,2,4) nth_eq_iff_index_eq [of "map wc_addr ws" j "i mod length ws"] by simp
  let ?m = "append_to m (wc_addr (ws ! (i mod length ws))) f"
  have "(case ?m (wc_addr (ws ! j)) of None \<Rightarrow> [] | Some gs \<Rightarrow> gs) =
      (case m (wc_addr (ws ! j)) of None \<Rightarrow> [] | Some gs \<Rightarrow> gs) @ (if i mod length ws = j then [f] else [])"
    using eq by (auto simp: append_to_def)
  moreover have "assign_loop (Suc i) fs ws ?m = Some m'" using Cons.prems assms(1) by simp
  note Cons.IH [OF this]
  ultimately show ?case by simp
qed simp

lemma assign_loop_defined: "ws \<noteq> [] \<Longrightarrow> \<exists>m'. assign_loop i fs ws m = Some m'"
  by (induction fs arbitrary: i m) auto

lemma dealt_mset:
  assumes "0 < n"
  shows "(\<Sum>j<n. mset (dealt n j i fs)) = mset fs"
proof (induction fs arbitrary: i)
  case (Cons f fs)
  have "(\<Sum>j<n. mset (dealt n j i (f # fs))) =
      (\<Sum>j<n. if j = i mod n then {#f#} else {#}) + (\<Sum>j<n. mset (dealt n j (Suc i) fs))"
    by (simp only: sum.distrib [symmetric]) (rule sum.cong; auto)
  also have "\<dots> = {#f#} + mset fs" using assms by (simp add: Cons.IH sum.delta)
  finally show ?case by simp
qed simp

subsection \<open>Results of the workers\<close>

lemma recv_loop_ok:
  "recv_loop cs st ps n ms = Inr (ps', n', ms') \<Longrightarrow>
   st = None \<and> (\<forall>c \<in> set cs. pr_Error c = []) \<and> ps' = ps @ concat (map pr_Primes cs)"
  by (induction cs st ps n ms rule: recv_loop.induct) (auto split: if_splits)

lemma recv_loop_complete:
  "\<forall>c \<in> set cs. pr_Error c = [] \<Longrightarrow> \<exists>n' ms'. recv_loop cs None ps n ms = Inr (ps @ concat (map pr_Primes cs), n', ms')"
proof (induction cs arbitrary: ps n ms)
  case (Cons c cs)
  then show ?case
    using Cons.IH [of "ps @ pr_Primes c" "if 0 < pr_Count c then pr_Count c else n"
        "if 0 < pr_ElapsedMs c then pr_ElapsedMs c else ms"] by simp
qed simp

definition request :: "Config \<Rightarrow> workerConn \<Rightarrow> string \<Rightarrow> ProcessFileRequest" where
  "request cfg w f = \<lparr>pq_FilePath = f, pq_AfsServers = join_with '','' (AfsServers cfg),
     pq_CacheDir = ''/tmp/afs-worker-'' @ wc_id w, pq_WorkerId = wc_id w\<rparr>"

text \<open>A stream that ended without error and without an error message.\<close>

definition complete_stream :: "stream_result \<Rightarrow> bool" where
  "complete_stream r \<longleftrightarrow> (\<exists>cs. r = Inr (cs, None) \<and> (\<forall>c \<in> set cs. pr_Error c = []))"

definition stream_primes :: "stream_result \<Rightarrow> u64 set" where
  "stream_primes r = (case r of Inl e \<Rightarrow> {} | Inr (cs, st) \<Rightarrow> set (concat (map pr_Primes cs)))"

lemma tryWorker_file [simp]: "wr_filePath (tryWorker rpc w f cfg) = f"
  by (simp add: tryWorker_def failed_def split: sum.splits prod.splits)

lemma tryWorker_err:
  "wr_err (tryWorker rpc w f cfg) = None \<longleftrightarrow> complete_stream (rpc w (request cfg w f))"
proof (cases "rpc w (request cfg w f)")
  case (Inr x)
  obtain cs st where x: "x = (cs, st)" by (cases x)
  show ?thesis
  proof (cases "recv_loop cs st [] 0 0")
    case (Inl e)
    then have "\<not> (st = None \<and> (\<forall>c \<in> set cs. pr_Error c = []))"
      using recv_loop_complete [of cs "[]" 0 0] by (cases st) auto
    then show ?thesis using Inr x Inl by (auto simp: tryWorker_def request_def failed_def complete_stream_def)
  next
    case (Inr y)
    obtain ps n ms where y: "y = (ps, n, ms)" by (cases y)
    then show ?thesis
      using recv_loop_ok [of cs st "[]" 0 0 ps n ms] Inr x \<open>rpc w (request cfg w f) = Inr x\<close>
      by (auto simp: tryWorker_def request_def complete_stream_def)
  qed
qed (simp add: tryWorker_def request_def failed_def complete_stream_def)

lemma tryWorker_primes:
  assumes "wr_err (tryWorker rpc w f cfg) = None"
  shows "set (wr_primes (tryWorker rpc w f cfg)) = stream_primes (rpc w (request cfg w f))"
proof -
  obtain cs where cs: "rpc w (request cfg w f) = Inr (cs, None)" "\<forall>c \<in> set cs. pr_Error c = []"
    using assms by (auto simp: tryWorker_err complete_stream_def)
  then show ?thesis
    using recv_loop_complete [OF cs(2), of "[]" 0 0] by (auto simp: tryWorker_def request_def stream_primes_def)
qed

lemma try_others_cases:
  "wr_err (try_others rpc w f cfg xs) = None \<Longrightarrow>
   \<exists>x \<in> set xs. wr_err (tryWorker rpc x f cfg) = None \<and> try_others rpc w f cfg xs = tryWorker rpc x f cfg"
  by (induction xs) (auto simp: failed_def Let_def split: if_splits)

lemma try_others_fail:
  "wr_err (try_others rpc w f cfg xs) \<noteq> None \<Longrightarrow> x \<in> set xs \<Longrightarrow> wc_id x \<noteq> wc_id w \<Longrightarrow>
   wr_err (tryWorker rpc x f cfg) \<noteq> None"
  by (induction xs) (auto simp: Let_def split: if_splits)

lemma try_others_file [simp]: "wr_filePath (try_others rpc w f cfg xs) = f"
  by (induction xs) (auto simp: failed_def Let_def)

lemma processOneFile_file [simp]: "wr_filePath (processOneFile rpc w f cfg ws) = f"
  by (simp add: processOneFile_def Let_def)

text \<open>A file is done exactly when its worker or, failing that, some other worker completes it.\<close>

lemma processOneFile_err:
  assumes "w \<in> set ws" "distinct (map wc_id ws)"
  shows "wr_err (processOneFile rpc w f cfg ws) = None \<longleftrightarrow> (\<exists>x \<in> set ws. complete_stream (rpc x (request cfg x f)))"
proof
  assume "wr_err (processOneFile rpc w f cfg ws) = None"
  then show "\<exists>x \<in> set ws. complete_stream (rpc x (request cfg x f))"
    using try_others_cases [of rpc w f cfg ws] assms(1)
    by (auto simp: processOneFile_def Let_def tryWorker_err split: if_splits)
next
  assume "\<exists>x \<in> set ws. complete_stream (rpc x (request cfg x f))"
  then obtain x where x: "x \<in> set ws" "wr_err (tryWorker rpc x f cfg) = None" by (auto simp: tryWorker_err)
  then have "wc_id x = wc_id w \<Longrightarrow> x = w" using assms by (metis distinct_map inj_onD)
  then show "wr_err (processOneFile rpc w f cfg ws) = None"
    using try_others_fail [of rpc w f cfg ws x] x
    by (cases "wr_err (try_others rpc w f cfg ws)") (auto simp: processOneFile_def Let_def)
qed

lemma processOneFile_cases:
  assumes "wr_err (processOneFile rpc w f cfg ws) = None" "w \<in> set ws"
  shows "\<exists>x \<in> set ws. complete_stream (rpc x (request cfg x f)) \<and>
    set (wr_primes (processOneFile rpc w f cfg ws)) = stream_primes (rpc x (request cfg x f))"
proof -
  obtain x where "x \<in> set ws" "wr_err (tryWorker rpc x f cfg) = None" "processOneFile rpc w f cfg ws = tryWorker rpc x f cfg"
    using assms try_others_cases [of rpc w f cfg ws]
    by (cases "wr_err (tryWorker rpc w f cfg) = None") (auto simp: processOneFile_def)
  then show ?thesis using tryWorker_primes [of rpc x f cfg] tryWorker_err [of rpc x f cfg] by auto
qed

lemma processOneFile_primes:
  assumes "wr_err (processOneFile rpc w f cfg ws) = None" "w \<in> set ws"
    and "\<And>x. x \<in> set ws \<Longrightarrow> complete_stream (rpc x (request cfg x f)) \<Longrightarrow> stream_primes (rpc x (request cfg x f)) = P"
  shows "set (wr_primes (processOneFile rpc w f cfg ws)) = P"
  using processOneFile_cases [OF assms(1,2)] assms(3) by auto

lemma connect_workers_ids:
  "map wc_id (connect_workers dial health i addrs) = map (\<lambda>j. ''w'' @ show_nat (j + 1))
     (filter (\<lambda>j. dial (addrs ! (j - i)) \<and> health j (addrs ! (j - i))) [i..<i + length addrs])"
proof (induction addrs arbitrary: i)
  case (Cons a as)
  have f: "filter (\<lambda>j. dial ((a # as) ! (j - i)) \<and> health j ((a # as) ! (j - i))) [Suc i..<Suc i + length as] =
      filter (\<lambda>j. dial (as ! (j - Suc i)) \<and> health j (as ! (j - Suc i))) [Suc i..<Suc i + length as]"
    by (rule filter_cong) (auto simp: nth_Cons' Suc_le_eq)
  have u: "[i..<i + length (a # as)] = i # [Suc i..<Suc i + length as]" by (subst upt_conv_Cons) simp_all
  show ?case unfolding u using Cons.IH [of "Suc i"] f by simp
qed simp

lemma connect_workers_distinct: "distinct (map wc_id (connect_workers dial health i addrs))"
  unfolding connect_workers_ids by (auto simp: distinct_map inj_on_def show_nat_inj)

section \<open>File names\<close>

lemma digits_val_zeros: "digits_val 0 (replicate k (CHR ''0'')) = 0"
  by (induction k) (simp_all add: digits_val_def digit_val_def)

lemma show_nat03_val: "digits_val 0 (show_nat03 n) = n"
  by (simp add: show_nat03_def digits_val_zeros digits_val_show)

lemma show_nat03_digits: "\<forall>c \<in> set (show_nat03 n). is_digit c"
  using show_nat_digits [of n] by (auto simp: show_nat03_def is_digit_def)

lemma input_name_inj: "input_name i = input_name j \<longleftrightarrow> i = j"
  using show_nat03_val by (metis append_same_eq input_name_def same_append_eq)

lemma digits_plain: "\<forall>c \<in> set ds. is_digit c \<Longrightarrow> slash \<notin> set ds \<and> CHR '' '' \<notin> set ds"
  by (auto simp: is_digit_def)

lemma input_name_plain: "ordinary (input_name i)" "CHR '' '' \<notin> set (input_name i)" "input_name i \<noteq> CoordSnapshotFile"
  using digits_plain [OF show_nat03_digits, of i]
  by (auto simp: input_name_def ordinary_def CoordSnapshotFile_def)

lemma input_name_ascii: "ascii (input_name i)"
  using show_nat03_digits [of i] by (auto simp: ascii_def list_all_iff input_name_def is_digit_def)

lemma good_json: "slash \<notin> set x \<Longrightarrow> good_name (''snapshot_'' @ x @ ''.json'')"
  by (auto simp: good_name_def ordinary_def)

lemma WorkerSnapshotFile_good: "slash \<notin> set i \<Longrightarrow> good_name (WorkerSnapshotFile i)"
  unfolding WorkerSnapshotFile_def by (rule good_json)

lemma connect_workers_good:
  "w \<in> set (connect_workers dial health i addrs) \<Longrightarrow> good_name (WorkerSnapshotFile (wc_id w))"
proof (induction addrs arbitrary: i)
  case (Cons a as)
  have "slash \<notin> set (''w'' @ show_nat (i + 1))" using digits_plain [OF show_nat_digits, of "i + 1"] by simp
  then show ?case using Cons WorkerSnapshotFile_good [of "''w'' @ show_nat (i + 1)"] by (auto split: if_splits)
qed simp

section \<open>The main loop in a calm environment\<close>

text \<open>
  The primes collected so far are those of the completed files: \<open>P f\<close> are the primes of the
  file \<open>f\<close>.
\<close>

definition progress_ok :: "(string \<Rightarrow> u64 set) \<Rightarrow> progress \<Rightarrow> bool" where
  "progress_ok P g \<longleftrightarrow> seen_ok (pg_seen g, pg_primes g) \<and> set (pg_primes g) = (\<Union>f \<in> set (pg_completed g). P f)"

definition sound_result :: "(string \<Rightarrow> u64 set) \<Rightarrow> workerResult \<Rightarrow> bool" where
  "sound_result P r \<longleftrightarrow> (wr_err r = None \<longrightarrow> set (wr_primes r) = P (wr_filePath r))"

text \<open>The snapshot records the progress.\<close>

definition snapshot_of :: "string list \<Rightarrow> progress \<Rightarrow> CoordSnapshot \<Rightarrow> bool" where
  "snapshot_of inputs g snap \<longleftrightarrow> coord_ok snap \<and> cs_CompletedFiles snap = Some (pg_completed g) \<and>
     cs_CollectedPrimes snap = Some (pg_primes g) \<and> cs_PendingFiles snap = filterPending inputs (pg_completed g)"

lemma merge_primes_ok:
  assumes "progress_ok P g" "set ps = P f"
  defines "g' \<equiv> (merge_primes ps g)\<lparr>pg_completed := pg_completed (merge_primes ps g) @ [f]\<rparr>"
  shows "progress_ok P g'" "pg_completed g' = pg_completed g @ [f]"
  using add_all_unseen [of "(pg_seen g, pg_primes g)" ps] assms(1,2)
  by (auto simp: g'_def merge_primes_def progress_ok_def split: prod.splits)

lemma InitiateSnapshot_calm:
  assumes "calm m" "linked a (Suc (Suc (Suc k))) s" "length ws < 2 ^ 63"
  defines "h \<equiv> buildWorkerHTTPAddrs ws"
  shows "\<exists>s' snap. snd (InitiateSnapshot m ack (Some (pg_completed g)) (filterPending inputs (pg_completed g))
      (Some (pg_primes g)) (fst h) (snd h) s) = s' \<and> linked a k s' \<and> snapshot_of inputs g snap \<and>
    all_change a (Put (marshal_coord snap) 2) CoordSnapshotFile (s_cl s) (s_cl s')"
proof -
  let ?as = "fst h" and ?ids = "snd h"
  have len: "length ?as = length ws" "length ?ids = length ws"
    by (simp_all add: h_def buildWorkerHTTPAddrs_length)
  obtain states sent acked where ml: "marker_loop ack ?as ?ids [] 0 0 = Some (states, sent, acked)"
      "sent = int (length ws)" "0 \<le> acked" "acked \<le> sent" "\<forall>c \<in> set states. cs_MessagesInFlight c = 0"
    using marker_loop_result [of ?as 0 0 ack ?ids "[]"] len assms(3)
      order_trans [OF length_filter_le eq_imp_le [OF len(1)]] by auto
  let ?snap = "\<lparr>cs_CompletedFiles = Some (pg_completed g), cs_PendingFiles = filterPending inputs (pg_completed g),
      cs_CollectedPrimes = Some (pg_primes g), cs_ChannelStates = Some states, cs_MarkersSent = sent,
      cs_MarkersAcked = acked, cs_TimestampUnix = i64_wrap (int (s_now s div 1000))\<rparr>"
  have "snapshot_of inputs g ?snap"
    using ml(2-5) assms(3) i64_wrap_ok [of "int (s_now s div 1000)"]
    by (simp add: snapshot_of_def coord_ok_def elems_def i64_ok_def)
  moreover obtain s' where "SaveCoordSnapshot m ?snap s = (None, s')" "linked a k s'"
      "all_change a (Put (marshal_coord ?snap) 2) CoordSnapshotFile (s_cl s) (s_cl s')"
    using writeToAFS_calm [OF assms(1,2) CoordSnapshotFile_good(1) coord_codec.enc_nonempty, of ?snap]
    by (auto simp: SaveCoordSnapshot_def)
  ultimately show ?thesis using ml(1) by (auto simp: InitiateSnapshot_def)
qed

lemma collect_one_calm:
  assumes "calm (re_machine env)" "linked a (Suc (Suc (Suc k))) s" "length ws < 2 ^ 63" "progress_ok P g"
    and "wr_err r = None" "sound_result P r"
  shows "\<exists>g' s' snap. collect_one env inputs ws n r (g, s) = (g', s') \<and> linked a k s' \<and> progress_ok P g' \<and>
    pg_completed g' = pg_completed g @ [wr_filePath r] \<and> snapshot_of inputs g' snap \<and>
    all_change a (Put (marshal_coord snap) 2) CoordSnapshotFile (s_cl s) (s_cl s')"
proof -
  let ?g = "(merge_primes (wr_primes r) g)\<lparr>pg_completed := pg_completed (merge_primes (wr_primes r) g) @ [wr_filePath r]\<rparr>"
  have g: "progress_ok P ?g" "pg_completed ?g = pg_completed g @ [wr_filePath r]"
    using merge_primes_ok [OF assms(4), of "wr_primes r" "wr_filePath r"] assms(5,6) by (simp_all add: sound_result_def)
  obtain s' snap where "collect_one env inputs ws n r (g, s) = (?g, s')" "linked a k s'" "snapshot_of inputs ?g snap"
      "all_change a (Put (marshal_coord snap) 2) CoordSnapshotFile (s_cl s) (s_cl s')"
    using InitiateSnapshot_calm [OF assms(1-3), of "re_acks env n" ?g inputs] assms(5)
    by (auto simp: collect_one_def Let_def case_prod_beta)
  then show ?thesis using g by blast
qed

definition finished :: "workerResult list \<Rightarrow> string list" where
  "finished rs = map wr_filePath (filter (\<lambda>r. wr_err r = None) rs)"

lemma finished_simps [simp]:
  "finished [] = []" "wr_err r = None \<Longrightarrow> finished (r # rs) = wr_filePath r # finished rs"
  "wr_err r \<noteq> None \<Longrightarrow> finished (r # rs) = finished rs"
  by (simp_all add: finished_def)

text \<open>
  After any number of results the progress is consistent and, as soon as one file is finished,
  it is on AFS; nothing else has changed there.
\<close>

lemma collect_loop_calm:
  assumes "calm (re_machine env)" "length ws < 2 ^ 63"
    and "linked a (k + 3 * length rs) s" "progress_ok P g" "\<forall>r \<in> set rs. sound_result P r"
  shows "\<exists>g' s'. collect_loop env inputs ws n rs (g, s) = (g', s') \<and> linked a k s' \<and> progress_ok P g' \<and>
    pg_completed g' = pg_completed g @ finished rs \<and>
    (if finished rs = [] then g' = g \<and> s_cl s' = s_cl s
     else \<exists>snap. snapshot_of inputs g' snap \<and>
       all_change a (Put (marshal_coord snap) 2) CoordSnapshotFile (s_cl s) (s_cl s'))"
  using assms(3-5)
proof (induction rs arbitrary: n g s)
  case Nil
  then show ?case by simp
next
  case (Cons r rs)
  have c: "collect_loop env inputs ws n (r # rs) (g, s) = collect_loop env inputs ws (Suc n) rs (collect_one env inputs ws n r (g, s))"
    by simp
  show ?case
  proof (cases "wr_err r = None")
    case False
    then have "collect_one env inputs ws n r (g, s) = (g, s)" by (simp add: collect_one_def)
    moreover have "linked a (k + 3 * length rs) s" using Cons.prems(1) by (auto simp: linked_def)
    ultimately show ?thesis unfolding c using Cons.IH [of s g "Suc n"] Cons.prems(2,3) False by simp
  next
    case True
    have "linked a (Suc (Suc (Suc (k + 3 * length rs)))) s" using Cons.prems(1) by (simp add: algebra_simps numeral_3_eq_3)
    from collect_one_calm [OF assms(1) this assms(2) Cons.prems(2) True, of inputs n] Cons.prems(3)
    obtain g1 s1 snap1 where o: "collect_one env inputs ws n r (g, s) = (g1, s1)" "linked a (k + 3 * length rs) s1" "progress_ok P g1"
        "pg_completed g1 = pg_completed g @ [wr_filePath r]" "snapshot_of inputs g1 snap1"
        "all_change a (Put (marshal_coord snap1) 2) CoordSnapshotFile (s_cl s) (s_cl s1)" by auto
    obtain g' s' where i: "collect_loop env inputs ws (Suc n) rs (g1, s1) = (g', s')" "linked a k s'" "progress_ok P g'"
        "pg_completed g' = pg_completed g1 @ finished rs"
        "if finished rs = [] then g' = g1 \<and> s_cl s' = s_cl s1
         else \<exists>snap. snapshot_of inputs g' snap \<and>
           all_change a (Put (marshal_coord snap) 2) CoordSnapshotFile (s_cl s1) (s_cl s')"
      using Cons.IH [OF o(2,3), of "Suc n"] Cons.prems(3) by auto
    have ok: "cluster_ok a (s_cl s)" using Cons.prems(1) by (simp add: linked_def)
    have "\<exists>snap. snapshot_of inputs g' snap \<and> all_change a (Put (marshal_coord snap) 2) CoordSnapshotFile (s_cl s) (s_cl s')"
      using i(5) o(5,6) all_change_overwrite [OF o(6) _ ok] by (auto split: if_splits)
    then show ?thesis unfolding c o(1) using i(1-4) o(4) True by auto
  qed
qed

end
