(* ===== verification/Coordinator_Runs.thy ===== *)
theory Coordinator_Runs
  imports Coordinator
begin

text \<open>
  Whole runs of the coordinator on a healthy cluster: what it finds on AFS when it starts, what the
  workers have to answer, what is on AFS when it ends, and what a second run makes of the snapshot
  that a crashed one left behind. The last section is a run on the deployment of the repository.
\<close>

section \<open>Start and end of a run\<close>

lemma linked_mono: "linked a k s \<Longrightarrow> j \<le> k \<Longrightarrow> linked a j s"
  by (auto simp: linked_def)

lemma same_files_served: "served h n b v \<Longrightarrow> same_files h h' \<Longrightarrow> served h' n b v"
  by (simp add: served_def resolvePath_def same_files_def same_role_def Let_def cong: if_cong)

lemma same_files_missing: "missing h n \<Longrightarrow> same_files h h' \<Longrightarrow> missing h' n"
  by (simp add: missing_def outPath_def same_files_def same_role_def)

text \<open>The primary serves the files with numbers \<open>i\<close> to \<open>i + k - 1\<close> and none with the next number.\<close>

definition has_inputs :: "server \<Rightarrow> (string \<Rightarrow> bytes) \<Rightarrow> nat \<Rightarrow> nat \<Rightarrow> bool" where
  "has_inputs h content i k \<longleftrightarrow>
     (\<forall>j \<in> {i..<i + k}. \<exists>v. served h (input_name j) (content (input_name j)) v) \<and> missing h (input_name (i + k))"

lemma discover_loop_calm:
  assumes "calm m" "linked a (Suc (l + k)) s" "s_cl s a = Some h" "has_inputs h content i k" "k < n"
    and "\<forall>j \<ge> i. cached (cache (s_client s)) (input_name j) = None" "cached (cache (s_client s)) CoordSnapshotFile = None"
  shows "\<exists>s' h'. discover_loop m n i s = (map input_name [i..<i + k], s') \<and> linked a l s' \<and>
    s_cl s' = (s_cl s)(a \<mapsto> h') \<and> same_files h h' \<and> cached (cache (s_client s')) CoordSnapshotFile = None"
  using assms(2-)
proof (induction k arbitrary: n i s h)
  case 0
  obtain e s' where o: "Open m (input_name i) False s = (Inl e, s')" "linked a l s'" "s_cl s' = s_cl s"
      "cache (s_client s') = cache (s_client s)"
    using Open_missing [OF assms(1), of a l s h "input_name i" False] "0.prems" input_name_plain(1,2) by (auto simp: has_inputs_def)
  obtain n' where "n = Suc n'" using "0.prems" by (cases n) auto
  then show ?case
    using o "0.prems" by (intro exI [of _ s'] exI [of _ h]) (simp add: fun_upd_idem same_files_def same_role_def)
next
  case (Suc k)
  obtain n' where n: "n = Suc n'" using Suc.prems by (cases n) auto
  have "i \<in> {i..<i + Suc k}" by simp
  then obtain v where sv: "served h (input_name i) (content (input_name i)) v"
    using Suc.prems(3) unfolding has_inputs_def by blast
  have "cached (cache (s_client s)) (input_name i) = None" using Suc.prems(5) by simp
  then have "\<exists>hid s1 h1. Open m (input_name i) False s = (Inr hid, s1) \<and> linked a (l + Suc k) s1 \<and>
      s_cl s1 = (s_cl s)(a \<mapsto> h1) \<and> same_files h h1 \<and> opened (input_name i) False (content (input_name i))
        (if content (input_name i) = [] \<or> v \<le> 0 then 0 else v) s hid s1"
    using Open_calm [OF assms(1) Suc.prems(1,2) sv, of "[]" False] by simp
  then obtain hid s1 h1 where o: "Open m (input_name i) False s = (Inr hid, s1)" "linked a (l + Suc k) s1"
      "s_cl s1 = (s_cl s)(a \<mapsto> h1)" "same_files h h1" "opened (input_name i) False (content (input_name i))
        (if content (input_name i) = [] \<or> v \<le> 0 then 0 else v) s hid s1" by blast
  then obtain e where e: "openFiles (cache (s_client s1)) hid = Some e" "\<not> dirty e"
      "\<forall>x. x \<noteq> input_name i \<longrightarrow> cached (cache (s_client s1)) x = cached (cache (s_client s)) x" by (auto simp: opened_def)
  have "s_cl s1 a = Some h1" using o(3) by simp
  from Close_clean [OF assms(1) o(2) this e(1,2)] obtain s2 h2 where
    c: "Close m hid s1 = (None, s2)" "linked a (l + Suc k) s2" "s_cl s2 = (s_cl s1)(a \<mapsto> h2)" "same_files h1 h2"
      "cached (cache (s_client s2)) = cached (cache (s_client s1))" by blast
  have sf: "same_files h h2" using o(4) c(4) by (rule same_files_trans)
  have "has_inputs h2 content (Suc i) k"
    using Suc.prems(3) same_files_served [OF _ sf] same_files_missing [OF _ sf] by (fastforce simp: has_inputs_def)
  moreover have "\<forall>j \<ge> Suc i. cached (cache (s_client s2)) (input_name j) = None"
    "cached (cache (s_client s2)) CoordSnapshotFile = None"
    using Suc.prems(5,6) c(5) e(3) input_name_plain(3) [of i, symmetric] by (auto simp: input_name_inj)
  moreover have "linked a (Suc (l + k)) s2" "s_cl s2 a = Some h2" "k < n'" using c(2,3) Suc.prems(4) n by simp_all
  ultimately obtain s3 h3 where r: "discover_loop m n' (Suc i) s2 = (map input_name [Suc i..<Suc i + k], s3)" "linked a l s3"
      "s_cl s3 = (s_cl s2)(a \<mapsto> h3)" "same_files h2 h3" "cached (cache (s_client s3)) CoordSnapshotFile = None"
    using Suc.IH [of s2 h2 "Suc i" n'] by blast
  have "[i..<i + Suc k] = i # [Suc i..<Suc i + k]" by (subst upt_conv_Cons) simp_all
  then have "discover_loop m n i s = (map input_name [i..<i + Suc k], s3)" using o(1) c(1) r(1) n by simp
  moreover have "s_cl s3 = (s_cl s)(a \<mapsto> h3)" using r(3) c(3) o(3) by simp
  ultimately show ?case using r(2,5) same_files_trans [OF sf r(4)] by blast
qed

text \<open>What a run starts from: no snapshot, or one that records the primes of its completed files.\<close>

definition starts_from :: "server \<Rightarrow> (string \<Rightarrow> u64 set) \<Rightarrow> string list \<Rightarrow> u64 list \<Rightarrow> bool" where
  "starts_from h P completed primes \<longleftrightarrow>
     missing h CoordSnapshotFile \<and> completed = [] \<and> primes = [] \<or>
     (\<exists>snap v. served h CoordSnapshotFile (marshal_coord snap) v \<and> coord_ok snap \<and>
        cs_CompletedFiles snap = Some completed \<and> cs_CollectedPrimes snap = Some primes \<and>
        distinct primes \<and> set primes = (\<Union>f \<in> set completed. P f))"

lemma load_start:
  assumes "calm m" "linked a (Suc k) s" "s_cl s a = Some h" "starts_from h P completed primes"
    and "cached (cache (s_client s)) CoordSnapshotFile = None" "list_all valid_utf8 completed"
  shows "\<exists>r s' h'. LoadCoordSnapshot m s = (r, s') \<and> linked a k s' \<and> s_cl s' = (s_cl s)(a \<mapsto> h') \<and> same_files h h' \<and>
    (case r of Inr (Some snap) \<Rightarrow> (elems (cs_CompletedFiles snap), elems (cs_CollectedPrimes snap)) | _ \<Rightarrow> ([], [])) =
      (completed, primes)"
  using assms(4) unfolding starts_from_def
proof (elim disjE conjE exE)
  assume "missing h CoordSnapshotFile" "completed = []" "primes = []"
  moreover from this(1) obtain e s' where "readFromAFS m CoordSnapshotFile s = (Inl e, s')" "linked a k s'" "s_cl s' = s_cl s"
    using readFromAFS_missing [OF assms(1-3) _ good_ordinary [OF CoordSnapshotFile_good(1)] CoordSnapshotFile_good(2)] by blast
  ultimately show ?thesis
    using assms(3) by (intro exI [of _ "Inr None"] exI [of _ s'] exI [of _ h])
      (simp add: LoadCoordSnapshot_def fun_upd_idem same_files_def same_role_def)
next
  fix snap v assume sn: "served h CoordSnapshotFile (marshal_coord snap) v" "coord_ok snap"
    "cs_CompletedFiles snap = Some completed" "cs_CollectedPrimes snap = Some primes"
  from readFromAFS_calm [OF assms(1-3) sn(1) coord_codec.enc_nonempty assms(5)] obtain s' h' where
    "readFromAFS m CoordSnapshotFile s = (Inr (marshal_coord snap), s')" "linked a k s'" "s_cl s' = (s_cl s)(a \<mapsto> h')" "same_files h h'"
    by blast
  moreover have "cs_CompletedFiles (utf8_coord snap) = Some completed" "cs_CollectedPrimes (utf8_coord snap) = Some primes"
    using sn utf8_clean_strings [of "Some completed"] assms(6) by (simp_all add: utf8_coord_def elems_def)
  ultimately show ?thesis
    using coord_codec.dec_enc [OF sn(2)]
    by (intro exI [of _ "Inr (Some (utf8_coord snap))"] exI [of _ s'] exI [of _ h'])
      (simp add: LoadCoordSnapshot_def elems_def)
qed

text \<open>The contents of the files of a replica.\<close>

definition content_at :: "cluster \<Rightarrow> string \<Rightarrow> string \<Rightarrow> bytes option" where
  "content_at cl r x = map_option fst (view (the (cl r)) x)"

lemma all_change_at:
  "all_change a c n cl cl' \<Longrightarrow> r \<in> replicas a cl \<Longrightarrow> good_name x \<Longrightarrow>
   content_at cl' r x = (if x = n then (case c of Put b v \<Rightarrow> Some b | Del \<Rightarrow> None) else content_at cl r x)"
  unfolding content_at_def by (rule all_change_content)

lemma number_file_nonempty: "ns \<noteq> [] \<Longrightarrow> number_file ns \<noteq> []"
  by (cases ns) (simp_all add: number_file_def)

definition leftovers :: "workerConn list \<Rightarrow> string list" where
  "leftovers ws = CoordSnapshotFile # map (\<lambda>w. WorkerSnapshotFile (wc_id w)) ws"

lemma delete_leftovers_eq:
  "foldl (\<lambda>s w. DeleteWorkerSnapshot m (wc_id w) s) (DeleteCoordSnapshot m s) ws = afs.del_all m (leftovers ws) s"
proof -
  have "foldl (\<lambda>s w. DeleteWorkerSnapshot m (wc_id w) s) s ws = afs.del_all m (map (\<lambda>w. WorkerSnapshotFile (wc_id w)) ws) s" for s
    by (induction ws arbitrary: s) (simp_all add: DeleteWorkerSnapshot_def)
  then show ?thesis by (simp add: leftovers_def DeleteCoordSnapshot_def)
qed

lemma delete_leftovers:
  assumes "calm m" "linked a (k + length (leftovers ws)) s" "\<forall>n \<in> set (leftovers ws). good_name n"
  shows "linked a k (afs.del_all m (leftovers ws) s)"
    "r \<in> replicas a (s_cl s) \<Longrightarrow> good_name x \<Longrightarrow> content_at (s_cl (afs.del_all m (leftovers ws) s)) r x =
       (if x \<in> set (leftovers ws) then None else content_at (s_cl s) r x)"
proof -
  have "a \<in> replicas a (s_cl s)" using assms(2) by (auto elim: linkedD simp: replicas_def)
  then show "linked a k (afs.del_all m (leftovers ws) s)"
    using afs.del_all_ok [of m a k "leftovers ws" s a] assms by blast
  show "content_at (s_cl (afs.del_all m (leftovers ws) s)) r x =
       (if x \<in> set (leftovers ws) then None else content_at (s_cl s) r x)" if "r \<in> replicas a (s_cl s)" "good_name x"
    using afs.del_all_ok [of m a k "leftovers ws" s r] assms that unfolding content_at_def by blast
qed

lemma writeFinalOutput_calm:
  assumes "calm m" "linked a (Suc (Suc (Suc k))) s" "good_name n" "ranges iter" "ps \<noteq> []"
  shows "\<exists>s'. writeFinalOutput m iter n ps s = (None, s') \<and> linked a k s' \<and>
    all_change a (Put (number_file (sorted_list_of_set (set ps))) 2) n (s_cl s) (s_cl s')"
proof -
  have "sorted_list_of_set (set ps) \<noteq> []" using assms(5) by simp
  then show ?thesis
    using writeToAFS_calm [OF assms(1-3) number_file_nonempty] assms(4)
    by (simp add: writeFinalOutput_write dedupAndSort_set)
qed

text \<open>
  What the theorems ask of the workers: a complete stream for a file of \<open>F\<close> holds the primes of
  that file; a solvable file is completed by some worker, for whichever goroutine asks.
\<close>

definition workers_sound :: "run_env \<Rightarrow> Config \<Rightarrow> workerConn list \<Rightarrow> string set \<Rightarrow> (string \<Rightarrow> u64 set) \<Rightarrow> bool" where
  "workers_sound env cfg ws F P \<longleftrightarrow> (\<forall>g. \<forall>w \<in> set ws. \<forall>f \<in> F. let r = re_rpc env g w (request cfg w f) in
     complete_stream r \<longrightarrow> stream_primes r = P f)"

definition solvable :: "run_env \<Rightarrow> Config \<Rightarrow> workerConn list \<Rightarrow> string \<Rightarrow> bool" where
  "solvable env cfg ws f \<longleftrightarrow> (\<forall>g. \<exists>w \<in> set ws. complete_stream (re_rpc env g w (request cfg w f)))"

definition arrives :: "('a list list \<Rightarrow> 'a list) \<Rightarrow> bool" where
  "arrives sched \<longleftrightarrow> (\<forall>xss. mset (sched xss) = mset (concat xss))"

lemma arrives_set: "arrives sched \<Longrightarrow> set (sched xss) = set (concat xss)" "arrives sched \<Longrightarrow> length (sched xss) = length (concat xss)"
  unfolding arrives_def by (metis set_mset_mset) (metis size_mset)

definition assigned :: "(string \<rightharpoonup> string list) \<Rightarrow> string \<Rightarrow> string list" where
  "assigned m x = (case m x of None \<Rightarrow> [] | Some fs \<Rightarrow> fs)"

lemma assigned_append: "assigned (append_to m k f) x = assigned m x @ (if x = k then [f] else [])"
  by (simp add: assigned_def append_to_def)

lemma assign_loop_assigned:
  assumes "assign_loop i fs ws m = Some m'"
  shows "(\<Union>w \<in> set ws. set (assigned m' (wc_addr w))) = (\<Union>w \<in> set ws. set (assigned m (wc_addr w))) \<union> set fs \<and>
    (\<forall>x. length (assigned m' x) \<le> length (assigned m x) + length fs)"
  using assms
proof (induction fs arbitrary: i m)
  case (Cons f fs)
  let ?w = "ws ! (i mod length ws)"
  let ?m = "append_to m (wc_addr ?w) f"
  have "ws \<noteq> []" "assign_loop (Suc i) fs ws ?m = Some m'" using Cons.prems by (auto split: if_splits)
  moreover from this(1) have "?w \<in> set ws" by simp
  then have "(\<Union>w \<in> set ws. set (assigned ?m (wc_addr w))) = insert f (\<Union>w \<in> set ws. set (assigned m (wc_addr w)))"
    by (auto simp: assigned_append split: if_splits)
  moreover have "length (assigned ?m x) \<le> Suc (length (assigned m x))" for x by (simp add: assigned_append)
  ultimately show ?case using Cons.IH [of "Suc i" ?m] by (auto intro: order_trans)
qed simp

lemma worker_results_eq:
  "worker_results env cfg ws asg = map (\<lambda>w. map (\<lambda>f. processOneFile (re_rpc env (wc_id w)) w f cfg ws) (assigned asg (wc_addr w))) ws"
  by (auto simp: worker_results_def assigned_def split: option.splits)

definition hopeless :: "run_env \<Rightarrow> Config \<Rightarrow> workerConn list \<Rightarrow> string \<Rightarrow> bool" where
  "hopeless env cfg ws f \<longleftrightarrow> (\<forall>g. \<forall>w \<in> set ws. \<not> complete_stream (re_rpc env g w (request cfg w f)))"

lemma length_concat_map_le: "(\<And>x. length (g x) \<le> n) \<Longrightarrow> length (concat (map g xs)) \<le> length xs * n"
  by (induction xs) (auto intro: add_mono)

lemma results_of_workers:
  assumes "assignFiles fs ws = Some asg" "arrives sched" "workers_sound env cfg ws (set fs) P" "distinct (map wc_id ws)"
    and "\<forall>f \<in> set fs. solvable env cfg ws f \<or> hopeless env cfg ws f"
  defines "rs \<equiv> sched (worker_results env cfg ws asg)"
  shows "\<forall>r \<in> set rs. sound_result P r" "set (finished rs) = {f \<in> set fs. solvable env cfg ws f}"
    "length rs \<le> length ws * length fs"
proof -
  have asg: "(\<Union>w \<in> set ws. set (assigned asg (wc_addr w))) = set fs" "\<forall>x. length (assigned asg x) \<le> length fs"
    using assign_loop_assigned [OF assms(1) [unfolded assignFiles_def]] by (simp_all add: assigned_def)
  have rs: "set rs = (\<Union>w \<in> set ws. (\<lambda>f. processOneFile (re_rpc env (wc_id w)) w f cfg ws) ` set (assigned asg (wc_addr w)))"
    using arrives_set(1) [OF assms(2)] by (simp add: rs_def worker_results_eq)
  show "\<forall>r \<in> set rs. sound_result P r"
    unfolding rs sound_result_def
  proof (clarsimp)
    fix w f assume w: "w \<in> set ws" "wr_err (processOneFile (re_rpc env (wc_id w)) w f cfg ws) = None"
      "f \<in> set (assigned asg (wc_addr w))"
    then have "f \<in> set fs" using asg(1) by blast
    then show "set (wr_primes (processOneFile (re_rpc env (wc_id w)) w f cfg ws)) = P f"
      by (intro processOneFile_primes [OF w(2,1)]) (use assms(3) in \<open>simp add: workers_sound_def Let_def\<close>)
  qed
  have done_iff: "f \<in> set (finished rs) \<longleftrightarrow> (\<exists>w \<in> set ws. f \<in> set (assigned asg (wc_addr w)) \<and>
      wr_err (processOneFile (re_rpc env (wc_id w)) w f cfg ws) = None)" for f
    unfolding finished_def set_map set_filter rs by force
  have solved: "wr_err (processOneFile (re_rpc env (wc_id w)) w f cfg ws) = None \<longleftrightarrow> solvable env cfg ws f"
    if "w \<in> set ws" "f \<in> set fs" for w f
    using processOneFile_err [OF that(1) assms(4)] assms(5) that by (auto simp: solvable_def hopeless_def)
  show "set (finished rs) = {f \<in> set fs. solvable env cfg ws f}"
  proof (intro set_eqI iffI)
    fix f assume "f \<in> set (finished rs)"
    then show "f \<in> {f \<in> set fs. solvable env cfg ws f}" using done_iff [of f] asg(1) solved by blast
  next
    fix f assume f: "f \<in> {f \<in> set fs. solvable env cfg ws f}"
    then obtain w where "w \<in> set ws" "f \<in> set (assigned asg (wc_addr w))" using asg(1) by blast
    then show "f \<in> set (finished rs)" using done_iff [of f] solved [of w f] f by blast
  qed
  have "length (concat (worker_results env cfg ws asg)) \<le> length ws * length fs"
    unfolding worker_results_eq by (rule length_concat_map_le) (use asg(2) in simp)
  then show "length rs \<le> length ws * length fs" by (simp add: rs_def arrives_set(2) [OF assms(2)])
qed

text \<open>
  The contents after a run: the output file holds the primes of the files \<open>D\<close>, the snapshots
  are gone if \<open>gone\<close>, every other file is as before.
\<close>

definition run_contents :: "cluster \<Rightarrow> cluster \<Rightarrow> string \<Rightarrow> string \<Rightarrow> string list \<Rightarrow> bool \<Rightarrow> u64 set \<Rightarrow> bool" where
  "run_contents cl cl' a out left gone ps \<longleftrightarrow>
     (\<forall>r \<in> replicas a cl. content_at cl' r out = Some (number_file (sorted_list_of_set ps)) \<and>
       (\<forall>x. good_name x \<longrightarrow> x \<noteq> out \<longrightarrow>
          (x \<in> set left \<longrightarrow> gone \<longrightarrow> content_at cl' r x = None) \<and>
          (x \<notin> set left \<longrightarrow> content_at cl' r x = content_at cl r x)))"

lemma run_pending_calm:
  assumes "calm (re_machine env)" "linked a (k + 3 * (length ws * length fs) + 4 + length ws) s"
    and "connectToWorkers (re_dial env) (re_health env) (WorkerAddrs cfg) = Inr ws" "length ws < 2 ^ 63"
    and "arrives (re_sched env)" "ranges (re_iter env)" "workers_sound env cfg ws (set fs) P"
    and "\<forall>f \<in> set fs. solvable env cfg ws f \<or> hopeless env cfg ws f"
    and "good_name (OutputFile cfg)" "OutputFile cfg \<notin> set (leftovers ws)"
    and "distinct ps" "set ps = (\<Union>f \<in> set completed. P f)"
  defines "D \<equiv> set completed \<union> {f \<in> set fs. solvable env cfg ws f}"
  assumes "(\<Union>f \<in> D. P f) \<noteq> {}"
  shows "\<exists>s'. run_pending env cfg inputs fs ps completed s = (None, s') \<and> linked a k s' \<and>
    run_contents (s_cl s) (s_cl s') a (OutputFile cfg) (leftovers ws) True (\<Union>f \<in> D. P f)"
proof -
  have ws: "ws = connect_workers (re_dial env) (re_health env) 0 (WorkerAddrs cfg)" "ws \<noteq> []"
    using assms(3) by (auto simp: connectToWorkers_def Let_def split: if_splits)
  have ids: "distinct (map wc_id ws)" and left: "\<forall>n \<in> set (leftovers ws). good_name n"
    using connect_workers_distinct connect_workers_good CoordSnapshotFile_good(1) ws(1) by (auto simp: leftovers_def)
  obtain asg where asg: "assignFiles fs ws = Some asg" using assign_loop_defined [OF ws(2), of 0 fs Map.empty] by (auto simp: assignFiles_def)
  define rs where "rs = re_sched env (worker_results env cfg ws asg)"
  note res = results_of_workers [OF asg assms(5,7) ids assms(8), folded rs_def]
  let ?g = "\<lparr>pg_seen = BuildSeenSet ps, pg_primes = ps, pg_completed = completed\<rparr>"
  have g: "progress_ok P ?g" using assms(11,12) BuildSeenSet_mem by (auto simp: progress_ok_def seen_ok_def)
  have "linked a (k + length (leftovers ws) + 3 + 3 * length rs) s"
    by (rule linked_mono [OF assms(2)]) (use res(3) in \<open>simp add: leftovers_def\<close>)
  from collect_loop_calm [OF assms(1,4) this g res(1), of inputs 0] obtain g' s1 where
    c: "collect_loop env inputs ws 0 rs (?g, s) = (g', s1)" "linked a (k + length (leftovers ws) + 3) s1" "progress_ok P g'"
      "pg_completed g' = completed @ finished rs"
      "if finished rs = [] then g' = ?g \<and> s_cl s1 = s_cl s
       else \<exists>snap. snapshot_of inputs g' snap \<and> all_change a (Put (marshal_coord snap) 2) CoordSnapshotFile (s_cl s) (s_cl s1)"
    by auto
  have D: "set (pg_primes g') = (\<Union>f \<in> D. P f)"
    using c(3,4) res(2) by (simp add: progress_ok_def D_def)
  have ok: "cluster_ok a (s_cl s)" using assms(2) by (simp add: linked_def)
  have rep1: "replicas a (s_cl s1) = replicas a (s_cl s)"
    and same1: "\<And>r x. r \<in> replicas a (s_cl s) \<Longrightarrow> good_name x \<Longrightarrow> x \<noteq> CoordSnapshotFile \<Longrightarrow>
      content_at (s_cl s1) r x = content_at (s_cl s) r x"
    using c(5) all_change_ok(2) [OF _ ok] all_change_at by (auto split: if_splits)
  have l1: "linked a (Suc (Suc (Suc (k + length (leftovers ws))))) s1" using c(2) by (simp add: numeral_3_eq_3)
  have "pg_primes g' \<noteq> []" using D assms(14) by auto
  from writeFinalOutput_calm [OF assms(1) l1 assms(9,6) this] obtain s2 where
    w: "writeFinalOutput (re_machine env) (re_iter env) (OutputFile cfg) (pg_primes g') s1 = (None, s2)"
      "linked a (k + length (leftovers ws)) s2"
      "all_change a (Put (number_file (sorted_list_of_set (set (pg_primes g')))) 2) (OutputFile cfg) (s_cl s1) (s_cl s2)" by blast
  have ok1: "cluster_ok a (s_cl s1)" using c(2) by (simp add: linked_def)
  have rep2: "replicas a (s_cl s2) = replicas a (s_cl s)" using all_change_ok(2) [OF w(3) ok1] rep1 by simp
  let ?s' = "afs.del_all (re_machine env) (leftovers ws) s2"
  note dl = delete_leftovers [OF assms(1) w(2) left]
  have "run_pending env cfg inputs fs ps completed s = (None, ?s')"
    using assms(3) asg c(1) w(1) by (simp add: run_pending_def rs_def [symmetric] delete_leftovers_eq)
  moreover have "run_contents (s_cl s) (s_cl ?s') a (OutputFile cfg) (leftovers ws) True (\<Union>f \<in> D. P f)"
    unfolding run_contents_def
    using dl(2) rep1 rep2 all_change_at [OF w(3)] same1 assms(9,10) D by (auto simp: leftovers_def)
  ultimately show ?thesis using dl(1) by blast
qed

definition input_files :: "nat \<Rightarrow> string set" where
  "input_files N = input_name ` {1..N}"

text \<open>
  The workers of a run: they can be reached, every result arrives once, a complete stream holds
  the primes found in the file, and a file that one attempt can complete every attempt can.
\<close>

definition worker_setting :: "run_env \<Rightarrow> Config \<Rightarrow> (string \<Rightarrow> bytes) \<Rightarrow> nat \<Rightarrow> workerConn list \<Rightarrow> bool" where
  "worker_setting env cfg content N ws \<longleftrightarrow>
     connectToWorkers (re_dial env) (re_health env) (WorkerAddrs cfg) = Inr ws \<and> length ws < 2 ^ 32 \<and>
     arrives (re_sched env) \<and> ranges (re_iter env) \<and>
     workers_sound env cfg ws (input_files N) (\<lambda>f. found_in (content f)) \<and>
     (\<forall>f \<in> input_files N. solvable env cfg ws f \<or> hopeless env cfg ws f) \<and>
     good_name (OutputFile cfg) \<and> OutputFile cfg \<notin> set (leftovers ws)"

text \<open>The files on AFS that a run starts from.\<close>

definition run_setting ::
  "run_env \<Rightarrow> Config \<Rightarrow> string \<Rightarrow> cluster \<Rightarrow> (string \<Rightarrow> bytes) \<Rightarrow> nat \<Rightarrow> string list \<Rightarrow> bool" where
  "run_setting env cfg a cl content N completed \<longleftrightarrow>
     reaches_primary (re_machine env) (re_pid env) (re_nanos env) (AfsServers cfg) a cl \<and>
     has_inputs (the (cl a)) content 1 N \<and> 0 < N \<and> N < 9999 \<and>
     (\<exists>primes. starts_from (the (cl a)) (\<lambda>f. found_in (content f)) completed primes)"

lemma budget: "length ws < 2 ^ 32 \<Longrightarrow> (N :: nat) < 9999 \<Longrightarrow> n \<le> N \<Longrightarrow>
   int (N + 2 + (3 * (length ws * n) + 4 + length ws)) < 2 ^ 63"
proof -
  assume a: "length ws < 2 ^ 32" "N < 9999" "n \<le> N"
  then have "length ws * n \<le> 2 ^ 32 * 9999" by (intro mult_le_mono) auto
  then have "N + 2 + (3 * (length ws * n) + 4 + length ws) < 2 ^ 63" using a by simp
  then show ?thesis by (metis of_nat_less_iff of_nat_numeral of_nat_power)
qed

lemma same_files_starts:
  "starts_from h P completed primes \<Longrightarrow> same_files h h' \<Longrightarrow> starts_from h' P completed primes"
  unfolding starts_from_def
  using same_files_served [of h CoordSnapshotFile _ _ h'] same_files_missing [of h CoordSnapshotFile h'] by metis

lemma run_contents_same:
  assumes "run_contents (cl(a \<mapsto> h')) cl' a out left gone ps" "cl a = Some h" "same_files h h'"
  shows "run_contents cl cl' a out left gone ps"
proof -
  have "content_at (cl(a \<mapsto> h')) r x = content_at cl r x" for r x
    unfolding content_at_def using assms(2,3) by (rule same_files_content)
  moreover have "replicas a (cl(a \<mapsto> h')) = replicas a cl" using assms(2,3) by (rule same_files_replicas)
  ultimately show ?thesis using assms(1) by (simp add: run_contents_def)
qed

lemma input_files_utf8: "set completed \<subseteq> input_files N \<Longrightarrow> list_all valid_utf8 completed"
  using input_name_ascii by (auto simp: list_all_iff input_files_def intro!: ascii_valid)

lemma Run_calm:
  assumes "run_setting env cfg a cl content N completed" "worker_setting env cfg content N ws"
  defines "D \<equiv> set completed \<union> {f \<in> input_files N. solvable env cfg ws f}"
  assumes "(\<Union>f \<in> D. found_in (content f)) \<noteq> {}" "set completed \<subseteq> input_files N"
  shows "\<exists>cl' now'. Run env cfg fs cl now = (None, cl', now') \<and>
    run_contents cl cl' a (OutputFile cfg) (leftovers ws) (\<not> input_files N \<subseteq> set completed) (\<Union>f \<in> D. found_in (content f))"
proof -
  let ?P = "\<lambda>f. found_in (content f)"
  obtain primes where st: "starts_from (the (cl a)) ?P completed primes" using assms(1) by (auto simp: run_setting_def)
  have set: "reaches_primary (re_machine env) (re_pid env) (re_nanos env) (AfsServers cfg) a cl"
    "has_inputs (the (cl a)) content 1 N" "0 < N" "N < 9999" "length ws < 2 ^ 32"
    "connectToWorkers (re_dial env) (re_health env) (WorkerAddrs cfg) = Inr ws"
    "arrives (re_sched env)" "ranges (re_iter env)" "workers_sound env cfg ws (input_files N) ?P"
    "\<forall>f \<in> input_files N. solvable env cfg ws f \<or> hopeless env cfg ws f" "good_name (OutputFile cfg)" "OutputFile cfg \<notin> set (leftovers ws)"
    using assms(1,2) by (simp_all add: run_setting_def worker_setting_def)
  have cm: "calm (re_machine env)" using set(1) by (simp add: reaches_primary_def)
  define all where "all = map input_name [1..<1 + N]"
  have all: "set all = input_files N" "all \<noteq> []" "length all = N" using set(3) by (simp_all add: all_def input_files_def atLeastLessThanSuc_atLeastAtMost del: upt_Suc)
  define pend where "pend = filter (\<lambda>f. f \<notin> set completed) all"
  have pl: "length pend \<le> N" using all(3) by (simp add: pend_def) (metis length_filter_le)
  let ?k = "3 * (length ws * length pend) + 4 + length ws"
  obtain s h h1 where nc: "NewClient (re_machine env) (re_pid env) (re_nanos env) (AfsServers cfg) (cf_CacheDir cfg) fs cl now = Inr s"
      "linked a (N + 2 + ?k) s" "cl a = Some h" "s_cl s = cl(a \<mapsto> h1)" "same_files h h1" "cached (cache (s_client s)) = Map.empty"
    using NewClient_calm [OF set(1) budget [OF set(5,4) pl]] by blast
  have in1: "has_inputs h1 content 1 N"
    using set(2) nc(3) same_files_served [OF _ nc(5)] same_files_missing [OF _ nc(5)] by (fastforce simp: has_inputs_def)
  have "linked a (Suc (Suc ?k + N)) s" "s_cl s a = Some h1" using nc(2,4) by (simp_all add: algebra_simps)
  from discover_loop_calm [OF cm this in1 set(4)] nc(6) obtain s1 h2 where
    d: "discoverInputFiles (re_machine env) s = (all, s1)" "linked a (Suc ?k) s1" "s_cl s1 = (s_cl s)(a \<mapsto> h2)"
      "same_files h1 h2" "cached (cache (s_client s1)) CoordSnapshotFile = None"
    unfolding discoverInputFiles_def all_def by auto
  have st2: "starts_from h2 ?P completed primes"
    using st nc(3) same_files_starts same_files_trans [OF nc(5) d(4)] by fastforce
  have "s_cl s1 a = Some h2" using d(3) by simp
  from load_start [OF cm d(2) this st2 d(5) input_files_utf8 [OF assms(5)]] obtain r s2 h3 where
    l: "LoadCoordSnapshot (re_machine env) s1 = (r, s2)" "linked a ?k s2" "s_cl s2 = (s_cl s1)(a \<mapsto> h3)" "same_files h2 h3"
      "(case r of Inr (Some snap) \<Rightarrow> (elems (cs_CompletedFiles snap), elems (cs_CollectedPrimes snap)) | _ \<Rightarrow> ([], [])) =
        (completed, primes)" by blast
  have sf: "same_files h h3" "s_cl s2 = cl(a \<mapsto> h3)"
    using same_files_trans [OF nc(5) same_files_trans [OF d(4) l(4)]] l(3) d(3) nc(4) by simp_all
  have ps: "distinct primes" "set primes = (\<Union>f \<in> set completed. ?P f)" using st by (auto simp: starts_from_def)
  have rs: "run_session env cfg s = (case filterPending all completed of
      None \<Rightarrow> writeFinalOutput (re_machine env) (re_iter env) (OutputFile cfg) primes s2
    | Some pending \<Rightarrow> run_pending env cfg all pending primes completed s2)"
    using d(1) all(2) l(1,5) by (simp add: run_session_def)
  have "\<exists>s'. run_session env cfg s = (None, s') \<and>
    run_contents (s_cl s2) (s_cl s') a (OutputFile cfg) (leftovers ws) (\<not> input_files N \<subseteq> set completed) (\<Union>f \<in> D. ?P f)"
  proof (cases "filterPending all completed")
    case None
    then have sub: "input_files N \<subseteq> set completed" by (simp add: filterPending_None all(1))
    then have D: "D = set completed" by (auto simp: D_def)
    have "primes \<noteq> []" using ps(2) assms(4) D by auto
    moreover have "linked a (Suc (Suc (Suc 0))) s2" by (rule linked_mono [OF l(2)]) simp
    ultimately obtain s' where w: "writeFinalOutput (re_machine env) (re_iter env) (OutputFile cfg) primes s2 = (None, s')"
        "all_change a (Put (number_file (sorted_list_of_set (set primes))) 2) (OutputFile cfg) (s_cl s2) (s_cl s')"
      using writeFinalOutput_calm [OF cm _ set(11,8)] by blast
    have "run_contents (s_cl s2) (s_cl s') a (OutputFile cfg) (leftovers ws) (\<not> input_files N \<subseteq> set completed) (\<Union>f \<in> D. ?P f)"
      unfolding run_contents_def using all_change_at [OF w(2)] set(11) sub D ps(2) by simp
    then show ?thesis using rs None w(1) by simp
  next
    case (Some pending)
    have p: "pending = pend" using filterPending_elems [of all completed] Some by (simp add: elems_def pend_def)
    have gone: "\<not> input_files N \<subseteq> set completed" using filterPending_None [of all completed] Some all(1) by simp
    have D: "D = set completed \<union> {f \<in> set pend. solvable env cfg ws f}" using all(1) by (auto simp: D_def pend_def)
    have l2: "linked a (0 + 3 * (length ws * length pend) + 4 + length ws) s2" using l(2) by simp
    have wl: "length ws < 2 ^ 63" using set(5) by simp
    have sub: "set pend \<subseteq> input_files N" using all(1) by (auto simp: pend_def)
    then have snd: "workers_sound env cfg ws (set pend) ?P" using set(9) by (auto simp: workers_sound_def)
    show ?thesis
      using run_pending_calm [OF cm l2 set(6) wl set(7,8) snd _ set(11,12) ps, of all] set(10) sub assms(4) gone
      unfolding D rs Some p by auto
  qed
  then obtain s' where s': "run_session env cfg s = (None, s')"
    "run_contents cl (s_cl s') a (OutputFile cfg) (leftovers ws) (\<not> input_files N \<subseteq> set completed) (\<Union>f \<in> D. ?P f)"
    using run_contents_same [of cl a h3 _ _ _ _ _ h] nc(3) sf by auto
  then show ?thesis using nc(1) by (simp add: Run_def CloseConn_def on_client_def)
qed

section \<open>Properties\<close>

text \<open>
  C2: On a healthy cluster with up to 9998 input files, and with workers of which at least one
  completes each file, a run succeeds and every replica then holds, in the output file, the
  primes found in all input files, each once, in ascending order, one per line. This holds in
  whatever order the results arrive, whichever workers fail in between, and whether the run
  starts fresh or resumes from a snapshot that records the primes of the files it lists. The
  snapshot files of the run are removed unless all files were done before, and no other file
  is changed.
\<close>

theorem Run_writes_all_primes:
  assumes "run_setting env cfg a cl content N completed" "worker_setting env cfg content N ws"
    and "set completed \<subseteq> input_files N" "\<forall>f \<in> input_files N. solvable env cfg ws f"
    and "(\<Union>f \<in> input_files N. found_in (content f)) \<noteq> {}"
  shows "\<exists>cl' now'. Run env cfg fs cl now = (None, cl', now') \<and>
    run_contents cl cl' a (OutputFile cfg) (leftovers ws) (\<not> input_files N \<subseteq> set completed)
      (\<Union>f \<in> input_files N. found_in (content f))"
proof -
  have "set completed \<union> {f \<in> input_files N. solvable env cfg ws f} = input_files N" using assms(3,4) by blast
  then show ?thesis using Run_calm [OF assms(1,2)] assms(3,5) by simp
qed

text \<open>
  C22: A file that no worker completes is left out without notice: the run succeeds, the output has
  the primes of the other files only, and the snapshots that would tell are removed.
\<close>

theorem Run_drops_unsolved_files:
  assumes "run_setting env cfg a cl content N []" "worker_setting env cfg content N ws"
    and "f \<in> input_files N" "hopeless env cfg ws f"
    and "(\<Union>f \<in> {f \<in> input_files N. solvable env cfg ws f}. found_in (content f)) \<noteq> {}"
  shows "f \<notin> {f \<in> input_files N. solvable env cfg ws f} \<and>
    (\<exists>cl' now'. Run env cfg fs cl now = (None, cl', now') \<and>
      run_contents cl cl' a (OutputFile cfg) (leftovers ws) True
        (\<Union>f \<in> {f \<in> input_files N. solvable env cfg ws f}. found_in (content f)))"
proof -
  have "\<not> input_files N \<subseteq> set []" using assms(3) by auto
  moreover have "\<not> solvable env cfg ws f" using assms(4) by (auto simp: solvable_def hopeless_def)
  ultimately show ?thesis using Run_calm [OF assms(1,2)] assms(5) by simp
qed

text \<open>
  C17: A file fails only when every worker fails on it: the coordinator tries the assigned worker,
  then every other one. A file that succeeds has the primes of one complete stream.
\<close>

theorem processOneFile_tries_all:
  assumes "w \<in> set ws" "distinct (map wc_id ws)"
  shows "(wr_err (processOneFile rpc w f cfg ws) = None \<longleftrightarrow> (\<exists>x \<in> set ws. complete_stream (rpc x (request cfg x f)))) \<and>
    (wr_err (processOneFile rpc w f cfg ws) = None \<longrightarrow>
      (\<exists>x \<in> set ws. complete_stream (rpc x (request cfg x f)) \<and>
        set (wr_primes (processOneFile rpc w f cfg ws)) = stream_primes (rpc x (request cfg x f))))"
  using processOneFile_err [OF assms] processOneFile_cases [OF _ assms(1)] by blast

text \<open>
  C31: The output is sorted strictly and has exactly the given numbers, in whatever order the map of
  them is ranged over.
\<close>

theorem dedupAndSort_sorted_set:
  assumes "ranges iter"
  shows "sorted_wrt (<) (dedupAndSort iter ps) \<and> set (dedupAndSort iter ps) = set ps \<and>
    (\<forall>iter'. ranges iter' \<longrightarrow> dedupAndSort iter' ps = dedupAndSort iter ps)"
  using assms by (simp add: dedupAndSort_set strict_sorted_list_of_set)

text \<open>
  C32: The files are dealt to the workers in turn: with distinct addresses, worker \<open>j\<close> of \<open>n\<close> gets the
  files at positions \<open>j\<close>, \<open>j + n\<close>, \<open>j + 2 n\<close>, \<dots>, and every file goes to exactly one worker.
\<close>

theorem assignFiles_deals:
  assumes "ws \<noteq> []" "distinct (map wc_addr ws)"
  shows "\<exists>m. assignFiles fs ws = Some m \<and>
    (\<forall>j < length ws. assigned m (wc_addr (ws ! j)) = dealt (length ws) j 0 fs) \<and>
    (\<Sum>j<length ws. mset (assigned m (wc_addr (ws ! j)))) = mset fs"
proof -
  obtain m where m: "assignFiles fs ws = Some m"
    using assign_loop_defined [OF assms(1), of 0 fs Map.empty] by (auto simp: assignFiles_def)
  have d: "assigned m (wc_addr (ws ! j)) = dealt (length ws) j 0 fs" if "j < length ws" for j
    using assign_loop_dealt [OF assms m [unfolded assignFiles_def] that] by (simp add: assigned_def)
  then have "(\<Sum>j<length ws. mset (assigned m (wc_addr (ws ! j)))) = mset fs"
    using dealt_mset [of "length ws" 0 fs] assms(1) by simp
  then show ?thesis using m d by blast
qed

section \<open>A crash of the coordinator\<close>

lemma paths_apart:
  assumes "server_ok h" "inputDir h \<noteq> []" "ordinary n" "ordinary x" "x \<noteq> n" "x \<noteq> n @ ''.tmp''"
  shows "path_Join (inputDir h) x \<notin> {outPath h n, tmpOf (outPath h n)}" "outPath h x \<notin> {outPath h n, tmpOf (outPath h n)}"
proof -
  have p: "path_Join (inputDir h) x = dir_prefix (inputDir h) @ x" "outPath h n = dir_prefix (outputDir h) @ n"
    "outPath h x = dir_prefix (outputDir h) @ x" "tmpOf (outPath h n) = dir_prefix (outputDir h) @ n @ ''.tmp''"
    using assms by (simp_all add: path_Join_ordinary outPath_ordinary server_ok_def tmpOf_def)
  have sl: "slash \<notin> set x" "slash \<notin> set n" "slash \<notin> set (n @ ''.tmp'')" using assms(3,4) by (simp_all add: ordinary_def)
  have last: "d @ y = d' @ y' \<Longrightarrow> y = y'" if "d = [] \<or> last d = slash" "d' = [] \<or> last d' = slash"
      "slash \<notin> set y" "slash \<notin> set y'" for d d' y y'
    using last_element [OF that(1,3)] last_element [OF that(2,4)] by metis
  show "path_Join (inputDir h) x \<notin> {outPath h n, tmpOf (outPath h n)}" "outPath h x \<notin> {outPath h n, tmpOf (outPath h n)}"
    unfolding p using last [OF dir_prefix_form dir_prefix_form sl(1,2)] last [OF dir_prefix_form dir_prefix_form sl(1,3)] assms(5,6)
    by (auto simp: tmpOf_def)
qed

text \<open>A write to \<open>n\<close> leaves what the primary serves under another name.\<close>

lemma served_kept:
  assumes "all_change a c n cl cl'" "cluster_ok a cl" "cl a = Some h" "inputDir h \<noteq> []" "ordinary n"
  obtains h' where "cl' a = Some h'" "same_role h h'"
    "\<And>x b v. ordinary x \<Longrightarrow> x \<noteq> n \<Longrightarrow> x \<noteq> n @ ''.tmp'' \<Longrightarrow> served h x b v \<Longrightarrow> \<exists>v'. served h' x b v'"
    "\<And>x. ordinary x \<Longrightarrow> x \<noteq> n \<Longrightarrow> x \<noteq> n @ ''.tmp'' \<Longrightarrow> missing h x \<Longrightarrow> missing h' x"
proof -
  have "a \<in> replicas a cl" using assms(3) by (simp add: replicas_def)
  then obtain h' where h': "cl' a = Some h'" "same_role h h'"
      "\<forall>p. p \<noteq> outPath h n \<longrightarrow> p \<noteq> tmpOf (outPath h n) \<longrightarrow> map_of (disk h') p = map_of (disk h) p"
    using assms(1,3) unfolding all_change_def changed_def by force
  have ok: "server_ok h" using assms(2,3) by (auto elim: cluster_okD)
  have dirs: "inputDir h' = inputDir h" "outputDir h' = outputDir h" using h'(2) by (simp_all add: same_role_def)
  have keep: "map_of (disk h') (path_Join (inputDir h) x) = map_of (disk h) (path_Join (inputDir h) x)"
    "map_of (disk h') (outPath h x) = map_of (disk h) (outPath h x)"
    if "ordinary x" "x \<noteq> n" "x \<noteq> n @ ''.tmp''" for x
    using paths_apart [OF ok assms(4,5) that] h'(3) by auto
  have base: "path_Base x = x" if "ordinary x" for x using that by (rule path_Base_ordinary)
  show thesis
  proof (rule that [OF h'(1,2)])
    fix x b v assume x: "ordinary x" "x \<noteq> n" "x \<noteq> n @ ''.tmp''" "served h x b v"
    have "resolvePath no_faults h' x = resolvePath no_faults h x"
      using keep [OF x(1-3)] dirs by (simp add: resolvePath_def base [OF x(1)] os_Stat_def Let_def outPath_def)
    moreover obtain fp where fp: "resolvePath no_faults h x = Inr fp" "map_of (disk h) fp = Some (FFile b)"
      using x(4) by (auto simp: served_def)
    moreover have "fp \<in> {path_Join (inputDir h) x, outPath h x}"
      using fp(1) by (auto simp: resolvePath_def base [OF x(1)] Let_def outPath_def split: if_splits)
    ultimately show "\<exists>v'. served h' x b v'" using keep [OF x(1-3)] by (auto simp: served_def)
  next
    fix x assume x: "ordinary x" "x \<noteq> n" "x \<noteq> n @ ''.tmp''" "missing h x"
    then show "missing h' x" using keep [OF x(1-3)] dirs by (simp add: missing_def outPath_def)
  qed
qed

lemma input_name_tmp: "input_name i \<noteq> CoordSnapshotFile @ ''.tmp''"
  by (auto simp: input_name_def CoordSnapshotFile_def)

text \<open>
  C5: When the coordinator stops after any number of results of which one was a finished file, what
  is on AFS then is enough: a new run on a cluster \<open>cl2\<close> whose primary still has those files,
  with workers that can complete the remaining ones, succeeds and writes the primes of all
  input files, as an undisturbed run does.
\<close>

theorem crash_and_resume:
  assumes "calm (re_machine env)" "length ws < 2 ^ 63" "linked a (3 * length rs) s" "finished rs \<noteq> []"
    and "progress_ok (\<lambda>f. found_in (content f)) g" "\<forall>r \<in> set rs. sound_result (\<lambda>f. found_in (content f)) r"
    and "collect_loop env inputs ws n rs (g, s) = (g', s1)" "set (pg_completed g') \<subseteq> input_files N"
    and "s_cl s a = Some h" "output_only h CoordSnapshotFile" "has_inputs h content 1 N" "0 < N" "N < 9999"
    and "reaches_primary (re_machine env') (re_pid env') (re_nanos env') (AfsServers cfg) a cl2"
    and "rel_option same_files (s_cl s1 a) (cl2 a)"
    and "worker_setting env' cfg content N ws'" "\<forall>f \<in> input_files N. solvable env' cfg ws' f"
    and "(\<Union>f \<in> input_files N. found_in (content f)) \<noteq> {}"
  shows "\<exists>cl' now'. Run env' cfg fs cl2 now = (None, cl', now') \<and>
    run_contents cl2 cl' a (OutputFile cfg) (leftovers ws') (\<not> input_files N \<subseteq> set (pg_completed g'))
      (\<Union>f \<in> input_files N. found_in (content f))"
proof -
  have ok: "cluster_ok a (s_cl s)" using assms(3) by (simp add: linked_def)
  obtain snap where c: "progress_ok (\<lambda>f. found_in (content f)) g'" "snapshot_of inputs g' snap"
      "all_change a (Put (marshal_coord snap) 2) CoordSnapshotFile (s_cl s) (s_cl s1)"
    using collect_loop_calm [OF assms(1,2), of a 0 rs s "\<lambda>f. found_in (content f)" g inputs n] assms(3-7) by auto
  have g: "good_name CoordSnapshotFile" by (rule CoordSnapshotFile_good(1))
  obtain h1 where h1: "s_cl s1 a = Some h1" "served h1 CoordSnapshotFile (marshal_coord snap) 2"
    using put_served [OF c(3) ok assms(9,10) g] by blast
  have "inputDir h \<noteq> []" using assms(10) by (simp add: output_only_def)
  from served_kept [OF c(3) ok assms(9) this good_ordinary [OF g]] obtain h2 where
    h2: "s_cl s1 a = Some h2" "\<And>i b v. served h (input_name i) b v \<Longrightarrow> \<exists>v'. served h2 (input_name i) b v'"
      "\<And>i. missing h (input_name i) \<Longrightarrow> missing h2 (input_name i)"
    using input_name_plain(1,3) input_name_tmp by metis
  have in1: "has_inputs h1 content 1 N" using assms(11) h1(1) h2 by (fastforce simp: has_inputs_def)
  obtain h3 where h3: "cl2 a = Some h3" "same_files h1 h3" using assms(15) h1(1) by (auto simp: option_rel_Some1)
  have "has_inputs h3 content 1 N"
    using in1 same_files_served [OF _ h3(2)] same_files_missing [OF _ h3(2)] by (fastforce simp: has_inputs_def)
  moreover have "starts_from h3 (\<lambda>f. found_in (content f)) (pg_completed g') (pg_primes g')"
    using same_files_served [OF h1(2) h3(2)] c(1,2)
    unfolding starts_from_def snapshot_of_def progress_ok_def seen_ok_def by auto
  ultimately have "run_setting env' cfg a cl2 content N (pg_completed g')"
    unfolding run_setting_def using assms(12-14) h3(1) by auto
  moreover have "set (pg_completed g') \<union> {f \<in> input_files N. solvable env' cfg ws' f} = input_files N"
    using assms(8,17) by blast
  ultimately show ?thesis using Run_calm [OF _ assms(16), of a cl2 "pg_completed g'"] assms(8,18) by simp
qed

section \<open>A run on the deployment\<close>

definition demo_config :: Config where
  "demo_config = \<lparr>AfsServers = [''s1:50051'', ''s2:50052'', ''s3:50053''], WorkerAddrs = [''w1:6001''],
     cf_CacheDir = ''/tmp/afs-coordinator'', OutputFile = ''primes.txt''\<rparr>"

lemma demo_output [simp]: "OutputFile demo_config = ''primes.txt''"
  by (simp add: demo_config_def)

definition demo_workers :: "workerConn list" where
  "demo_workers = [\<lparr>wc_id = ''w1'', wc_addr = ''w1:6001''\<rparr>]"

text \<open>One worker, which answers as \<open>ProcessFile\<close> does and fails on the files in \<open>bad\<close>.\<close>

definition demo_run :: "string set \<Rightarrow> run_env" where
  "demo_run bad = \<lparr>re_machine = calm_machine, re_pid = 1, re_nanos = 1, re_dial = (\<lambda>_. True), re_health = (\<lambda>_ _. True),
     re_rpc = (\<lambda>g w q. if pq_FilePath q \<in> bad then Inl ''unavailable'' else Inr ([primes_msg [7], count_msg 3 0], None)),
     re_sched = concat, re_acks = (\<lambda>_ _. True), re_iter = (\<lambda>xs. xs)\<rparr>"

lemma demo_run_sel [simp]:
  "re_machine (demo_run bad) = calm_machine" "re_pid (demo_run bad) = 1" "re_nanos (demo_run bad) = 1"
  "re_sched (demo_run bad) = concat" "re_iter (demo_run bad) = (\<lambda>xs. xs)"
  by (simp_all add: demo_run_def)

definition demo_file :: bytes where
  "demo_file = number_file [4, 7, 7]"

definition demo_ins :: "nat \<Rightarrow> (string \<times> bytes) list" where
  "demo_ins N = map (\<lambda>i. (input_name i, demo_file)) [1..<1 + N]"

definition demo_cluster :: "nat \<Rightarrow> cluster" where
  "demo_cluster N = loaded (demo_ins N)"

lemma demo_primes: "found_in demo_file = {7}"
  using test_examples by (auto simp: demo_file_def found_in_number_file)

lemma demo_map:
  "k \<in> {1..N} \<Longrightarrow> map_of (demo_ins N) (input_name k) = Some demo_file"
  "k \<notin> {1..N} \<Longrightarrow> map_of (demo_ins N) (input_name k) = None"
  "map_of (demo_ins N) CoordSnapshotFile = None"
proof -
  have d: "distinct (map fst (demo_ins N))"
    by (simp add: demo_ins_def o_def distinct_map inj_on_def input_name_inj del: upt_Suc)
  have s: "set (demo_ins N) = (\<lambda>i. (input_name i, demo_file)) ` {1..N}" by (auto simp: demo_ins_def simp del: upt_Suc)
  show "k \<in> {1..N} \<Longrightarrow> map_of (demo_ins N) (input_name k) = Some demo_file"
    using d s by (intro map_of_is_SomeI) blast+
  show "k \<notin> {1..N} \<Longrightarrow> map_of (demo_ins N) (input_name k) = None"
    unfolding map_of_eq_None_iff s by (auto simp: input_name_inj image_image)
  show "map_of (demo_ins N) CoordSnapshotFile = None"
    unfolding map_of_eq_None_iff s using input_name_plain(3) by (simp add: image_image image_iff) metis
qed

lemma demo_primary: "demo_cluster N ''s1:50051'' = Some (loaded_server (demo_ins N))"
  by (simp add: demo_cluster_def loaded_def)

lemma demo_inputs:
  "has_inputs (the (demo_cluster N ''s1:50051'')) (\<lambda>_. demo_file) 1 N"
  unfolding has_inputs_def demo_primary option.sel
proof (intro conjI ballI)
  show "\<exists>v. served (loaded_server (demo_ins N)) (input_name j) demo_file v" if "j \<in> {1..<1 + N}" for j
    using loaded_served [OF demo_map(1) input_name_plain(1), of j N] that by auto
  show "missing (loaded_server (demo_ins N)) (input_name (1 + N))"
    by (rule loaded_missing [OF demo_map(2) input_name_plain(1)]) simp
qed

lemma demo_no_snapshot: "missing (the (demo_cluster N ''s1:50051'')) CoordSnapshotFile"
  unfolding demo_primary option.sel
  by (rule loaded_missing [OF demo_map(3) good_ordinary [OF CoordSnapshotFile_good(1)]])

lemma demo_setting:
  assumes "0 < N" "N < 9999"
  shows "run_setting (demo_run bad) demo_config ''s1:50051'' (demo_cluster N) (\<lambda>_. demo_file) N []"
proof -
  have "starts_from (the (demo_cluster N ''s1:50051'')) P [] []" for P
    using demo_no_snapshot by (simp add: starts_from_def)
  then show ?thesis
    unfolding run_setting_def using loaded_reaches demo_inputs assms by (auto simp: demo_config_def demo_cluster_def)
qed

lemma demo_stream:
  "re_rpc (demo_run bad) g w (request cfg w f) = (if f \<in> bad then Inl ''unavailable'' else Inr ([primes_msg [7], count_msg 3 0], None))"
  by (simp add: demo_run_def request_def)

lemma demo_solvable:
  "solvable (demo_run bad) demo_config demo_workers f \<longleftrightarrow> f \<notin> bad"
  "hopeless (demo_run bad) demo_config demo_workers f \<longleftrightarrow> f \<in> bad"
  by (auto simp: solvable_def hopeless_def demo_workers_def demo_stream complete_stream_def primes_msg_def count_msg_def)

lemma demo_worker_setting: "worker_setting (demo_run bad) demo_config (\<lambda>_. demo_file) N demo_workers"
proof -
  have "connectToWorkers (re_dial (demo_run bad)) (re_health (demo_run bad)) (WorkerAddrs demo_config) = Inr demo_workers"
    by code_simp
  moreover have "good_name ''primes.txt''" by code_simp
  moreover have "''primes.txt'' \<notin> set (leftovers demo_workers)" by code_simp
  moreover have "workers_sound (demo_run bad) demo_config demo_workers F (\<lambda>_. found_in demo_file)" for F
    unfolding workers_sound_def demo_stream demo_primes
    by (auto simp: stream_primes_def complete_stream_def primes_msg_def count_msg_def)
  moreover have "length demo_workers < 2 ^ 32" by (simp add: demo_workers_def)
  ultimately show ?thesis by (auto simp: worker_setting_def demo_solvable arrives_def ranges_def)
qed

lemma demo_found: "0 < N \<Longrightarrow> (\<Union>f \<in> input_files N. found_in demo_file) = {7}"
  using demo_primes by (auto simp: input_files_def)

theorem Run_writes_all_primes_witness:
  "\<exists>cl' now'. Run (demo_run {}) demo_config no_files (demo_cluster 2) 0 = (None, cl', now') \<and>
    run_contents (demo_cluster 2) cl' ''s1:50051'' ''primes.txt'' (leftovers demo_workers) True {7}"
proof -
  have "\<not> input_files 2 \<subseteq> set []" by (simp add: input_files_def)
  then show ?thesis
    using Run_writes_all_primes [OF demo_setting [of 2 "{}"] demo_worker_setting, of no_files 0] demo_found [of 2]
    by (simp add: demo_solvable)
qed

theorem Run_drops_unsolved_files_witness:
  "\<exists>cl' now'. Run (demo_run {input_name 2}) demo_config no_files (demo_cluster 2) 0 = (None, cl', now') \<and>
    run_contents (demo_cluster 2) cl' ''s1:50051'' ''primes.txt'' (leftovers demo_workers) True {7}"
proof -
  let ?D = "{f \<in> input_files 2. solvable (demo_run {input_name 2}) demo_config demo_workers f}"
  have 2: "input_name 2 \<in> input_files 2" by (simp add: input_files_def)
  have "input_name 1 \<in> ?D" by (simp add: demo_solvable input_files_def input_name_inj)
  then have "(\<Union>f \<in> ?D. found_in demo_file) = {7}" using demo_primes by blast
  then show ?thesis
    using Run_drops_unsolved_files [OF demo_setting [of 2 "{input_name 2}"] demo_worker_setting 2, of no_files 0]
    by (simp add: demo_solvable(2))
qed

theorem processOneFile_tries_all_witness:
  "wr_err (processOneFile (re_rpc (demo_run {}) ''w1'') (hd demo_workers) ''f'' demo_config demo_workers) = None"
proof -
  have "hd demo_workers \<in> set demo_workers" "distinct (map wc_id demo_workers)" by (simp_all add: demo_workers_def)
  from processOneFile_tries_all [OF this, of "re_rpc (demo_run {}) ''w1''" "''f''" demo_config]
  show ?thesis using demo_solvable(1) [of "{}" "''f''"] by (simp add: solvable_def)
qed

theorem dedupAndSort_sorted_set_witness:
  "sorted_wrt (<) (dedupAndSort rev [7, 3, 7]) \<and> set (dedupAndSort rev [7, 3, 7]) = {3, 7 :: u64}"
proof -
  have "ranges rev" by (simp add: ranges_def)
  from dedupAndSort_sorted_set [OF this, of "[7, 3, 7]"] show ?thesis by auto
qed

theorem assignFiles_deals_witness:
  "\<exists>m. assignFiles [''a'', ''b'', ''c''] [\<lparr>wc_id = ''w1'', wc_addr = ''x''\<rparr>, \<lparr>wc_id = ''w2'', wc_addr = ''y''\<rparr>] = Some m \<and>
    assigned m ''x'' = [''a'', ''c''] \<and> assigned m ''y'' = [''b'']"
proof -
  let ?ws = "[\<lparr>wc_id = ''w1'', wc_addr = ''x''\<rparr>, \<lparr>wc_id = ''w2'', wc_addr = ''y''\<rparr>]"
  have "?ws \<noteq> []" "distinct (map wc_addr ?ws)" by simp_all
  from assignFiles_deals [OF this, of "[''a'', ''b'', ''c'']"] obtain m where
    m: "assignFiles [''a'', ''b'', ''c''] ?ws = Some m" "\<forall>j < length ?ws. assigned m (wc_addr (?ws ! j)) = dealt (length ?ws) j 0 [''a'', ''b'', ''c'']"
    by blast
  have "assigned m ''x'' = [''a'', ''c'']" "assigned m ''y'' = [''b'']"
    using m(2) [rule_format, of 0] m(2) [rule_format, of 1] by simp_all
  then show ?thesis using m(1) by blast
qed

lemma restart_reaches:
  assumes "cluster_ok ''s1:50051'' cl" "cl ''s1:50051'' = Some h"
  shows "reaches_primary calm_machine 1 1 (AfsServers demo_config) ''s1:50051''
    (cl(''s1:50051'' \<mapsto> h\<lparr>dedupTable := Map.empty, serverAddr := ''s1:50051''\<rparr>))"
proof -
  have "cluster_ok ''s1:50051'' (cl(''s1:50051'' \<mapsto> h\<lparr>dedupTable := Map.empty, serverAddr := ''s1:50051''\<rparr>))"
    using same_files_ok [OF assms] by (simp add: same_files_def same_role_def)
  then show ?thesis
    using calm_machine_calm by (simp add: reaches_primary_def no_entry_def demo_config_def calm_machine_def)
qed

text \<open>The coordinator stops after the first of two files; the primary restarts before the next run.\<close>

theorem crash_and_resume_witness:
  "\<exists>s g' s1 h1. collect_loop (demo_run {}) [input_name 1, input_name 2] demo_workers 0
      [processOneFile (re_rpc (demo_run {}) ''w1'') (hd demo_workers) (input_name 1) demo_config demo_workers]
      (\<lparr>pg_seen = Map.empty, pg_primes = [], pg_completed = []\<rparr>, s) = (g', s1) \<and> pg_completed g' = [input_name 1] \<and>
    (\<exists>cl' now'. Run (demo_run {}) demo_config no_files
        ((s_cl s1)(''s1:50051'' \<mapsto> h1\<lparr>dedupTable := Map.empty, serverAddr := ''s1:50051''\<rparr>)) 0 = (None, cl', now') \<and>
      content_at cl' ''s1:50051'' ''primes.txt'' = Some (number_file [7]))"
proof -
  let ?a = "''s1:50051''" and ?P = "\<lambda>_. found_in demo_file"
  let ?r = "processOneFile (re_rpc (demo_run {}) ''w1'') (hd demo_workers) (input_name 1) demo_config demo_workers"
  let ?g = "\<lparr>pg_seen = Map.empty, pg_primes = [], pg_completed = []\<rparr>"
  have r: "?r = \<lparr>wr_workerID = ''w1'', wr_filePath = input_name 1, wr_primes = [7], wr_count = 3, wr_elapsed = 0, wr_err = None\<rparr>"
    by (simp add: processOneFile_def tryWorker_def demo_run_def demo_workers_def primes_msg_def count_msg_def)
  have reach: "reaches_primary calm_machine 1 1 (AfsServers demo_config) ?a (demo_cluster 2)"
    using demo_setting [of 2 "{}"] by (simp add: run_setting_def)
  obtain s h where s: "linked ?a (3 * length [?r]) s" "s_cl s ?a = Some h" "same_files (the (demo_cluster 2 ?a)) h"
    using NewClient_calm [OF reach, of "3 * length [?r]" "[]" no_files 0] by auto
  obtain g' s1 where c: "collect_loop (demo_run {}) [input_name 1, input_name 2] demo_workers 0 [?r] (?g, s) = (g', s1)"
    by fastforce
  have g: "progress_ok ?P ?g" by (simp add: progress_ok_def seen_ok_def getb_def)
  have snd: "\<forall>r \<in> set [?r]. sound_result ?P r" unfolding r by (simp add: sound_result_def demo_primes)
  have fin: "finished [?r] = [input_name 1]" unfolding r by simp
  have m: "calm (re_machine (demo_run {}))" "length demo_workers < 2 ^ 63" using calm_machine_calm by (simp_all add: demo_workers_def)
  from collect_loop_calm [OF m, of ?a 0 "[?r]" s ?P ?g "[input_name 1, input_name 2]" 0] s(1) g snd c fin
  have g': "pg_completed g' = [input_name 1]" "linked ?a 0 s1" by auto
  then obtain h1 where h1: "s_cl s1 ?a = Some h1" "cluster_ok ?a (s_cl s1)"
    by (auto simp: linked_def cluster_ok_def split: option.splits)
  let ?cl2 = "(s_cl s1)(?a \<mapsto> h1\<lparr>dedupTable := Map.empty, serverAddr := ?a\<rparr>)"
  have out: "output_only h CoordSnapshotFile"
  proof -
    have "output_only (the (demo_cluster 2 ?a)) CoordSnapshotFile"
      using demo_no_snapshot [of 2] unfolding demo_primary option.sel by (simp add: output_only_def missing_def) code_simp
    then show ?thesis using s(3) by (simp add: output_only_def same_files_def same_role_def)
  qed
  have inp: "has_inputs h (\<lambda>_. demo_file) 1 2"
    using demo_inputs [of 2] same_files_served [OF _ s(3)] same_files_missing [OF _ s(3)] by (fastforce simp: has_inputs_def)
  have two: "input_files 2 = {input_name 1, input_name 2}" by (auto simp: input_files_def numeral_2_eq_2 atLeastAtMostSuc_conv)
  obtain cl' now' where run: "Run (demo_run {}) demo_config no_files ?cl2 0 = (None, cl', now')"
      "run_contents ?cl2 cl' ?a (OutputFile demo_config) (leftovers demo_workers) (\<not> input_files 2 \<subseteq> set (pg_completed g'))
        (\<Union>f \<in> input_files 2. found_in demo_file)"
    using crash_and_resume [OF m s(1) _ g snd c _ s(2) out inp, of "demo_run {}" demo_config ?cl2 demo_workers no_files 0]
      restart_reaches [OF h1(2,1)] h1(1) demo_worker_setting [of "{}" 2] demo_found [of 2] fin g'(1)
    by (auto simp: demo_solvable two same_files_def same_role_def)
  have "?a \<in> replicas ?a ?cl2" by (simp add: replicas_def)
  then have "content_at cl' ?a ''primes.txt'' = Some (number_file [7])"
    using run(2) demo_found [of 2] by (simp add: run_contents_def)
  then show ?thesis using c g'(1) run(1) by blast
qed

end
