(* ===== verification/Commands.thy ===== *)
theory Commands
  imports Coordinator_Runs
begin

text \<open>
  The \<open>main\<close> functions of the commands: \<open>afsfs/cmd/server\<close>, \<open>afsfs/cmd/client\<close> and
  \<open>primefinder/cmd/coordinator\<close> (the handlers that \<open>primefinder/cmd/worker\<close> registers are in
  \<open>Worker\<close>). A command is a function of its flags and its machine; the result is the message it
  ends with, if it ends with an error. Log lines and text on the terminal are left out.
\<close>

section \<open>The AFS server\<close>

record ServerFlags =
  sf_id :: string
  sf_host :: string
  sf_port :: string
  sf_inputDir :: string
  sf_outputDir :: string
  sf_peers :: string
  sf_primary :: bool

definition parse_peer :: "string \<Rightarrow> PeerInfo option" where
  "parse_peer p =
     (let parts = split_n2 (CHR ''='') p
      in if length parts = 2 then Some \<lparr>pi_ID = parts ! 0, pi_Addr = parts ! 1\<rparr> else None)"

definition parse_peers :: "string \<Rightarrow> PeerInfo list" where
  "parse_peers ps = (if ps \<noteq> [] then List.map_filter parse_peer (split_on (CHR '','') ps) else [])"

fun findExistingPrimary ::
  "(string \<Rightarrow> bool) \<Rightarrow> primary_rpc \<Rightarrow> PeerInfo list \<Rightarrow> net \<Rightarrow> string \<times> net" where
  "findExistingPrimary dial rpc [] s = ([], s)"
| "findExistingPrimary dial rpc (p # ps) s =
     (if \<not> dial (pi_Addr p) then findExistingPrimary dial rpc ps s
      else case rpc 2000 (pi_Addr p) s of
             (Some addr, s1) \<Rightarrow> if addr \<noteq> [] then (addr, s1) else findExistingPrimary dial rpc ps s1
           | (None, s1) \<Rightarrow> findExistingPrimary dial rpc ps s1)"

definition server_addr :: "ServerFlags \<Rightarrow> string" where
  "server_addr f = sf_host f @ '':'' @ sf_port f"

definition startAsPrimary ::
  "(string \<Rightarrow> bool) \<Rightarrow> primary_rpc \<Rightarrow> ServerFlags \<Rightarrow> net \<Rightarrow> bool \<times> net" where
  "startAsPrimary dial rpc f s =
     (if sf_primary f
      then case findExistingPrimary dial rpc (parse_peers (sf_peers f)) s of
             (existing, s1) \<Rightarrow> (existing = [] \<or> existing = server_addr f, s1)
      else (False, s))"

text \<open>
  The server runs at its address once it listens; \<open>dsk\<close> is the disk it finds, \<open>listen\<close> gives the
  error of binding a port, if any.
\<close>

definition server_main ::
  "(string \<Rightarrow> bool) \<Rightarrow> faults \<Rightarrow> primary_rpc \<Rightarrow> (string \<Rightarrow> string option) \<Rightarrow> disk \<Rightarrow> ServerFlags \<Rightarrow> net \<Rightarrow>
   string option \<times> net" where
  "server_main dial flt rpc listen dsk f s =
     (case startAsPrimary dial rpc f s of
        (isPrimary, cl, now) \<Rightarrow>
          (case NewHandler dial flt now dsk (sf_inputDir f) (sf_outputDir f) (sf_id f) (server_addr f)
                  (parse_peers (sf_peers f)) isPrimary of
             Inl e \<Rightarrow> (Some (''failed to init handler: '' @ e), cl, now)
           | Inr h \<Rightarrow>
               (case listen (sf_port f) of
                  Some e \<Rightarrow> (Some (''failed to listen on port '' @ sf_port f @ '': '' @ e), cl, now)
                | None \<Rightarrow> (None, cl(server_addr f \<mapsto> h), now))))"

section \<open>The example client\<close>

definition greeting :: bytes where
  "greeting = ''This file is on all 3 servers!'' @ [newline]"

text \<open>The client ignores the errors of its calls; without a handle it goes on with handle 0.\<close>

definition client_main ::
  "machine \<Rightarrow> nat \<Rightarrow> nat \<Rightarrow> string \<Rightarrow> string \<Rightarrow> localfs \<Rightarrow> cluster \<Rightarrow> nat \<Rightarrow> string option \<times> cluster \<times> nat" where
  "client_main m pid nanos servers cache_dir fs cl now =
     (case NewClient m pid nanos (split_on (CHR '','') servers) cache_dir fs cl now of
        Inl (e, cl1, now1) \<Rightarrow> (Some (''connect failed: '' @ e), cl1, now1)
      | Inr s \<Rightarrow>
          let s1 = snd (DeleteFile m ''replicated.txt'' s);
              (r, s2) = CreateFile m ''replicated.txt'' s1;
              wh = (case r of Inl e \<Rightarrow> 0 | Inr hid \<Rightarrow> hid);
              s3 = snd (Write m wh greeting s2);
              s4 = CloseConn (snd (Close m wh s3))
          in (None, s_cl s4, s_now s4))"

section \<open>The coordinator\<close>

record CoordinatorFlags =
  kf_afs :: string
  kf_workers :: string
  kf_cacheDir :: string
  kf_output :: string

definition coordinator_config :: "CoordinatorFlags \<Rightarrow> Config" where
  "coordinator_config f =
     \<lparr>AfsServers = split_on (CHR '','') (kf_afs f), WorkerAddrs = split_on (CHR '','') (kf_workers f),
      cf_CacheDir = kf_cacheDir f, OutputFile = kf_output f\<rparr>"

definition coordinator_main ::
  "run_env \<Rightarrow> CoordinatorFlags \<Rightarrow> localfs \<Rightarrow> cluster \<Rightarrow> nat \<Rightarrow> string option \<times> cluster \<times> nat" where
  "coordinator_main env f fs cl now =
     (case Run env (coordinator_config f) fs cl now of
        (Some e, cl1, now1) \<Rightarrow> (Some (''coordinator failed: '' @ e), cl1, now1)
      | (None, cl1, now1) \<Rightarrow> (None, cl1, now1))"

section \<open>Flags\<close>

lemma split_n2_at: "c \<notin> set x \<Longrightarrow> split_n2 c (x @ c # y) = [x, y]"
proof -
  assume "c \<notin> set x"
  then have "takeWhile (\<lambda>a. a \<noteq> c) (x @ c # y) = x" by (subst takeWhile_append2) auto
  then show ?thesis by (simp add: split_n2_def Let_def)
qed

lemma join_split: "join_with [c] (split_on c s) = s"
proof (induction s)
  case (Cons a s)
  obtain y ys where y: "split_on c s = y # ys" by (cases "split_on c s") auto
  show ?case
  proof (cases "a = c")
    case True
    then show ?thesis using Cons by (simp add: y)
  next
    case False
    then show ?thesis using Cons by (cases ys) (simp_all add: y)
  qed
qed simp

text \<open>
  C33: The peers flag can express every list of peers whose ids and addresses have no comma and whose
  ids have no equals sign: writing \<open>id=addr\<close> with commas in between and parsing it gives the
  list back.
\<close>

theorem peers_flag_round_trip:
  assumes "\<forall>p \<in> set ps. CHR '','' \<notin> set (pi_ID p) \<and> CHR '','' \<notin> set (pi_Addr p) \<and> CHR ''='' \<notin> set (pi_ID p)"
  shows "parse_peers (join_with '','' (map (\<lambda>p. pi_ID p @ ''='' @ pi_Addr p) ps)) = ps"
proof (cases "ps = []")
  case False
  let ?t = "\<lambda>p :: PeerInfo. pi_ID p @ ''='' @ pi_Addr p"
  have "join_with '','' (map ?t ps) \<noteq> []" using False by (cases ps rule: remdups_adj.cases) auto
  moreover have "split_on (CHR '','') (join_with '','' (map ?t ps)) = map ?t ps"
    using False assms by (intro split_on_join) auto
  moreover have "parse_peer (?t p) = Some p" if "p \<in> set ps" for p
    using assms that by (simp add: parse_peer_def split_n2_at Let_def)
  then have "List.map_filter parse_peer (map ?t ps) = ps"
    by (induction ps) (simp_all add: map_filter_def)
  ultimately show ?thesis by (simp add: parse_peers_def)
qed (simp add: parse_peers_def)

theorem peers_flag_round_trip_witness:
  "parse_peers ''s2=s2:50052,s3=s3:50053'' =
     [\<lparr>pi_ID = ''s2'', pi_Addr = ''s2:50052''\<rparr>, \<lparr>pi_ID = ''s3'', pi_Addr = ''s3:50053''\<rparr>]"
  using peers_flag_round_trip [of "[\<lparr>pi_ID = ''s2'', pi_Addr = ''s2:50052''\<rparr>, \<lparr>pi_ID = ''s3'', pi_Addr = ''s3:50053''\<rparr>]"]
  by simp

section \<open>A server that comes back\<close>

lemma findExistingPrimary_eq:
  "findExistingPrimary dial rpc ps s =
     apfst (\<lambda>r. case r of None \<Rightarrow> [] | Some a \<Rightarrow> a) (ask_peers rpc (map pi_Addr (filter (\<lambda>p. dial (pi_Addr p)) ps)) s)"
  by (induction ps arbitrary: s) (auto split: option.splits prod.splits)

lemma ask_peers_nonempty: "ask_peers rpc ps s = (Some addr, s') \<Longrightarrow> addr \<noteq> []"
  by (induction ps arbitrary: s) (auto split: option.splits if_splits prod.splits)

lemma ask_peers_finds:
  assumes "primary_at up (fst s) p" "p \<in> set ps" "p \<noteq> []" "self_addr (fst s)"
  shows "fst (ask_peers (GetPrimary (Suc k) up) ps s) \<noteq> None"
  using assms
proof (induction ps arbitrary: s)
  case (Cons x xs)
  obtain r s1 where r: "GetPrimary (Suc k) up 2000 x s = (r, s1)" by (metis surj_pair)
  have f: "cl_forgets (fst s) (fst s1)" using GetPrimary_quiet [of s "Suc k" up 2000 x] by (simp add: r)
  show ?case
  proof (cases "x = p")
    case True
    moreover have "serverAddr (the (fst s p)) = p" using Cons.prems(1,4) by (auto simp: primary_at_def self_addr_def split: option.splits)
    ultimately have "r = Some p" using GetPrimary_prompt [OF Cons.prems(1), of 2000 k "snd s"] r by simp
    then show ?thesis using Cons.prems(3) r by (simp del: GetPrimary.simps)
  next
    case False
    then show ?thesis
      using Cons.IH [OF primary_at_forgets [OF f Cons.prems(1)] _ Cons.prems(3) self_addr_forgets [OF f Cons.prems(4)]] Cons.prems(2) r
      by (auto simp del: GetPrimary.simps split: option.split)
  qed
qed simp

lemma initVersion_role:
  "initVersion flt dir h = Inr h' \<Longrightarrow> primary h' = primary h \<and> gr_sender h' = gr_sender h"
  by (auto simp: initVersion_def split: sum.splits prod.splits if_splits)

lemma NewHandler_backup:
  "NewHandler dial flt now dsk di dout n a ps False = Inr h \<Longrightarrow> \<not> primary h \<and> gr_sender h = 0 \<and> gr_monitor h"
  by (auto simp: NewHandler_def Let_def startSync_def startHeartbeatMonitor_def split: sum.splits dest!: initVersion_role)

text \<open>
  C18: A server that is started with the primary flag while another primary runs and can be reached
  joins as a backup: whatever the other peers remember, the first address that
  \<open>findExistingPrimary\<close> gets is that of a running process, so it is not the server's own.
\<close>

theorem restarted_primary_joins_as_backup:
  assumes "p \<in> set (parse_peers (sf_peers f))" "dial (pi_Addr p)" "primary_at up cl (pi_Addr p)" "pi_Addr p \<noteq> []"
    and "self_addr cl" "\<not> alive_peer up cl (server_addr f)"
    and "server_main dial flt (GetPrimary (Suc k) up) listen dsk f (cl, now) = (None, cl', t)"
  shows "\<exists>h. cl' (server_addr f) = Some h \<and> \<not> primary h \<and> gr_sender h = 0 \<and> gr_monitor h"
proof -
  let ?ps = "map pi_Addr (filter (\<lambda>p. dial (pi_Addr p)) (parse_peers (sf_peers f)))"
  obtain q s1 where q: "ask_peers (GetPrimary (Suc k) up) ?ps (cl, now) = (q, s1)" by (metis surj_pair)
  have "pi_Addr p \<in> set ?ps" using assms(1,2) by auto
  then obtain addr where addr: "q = Some addr"
    using ask_peers_finds [of up "(cl, now)" "pi_Addr p" ?ps k] assms(3-5) q by auto
  have "alive_peer up cl addr"
    using gpk.ask_peers_running [OF GetPrimary_running, of "(cl, now)" "Suc k" up ?ps addr s1] assms(5) q addr by (simp del: GetPrimary.simps)
  then have ne: "addr \<noteq> server_addr f" using assms(6) by auto
  have nn: "addr \<noteq> []" using ask_peers_nonempty [of _ ?ps] q addr by blast
  have "fst (startAsPrimary dial (GetPrimary (Suc k) up) f (cl, now)) = False"
    using q addr ne nn by (simp add: startAsPrimary_def findExistingPrimary_eq)
  then obtain cl1 now1 where s: "startAsPrimary dial (GetPrimary (Suc k) up) f (cl, now) = (False, cl1, now1)"
    by (metis fst_conv prod_cases3)
  obtain h where h: "NewHandler dial flt now1 dsk (sf_inputDir f) (sf_outputDir f) (sf_id f) (server_addr f)
      (parse_peers (sf_peers f)) False = Inr h" "cl' = cl1(server_addr f \<mapsto> h)"
    using assms(7) s by (auto simp: server_main_def split: sum.splits option.splits)
  have "\<not> primary h \<and> gr_sender h = 0 \<and> gr_monitor h" using h(1) by (rule NewHandler_backup)
  then show ?thesis using h(2) by simp
qed

text \<open>The deployment in which the second server has become the primary and the first one comes back.\<close>

definition taken_over :: cluster where
  "taken_over = [''s2:50052'' \<mapsto> compose_server compose_disk ''s2'' ''s2:50052'' True,
     ''s3:50053'' \<mapsto> (compose_server compose_disk ''s3'' ''s3:50053'' False)\<lparr>knownPrimaryAddr := ''s1:50051''\<rparr>]"

definition compose_flags :: ServerFlags where
  "compose_flags = \<lparr>sf_id = ''s1'', sf_host = ''s1'', sf_port = ''50051'', sf_inputDir = ''/data/input'',
     sf_outputDir = ''/data/output'', sf_peers = ''s3=s3:50053,s2=s2:50052'', sf_primary = True\<rparr>"

theorem restarted_primary_joins_as_backup_witness:
  "\<exists>cl' t h. server_main (\<lambda>_. True) no_faults (GetPrimary 3 (\<lambda>_. True)) (\<lambda>_. None) compose_disk compose_flags (taken_over, 0) =
      (None, cl', t) \<and> cl' ''s1:50051'' = Some h \<and> \<not> primary h"
proof -
  let ?up = "\<lambda>_. True" and ?p = "\<lparr>pi_ID = ''s2'', pi_Addr = ''s2:50052''\<rparr>"
  let ?run = "server_main (\<lambda>_. True) no_faults (GetPrimary (Suc 2) ?up) (\<lambda>_. None) compose_disk compose_flags (taken_over, 0)"
  have p: "?p \<in> set (parse_peers (sf_peers compose_flags))" by code_simp
  have a: "server_addr compose_flags = ''s1:50051''" by code_simp
  have pr: "primary_at ?up taken_over (pi_Addr ?p)" "self_addr taken_over" "\<not> alive_peer ?up taken_over (server_addr compose_flags)"
    by (auto simp: primary_at_def taken_over_def self_addr_def alive_peer_def a split: if_splits)
  have dirs: "os_ReadDir no_faults ''/data/input'' compose_disk = Inr []" "os_ReadDir no_faults ''/data/output'' compose_disk = Inr []"
    by code_simp+
  then have "\<exists>cl' t. ?run = (None, cl', t)"
    by (simp add: server_main_def compose_flags_def NewHandler_def initVersion_def del: GetPrimary.simps split: prod.split)
  then obtain cl' t where r: "?run = (None, cl', t)" by blast
  from restarted_primary_joins_as_backup [OF p _ pr(1) _ pr(2,3) r] obtain h where "cl' ''s1:50051'' = Some h" "\<not> primary h"
    by (auto simp: a)
  then show ?thesis using r by (simp add: numeral_3_eq_3 numeral_2_eq_2 del: GetPrimary.simps)
qed

section \<open>The example client on a healthy cluster\<close>

text \<open>
  C30: What the example client says at its end is true when it runs on a machine without faults and
  reaches the primary of a cluster whose servers all run, with working disks and links: every
  server then holds the same text in \<open>replicated.txt\<close>, whatever was there before, and no other
  file has changed. (The client drops every error, so without these conditions it says so all
  the same.)
\<close>

theorem client_main_replicates:
  assumes "reaches_primary m pid nanos (split_on (CHR '','') servers) a cl"
  shows "\<exists>cl' now'. client_main m pid nanos servers dir fs cl now = (None, cl', now') \<and>
    (\<forall>r \<in> replicas a cl. content_at cl' r ''replicated.txt'' = Some greeting \<and>
       (\<forall>x. good_name x \<longrightarrow> x \<noteq> ''replicated.txt'' \<longrightarrow> content_at cl' r x = content_at cl r x))"
proof -
  have cm: "calm m" using assms by (simp add: reaches_primary_def)
  have g: "good_name ''replicated.txt''" by code_simp
  have b: "greeting \<noteq> []" by (simp add: greeting_def)
  obtain s h h1 where nc: "NewClient m pid nanos (split_on (CHR '','') servers) dir fs cl now = Inr s"
      "linked a (Suc (Suc (Suc 0))) s" "cl a = Some h" "s_cl s = cl(a \<mapsto> h1)" "same_files h h1"
    using NewClient_calm [OF assms, of "Suc (Suc (Suc 0))" dir fs now] by auto
  obtain s' where w: "writeToAFS m ''replicated.txt'' greeting s = (None, s')"
      "all_change a (Put greeting 2) ''replicated.txt'' (s_cl s) (s_cl s')"
    using writeToAFS_calm [OF cm nc(2) g b] by blast
  obtain hid s1 n s2 where "CreateFile m ''replicated.txt'' (snd (DeleteFile m ''replicated.txt'' s)) = (Inr hid, s1)"
      "Write m hid greeting s1 = (Inr n, s2)" "Close m hid s2 = (None, s')"
    using w(1) by (auto simp: writeToAFS_def split: prod.splits sum.splits option.splits)
  then have "client_main m pid nanos servers dir fs cl now = (None, s_cl s', s_now (CloseConn s'))"
    using nc(1) by (simp add: client_main_def CloseConn_def on_client_def)
  moreover have "content_at (s_cl s) r x = content_at cl r x" for r x
    unfolding content_at_def nc(4) using nc(3,5) by (rule same_files_content)
  moreover have "replicas a (s_cl s) = replicas a cl" unfolding nc(4) using nc(3,5) by (rule same_files_replicas)
  ultimately show ?thesis using all_change_at [OF w(2)] g by auto
qed

theorem client_main_replicates_witness:
  "\<exists>cl' now'. client_main calm_machine 1 1 ''s1:50051,s2:50052,s3:50053'' ''tmp/afs-cache'' no_files (loaded []) 0 = (None, cl', now') \<and>
    content_at cl' ''s1:50051'' ''replicated.txt'' = Some greeting"
proof -
  have s: "split_on (CHR '','') ''s1:50051,s2:50052,s3:50053'' = [''s1:50051'', ''s2:50052'', ''s3:50053'']" by code_simp
  have "''s1:50051'' \<in> replicas ''s1:50051'' (loaded [])" by (simp add: replicas_def loaded_def)
  then show ?thesis
    using client_main_replicates [OF loaded_reaches [of 1 1 "[]", folded s], of "''tmp/afs-cache''" no_files 0] by blast
qed

end
