(* ===== verification/Spec2Isabelle.thy ===== *)
theory Spec2Isabelle
  imports Miller_Rabin Afs_Sync Commands
begin

text \<open>
  Verification of a distributed prime finder and of the replicated file service it runs on.

  \<^bold>\<open>The program.\<close> \<open>afsfs\<close> is a file service in the manner of AFS: server processes
  (\<open>pkg/server\<close>) hold whole files with version numbers, one of them is the primary and copies
  every change to the others; a client library (\<open>pkg/afs\<close>) caches whole files, writes them back
  on close, retries and fails over. \<open>primefinder\<close> uses it: a coordinator (\<open>pkg/coordinator\<close>)
  deals the input files on AFS to workers (\<open>cmd/worker\<close>) over gRPC; each worker reads its file
  through an AFS client, tests the numbers with Miller-Rabin (\<open>pkg/prime\<close>) and streams the primes
  back; coordinator and workers save their state as JSON snapshots on AFS (\<open>pkg/snapshot\<close>), so
  that a coordinator that was stopped resumes where it was; the result is a sorted file of
  primes on AFS.

  \<^bold>\<open>Theories and sources.\<close>
  \<^item> \<open>Go_Prelude\<close>, \<open>Go_Strings\<close>, \<open>Os_Files\<close>, \<open>Json\<close>: what the code uses of Go: 64-bit arithmetic
    (\<open>uint64\<close> as words, \<open>int64\<close> as integers wrapped to 64 bits), map reads, decimal formatting
    and \<open>ParseUint\<close>, \<open>TrimSpace\<close>, \<open>Split\<close>, paths, \<open>bufio.Scanner\<close> lines; disks as association lists
    with injectable faults; \<open>encoding/json\<close> with UTF-8, escapes and surrogate pairs, and its round
    trip.
  \<^item> \<open>Primes\<close>, \<open>Miller_Rabin\<close> (\<open>miller_rabin.go\<close>): every function of the package; loops end by a
    measure, a zero modulus is the value \<open>None\<close>.
  \<^item> \<open>Afs_Server\<close> (\<open>handler.go\<close>: state, start, \<open>Open\<close>, \<open>FetchFile\<close>, \<open>TestAuth\<close>, \<open>CloseFile\<close>,
    \<open>Replicate\<close>), \<open>Afs_Replication\<close> (\<open>StoreFile\<close>, \<open>CreateFile\<close>, \<open>DeleteFile\<close> and \<open>replication.go\<close>):
    a server is a record, a cluster a map from addresses to servers, a handler a function from
    request and cluster to outcome and cluster. An \<open>env\<close> says which calls, links and disk
    operations fail.
  \<^item> \<open>Afs_Election\<close> (\<open>election.go\<close>, \<open>heartbeat.go\<close>): \<open>GetPrimary\<close> with its recursion through the
    peers and its deadlines, elections, announcements; \<open>cluster_step\<close> is the step relation of
    sender and monitor goroutines, message delivery and loss, crashes and starts. The handlers of
    \<open>Heartbeat\<close> and \<open>GetPrimary\<close> and a round of the monitor are also taken apart where the code
    releases its locks, so that other steps come in between.
  \<^item> \<open>Afs_Sync\<close> (\<open>handler.go\<close>): \<open>SyncState\<close> and the receiving side with its 30 retries.
  \<^item> \<open>Afs_Cache\<close> (\<open>cache.go\<close>), \<open>Afs_Client\<close> (\<open>client.go\<close>), \<open>Afs_Sessions\<close>: the client library with
    its cache table, local files by inode, request numbers, retry and fail-over loops. A
    \<open>session\<close> is a client together with the cluster and the clock; a \<open>machine\<close> scripts for every
    call what the network does and what other processes do to the cluster before it.
  \<^item> \<open>Snapshot\<close> (\<open>snapshot.go\<close>), \<open>Worker\<close> (\<open>cmd/worker/main.go\<close>), \<open>Coordinator\<close> and
    \<open>Coordinator_Runs\<close> (\<open>coordinator.go\<close>), \<open>Commands\<close> (the \<open>main\<close> functions).
  \<^item> This theory composes worker and coordinator.

  \<^bold>\<open>Interfaces.\<close> Locales state what one part relies on in another, and are interpreted on the
  model's definitions: \<open>replay\<close> (a repeated request is answered from the duplicate table),
  \<open>probe\<close>, \<open>primary_search\<close>, \<open>mute_probe\<close> (what elections need of \<open>GetPrimary\<close>), \<open>handle_table\<close> (the
  client's open files), \<open>codec\<close> (JSON of the snapshots), \<open>file_store\<close> (put and delete of whole
  files on every replica, as the prime finder sees AFS), \<open>prime_test\<close> (what the worker needs of
  the primality test).

  \<^bold>\<open>What is shown.\<close>
  \<^item> Primality: the word-level code equals the strong test on natural numbers, accepts every
    prime of the \<open>uint64\<close> range, is exact below \<open>41\<^sup>2\<close>. That the twelve bases decide primality up to
    \<open>2\<^sup>6\<^sup>4\<close> is a published computation and is not assumed.
  \<^item> Writes: \<open>StoreFile\<close> is all or nothing on a server under any fault, repeated requests have no
    effect, writes refine put and delete of an abstract map on the primary and on every backup that
    is reached, while a backup that is not reached keeps its files and the client is told success.
  \<^item> Roles: invariants of all reachable states, the outcome of an election, and the schedules in
    which two servers are primary at once or a primary forgets that it is one; a server that comes
    back joins as a backup.
  \<^item> Synchronisation: what a backup takes over, what an interrupted stream leaves behind, and that
    the retries succeed as soon as the link is up.
  \<^item> Client: what is written and closed is read back; a stale cache entry after delete and create.
  \<^item> Prime finder: snapshots survive the round trip through JSON and AFS, up to bytes that are not
    UTF-8; a worker records only files it has read to their end and streams exactly the accepted
    numbers of the file; a run writes the sorted union
    for any order of results and any failing workers as long as one completes each file; files
    that none completes are dropped; after a crash at any result a second run ends with the same
    output; and the command as a whole, with workers that run \<open>ProcessFile\<close>.

  \<^bold>\<open>Bounds.\<close> \<open>GetPrimary\<close> has the depth of the chain of calls as fuel: a call at depth 0 uses up its
  deadline, as a chain of servers that ask each other does. \<open>discoverInputFiles\<close> tries the 9999
  names the code tries, and the properties take \<open>N < 9999\<close> files so that the first missing name ends
  the search. Retry loops have the code's number of attempts. \<open>parse_json\<close> has the length of the
  text as fuel; the round trip shows that this is enough for every text that \<open>json.Marshal\<close> writes.
  The number of requests of a run is bounded so that request numbers do not wrap.

  \<^bold>\<open>Not modelled.\<close> The generated protobuf and gRPC code: a call is the handler applied at the
  address, or fails. Mutexes: a handler, and a turn of a goroutine, is one step, except where the
  role of a server is read and its memory of the primary is written under different locks (the
  steps \<open>poll\<close> and \<open>decide\<close>, \<open>beat\<close>, \<open>doubt\<close> and \<open>write_late\<close>). Other processes act on the cluster only between the calls
  of a session; the properties of whole runs take a cluster on which nobody else writes, so the
  snapshot files that workers write during a run do not appear in them. Logging, text on the
  terminal, the test programs under \<open>tests/\<close>, Docker files and scripts are left out.
\<close>

section \<open>Worker and coordinator together\<close>

text \<open>What the coordinator receives from a call of \<open>ProcessFile\<close>.\<close>

definition worker_stream :: "processed \<Rightarrow> stream_result" where
  "worker_stream p = Inr (fst p, fst (snd p))"

lemma answers_complete:
  "answers P n msgs \<Longrightarrow> complete_stream (Inr (msgs, None)) \<and> stream_primes (Inr (msgs, None)) = P"
  by (simp add: answers_def complete_stream_def stream_primes_def)

lemma error_msg_sel [simp]: "pr_Error (error_msg e) = e"
  by (simp add: error_msg_def)

lemma recv_loop_snoc:
  assumes "\<forall>c \<in> set cs. pr_Error c = []" "pr_Error c = []" "0 < pr_Count c"
  shows "\<exists>ms'. recv_loop (cs @ [c]) None ps n ms = Inr (ps @ concat (map pr_Primes (cs @ [c])), pr_Count c, ms')"
  using assms(1)
proof (induction cs arbitrary: ps n ms)
  case (Cons x xs)
  then show ?case
    using Cons.IH [of "ps @ pr_Primes x" "if 0 < pr_Count x then pr_Count x else n"
        "if 0 < pr_ElapsedMs x then pr_ElapsedMs x else ms"] by simp
qed (simp add: assms)

lemma afs_flag: "AfsServers (coordinator_config f) = split_on (CHR '','') (kf_afs f)"
  "pq_AfsServers (request (coordinator_config f) w x) = kf_afs f"
  by (simp_all add: coordinator_config_def request_def join_split)

text \<open>
  C14: The worker's stream and the coordinator's reading of it fit together. When the worker's
  machine is healthy and the primary it finds serves the file, \<open>tryWorker\<close> succeeds with the
  numbers of the file that pass the test, each once, and with the count of all its numbers;
  when a line of the file is too long, it fails and no prime is taken over.
\<close>

theorem tryWorker_of_ProcessFile:
  assumes "reaches_primary m pid nanos (split_on (CHR '','') (kf_afs k)) a cl"
    and "cl a = Some h" "served h f b v" "worker_inv wk" "\<forall>i. serr i = None" "\<forall>xs. set (iter xs) = set xs"
    and "good_name (WorkerSnapshotFile (wk_workerID wk))" "int (length (file_numbers (file_lines b))) < 2 ^ 63"
    and r_def: "r = tryWorker (\<lambda>w q. worker_stream (ProcessFile m serr iter pid nanos q wk fs cl start)) w f (coordinator_config k)"
  shows "if snd (scan_lines 256 b) then wr_err r \<noteq> None \<and> wr_primes r = []
    else wr_err r = None \<and> distinct (wr_primes r) \<and> set (wr_primes r) = found_in b \<and>
      (file_numbers (file_lines b) \<noteq> [] \<longrightarrow> wr_count r = int (length (file_numbers (file_lines b))))"
proof -
  let ?q = "request (coordinator_config k) w f" and ?n = "length (file_numbers (file_lines b))"
  have q: "pq_AfsServers ?q = kf_afs k" "pq_FilePath ?q = f" by (simp_all add: afs_flag(2)) (simp add: request_def)
  obtain msgs w' rest where p: "ProcessFile m serr iter pid nanos ?q wk fs cl start = (msgs, None, w', rest)"
    "if snd (scan_lines 256 b) then msgs \<noteq> [] \<and> last msgs = error_msg ''scan error: bufio.Scanner: token too long''
     else answers (found_in b) (int ?n) msgs"
    using ProcessFile_calm [of m pid nanos ?q a cl h b v wk serr iter fs start] assms(1-8) unfolding q by (fastforce split: if_splits)
  have r: "r = (case recv_loop msgs None [] 0 0 of
      Inl e \<Rightarrow> failed (wc_id w) f e
    | Inr (ps, n, ms) \<Rightarrow> \<lparr>wr_workerID = wc_id w, wr_filePath = f, wr_primes = ps, wr_count = n, wr_elapsed = ms, wr_err = None\<rparr>)"
    using p(1) by (simp add: r_def tryWorker_def request_def worker_stream_def)
  show ?thesis
  proof (cases "snd (scan_lines 256 b)")
    case True
    then have "error_msg ''scan error: bufio.Scanner: token too long'' \<in> set msgs" using p(2) last_in_set [of msgs] by auto
    then have "\<not> (\<forall>c \<in> set msgs. pr_Error c = [])" by fastforce
    then obtain e where "recv_loop msgs None [] 0 0 = Inl e"
      using recv_loop_ok [of msgs None "[]" 0 0] by (cases "recv_loop msgs None [] 0 0") auto
    then show ?thesis using True r by (simp add: failed_def)
  next
    case False
    then have a: "answers (found_in b) (int ?n) msgs" using p(2) by simp
    then obtain ms where l: "msgs = butlast msgs @ [count_msg (int ?n) ms]" "\<forall>c \<in> set msgs. pr_Error c = []"
      by (metis answers_def append_butlast_last_id)
    obtain n ms' where i: "recv_loop msgs None [] 0 0 = Inr (concat (map pr_Primes msgs), n, ms')"
      using recv_loop_complete [OF l(2), of "[]" 0 0] by auto
    moreover have "n = int ?n" if "file_numbers (file_lines b) \<noteq> []"
    proof -
      have e: "\<forall>c \<in> set (butlast msgs). pr_Error c = []" "pr_Error (count_msg (int ?n) ms) = []"
        using l(2) in_set_butlastD by (fastforce, simp add: count_msg_def)
      have "0 < pr_Count (count_msg (int ?n) ms)" using that by (simp add: count_msg_def)
      from recv_loop_snoc [OF e this, of "[]" 0 0] show ?thesis using i l(1) by (auto simp: count_msg_def)
    qed
    ultimately show ?thesis using False r a by (simp add: answers_def)
  qed
qed

text \<open>
  A stream for the request \<open>q\<close> as \<open>ProcessFile\<close> gives it in some state of the worker, on a healthy
  machine that reaches a primary on which the file holds \<open>b\<close>. In a run every call of a worker has
  such a stream or fails.
\<close>

definition from_ProcessFile :: "ProcessFileRequest \<Rightarrow> bytes \<Rightarrow> stream_result \<Rightarrow> bool" where
  "from_ProcessFile q b r \<longleftrightarrow>
     (\<exists>m iter pid nanos wk fs cl start a v.
        reaches_primary m pid nanos (split_on (CHR '','') (pq_AfsServers q)) a cl \<and>
        served (the (cl a)) (pq_FilePath q) b v \<and> worker_inv wk \<and> (\<forall>xs. set (iter xs) = set xs) \<and>
        good_name (WorkerSnapshotFile (wk_workerID wk)) \<and>
        r = worker_stream (ProcessFile m (\<lambda>_. None) iter pid nanos q wk fs cl start))"

definition runs_ProcessFile :: "run_env \<Rightarrow> Config \<Rightarrow> (string \<Rightarrow> bytes) \<Rightarrow> nat \<Rightarrow> workerConn list \<Rightarrow> bool" where
  "runs_ProcessFile env cfg content N ws \<longleftrightarrow>
     (\<forall>g. \<forall>w \<in> set ws. \<forall>f \<in> input_files N. let q = request cfg w f; r = re_rpc env g w q in
        \<not> complete_stream r \<or> from_ProcessFile q (content f) r)"

lemma from_ProcessFile_primes:
  assumes "from_ProcessFile q b r" "complete_stream r" "int (length (file_numbers (file_lines b))) < 2 ^ 63"
  shows "stream_primes r = found_in b"
proof -
  obtain m iter pid nanos wk fs cl start a v where s:
    "reaches_primary m pid nanos (split_on (CHR '','') (pq_AfsServers q)) a cl"
    "served (the (cl a)) (pq_FilePath q) b v" "worker_inv wk" "\<forall>xs. set (iter xs) = set xs"
    "good_name (WorkerSnapshotFile (wk_workerID wk))"
    "r = worker_stream (ProcessFile m (\<lambda>_. None) iter pid nanos q wk fs cl start)"
    using assms(1) unfolding from_ProcessFile_def by (elim exE conjE)
  have "cl a = Some (the (cl a))" using s(1) by (auto simp: reaches_primary_def cluster_ok_def split: option.splits)
  from ProcessFile_calm [OF s(1) this s(2,3) _ s(4,5) assms(3), of "\<lambda>_. None" fs start] obtain msgs w' rest where
    p: "ProcessFile m (\<lambda>_. None) iter pid nanos q wk fs cl start = (msgs, None, w', rest)"
      "if snd (scan_lines 256 b) then msgs \<noteq> [] \<and> last msgs = error_msg ''scan error: bufio.Scanner: token too long''
       else answers (found_in b) (int (length (file_numbers (file_lines b)))) msgs"
    by (fastforce split: if_splits)
  have rr: "r = Inr (msgs, None)" using s(6) p(1) by (simp add: worker_stream_def)
  then have "\<forall>c \<in> set msgs. pr_Error c = []" using assms(2) by (simp add: complete_stream_def)
  then have "\<not> snd (scan_lines 256 b)" using p(2) last_in_set [of msgs] by fastforce
  then show ?thesis using p(2) answers_complete rr by auto
qed

lemma runs_ProcessFile_sound:
  assumes "runs_ProcessFile env cfg content N ws" "\<forall>f \<in> input_files N. int (length (file_numbers (file_lines (content f)))) < 2 ^ 63"
  shows "workers_sound env cfg ws (input_files N) (\<lambda>f. found_in (content f))"
  using assms from_ProcessFile_primes unfolding workers_sound_def runs_ProcessFile_def Let_def by blast

text \<open>
  C1: The prime finder as a whole. The primary of a healthy cluster has \<open>N\<close> input files with one
  number per line, and workers that run \<open>ProcessFile\<close> or fail, at least one of them answering for
  each file. Then the coordinator command ends without error, and every AFS server holds an
  output file with the numbers of all inputs that pass the Miller-Rabin test, in strictly
  ascending order, one per line. No prime of any input file is missing from it, and when the
  inputs are below \<open>41\<^sup>2\<close> it is exactly their primes.
\<close>

theorem prime_finder_correct:
  assumes "reaches_primary (re_machine env) (re_pid env) (re_nanos env) (split_on (CHR '','') (kf_afs k)) a cl"
    and "has_inputs (the (cl a)) (\<lambda>f. number_file (ns f)) 1 N" "0 < N" "N < 9999" "missing (the (cl a)) CoordSnapshotFile"
    and "\<forall>f \<in> input_files N. int (length (ns f)) < 2 ^ 63"
    and "connectToWorkers (re_dial env) (re_health env) (split_on (CHR '','') (kf_workers k)) = Inr ws" "length ws < 2 ^ 32"
    and "arrives (re_sched env)" "ranges (re_iter env)"
    and "runs_ProcessFile env (coordinator_config k) (\<lambda>f. number_file (ns f)) N ws"
    and "\<forall>f \<in> input_files N. solvable env (coordinator_config k) ws f"
    and "good_name (kf_output k)" "kf_output k \<notin> set (leftovers ws)"
    and "\<exists>f \<in> input_files N. \<exists>n \<in> set (ns f). is_prime n"
  shows "\<exists>cl' now' out. coordinator_main env k fs cl now = (None, cl', now') \<and>
    (\<forall>r \<in> replicas a cl. content_at cl' r (kf_output k) = Some (number_file out)) \<and>
    sorted_wrt (<) out \<and> set out = {n \<in> (\<Union>f \<in> input_files N. set (ns f)). is_prime n} \<and>
    {n \<in> (\<Union>f \<in> input_files N. set (ns f)). prime_nat (unat n)} \<subseteq> set out \<and>
    ((\<forall>f \<in> input_files N. \<forall>n \<in> set (ns f). unat n < 1681) \<longrightarrow>
       set out = {n \<in> (\<Union>f \<in> input_files N. set (ns f)). prime_nat (unat n)})"
proof -
  let ?cfg = "coordinator_config k" and ?c = "\<lambda>f. number_file (ns f)" and ?all = "\<Union>f \<in> input_files N. set (ns f)"
  let ?P = "{n \<in> ?all. is_prime n}"
  have cf: "WorkerAddrs ?cfg = split_on (CHR '','') (kf_workers k)" "OutputFile ?cfg = kf_output k"
    by (simp_all add: coordinator_config_def)
  have P: "(\<Union>f \<in> input_files N. found_in (?c f)) = ?P" by (auto simp: found_in_number_file)
  have snd: "workers_sound env ?cfg ws (input_files N) (\<lambda>f. found_in (?c f))"
    using assms(6) by (intro runs_ProcessFile_sound [OF assms(11)]) simp
  have "starts_from (the (cl a)) (\<lambda>f. found_in (?c f)) [] []" using assms(5) by (simp add: starts_from_def)
  then have rs: "run_setting env ?cfg a cl ?c N []" unfolding run_setting_def afs_flag(1) using assms(1-4) by blast
  have ws: "worker_setting env ?cfg ?c N ws" unfolding worker_setting_def cf using assms(7-10,12-14) snd by blast
  have "\<not> input_files N \<subseteq> set []" "{f \<in> input_files N. solvable env ?cfg ws f} = input_files N"
    using assms(12,15) by auto
  then obtain cl' now' where r: "Run env ?cfg fs cl now = (None, cl', now')"
      "run_contents cl cl' a (kf_output k) (leftovers ws) True ?P"
    using Run_calm [OF rs ws, of fs now] assms(15) P by (auto simp: cf)
  have fin: "finite ?P" by (simp add: input_files_def)
  let ?out = "sorted_list_of_set ?P"
  have out: "set ?out = ?P" "sorted_wrt (<) ?out" using fin by (simp_all add: strict_sorted_list_of_set)
  have "\<forall>r \<in> replicas a cl. content_at cl' r (kf_output k) = Some (number_file ?out)" using r(2) by (simp add: run_contents_def)
  moreover have "coordinator_main env k fs cl now = (None, cl', now')" using r(1) by (simp add: coordinator_main_def)
  moreover have "(\<forall>f \<in> input_files N. \<forall>n \<in> set (ns f). unat n < 1681) \<longrightarrow> ?P = {n \<in> ?all. prime_nat (unat n)}"
    using mr.exact_on [of ?all] by blast
  ultimately show ?thesis using out mr.no_prime_lost [of ?all] by (intro exI [of _ cl'] exI [of _ now'] exI [of _ ?out]) simp
qed

section \<open>The deployment\<close>

definition demo_flags :: CoordinatorFlags where
  "demo_flags = \<lparr>kf_afs = ''s1:50051,s2:50052,s3:50053'', kf_workers = ''w1:6001'', kf_cacheDir = ''/tmp/prime-coord'',
     kf_output = ''primes.txt''\<rparr>"

text \<open>One worker, whose process has just started when it gets a request.\<close>

definition demo_worker :: "nat \<Rightarrow> ProcessFileRequest \<Rightarrow> processed" where
  "demo_worker N q = ProcessFile calm_machine (\<lambda>_. None) rev 2 1 q (newWorkerServer ''w1'') no_files (demo_cluster N) 0"

definition live_run :: "nat \<Rightarrow> run_env" where
  "live_run N = (demo_run {})\<lparr>re_rpc := (\<lambda>g w q. worker_stream (demo_worker N q))\<rparr>"

lemma live_run_sel [simp]:
  "re_machine (live_run N) = calm_machine" "re_pid (live_run N) = 1" "re_nanos (live_run N) = 1"
  "re_sched (live_run N) = concat" "re_iter (live_run N) = (\<lambda>xs. xs)" "re_dial (live_run N) = (\<lambda>_. True)"
  "re_health (live_run N) = (\<lambda>_ _. True)" "re_rpc (live_run N) g w q = worker_stream (demo_worker N q)"
  by (simp_all add: live_run_def) (simp_all add: demo_run_def)

lemma demo_afs: "split_on (CHR '','') (kf_afs demo_flags) = [''s1:50051'', ''s2:50052'', ''s3:50053'']"
  by code_simp

lemma demo_reaches: "reaches_primary calm_machine pid nanos (split_on (CHR '','') (kf_afs demo_flags)) ''s1:50051'' (demo_cluster N)"
  unfolding demo_afs demo_cluster_def by (rule loaded_reaches)

lemma demo_serves: "f \<in> input_files N \<Longrightarrow> served (loaded_server (demo_ins N)) f demo_file 0"
  using loaded_served [OF demo_map(1) input_name_plain(1)] by (auto simp: input_files_def)

lemma w1_good: "good_name (WorkerSnapshotFile (wk_workerID (newWorkerServer ''w1'')))"
  by code_simp

theorem tryWorker_of_ProcessFile_witness:
  "set (wr_primes (tryWorker (\<lambda>w q. worker_stream (demo_worker 1 q)) (hd demo_workers) (input_name 1) (coordinator_config demo_flags))) = {7} \<and>
   wr_count (tryWorker (\<lambda>w q. worker_stream (demo_worker 1 q)) (hd demo_workers) (input_name 1) (coordinator_config demo_flags)) = 3"
proof -
  have f: "input_name 1 \<in> input_files 1" by (simp add: input_files_def)
  show ?thesis
    using tryWorker_of_ProcessFile [OF demo_reaches demo_primary demo_serves [OF f] newWorkerServer_inv _ _ w1_good _ refl,
        of "\<lambda>_. None" rev 2 1 no_files 0 "hd demo_workers"] demo_primes
    by (simp add: demo_worker_def demo_file_def scan_number_file)
qed

lemma live_run_answers:
  assumes "f \<in> input_files N"
  shows "from_ProcessFile (request (coordinator_config demo_flags) w f) demo_file
      (worker_stream (demo_worker N (request (coordinator_config demo_flags) w f)))"
    "complete_stream (worker_stream (demo_worker N (request (coordinator_config demo_flags) w f)))"
proof -
  let ?q = "request (coordinator_config demo_flags) w f"
  have q: "pq_AfsServers ?q = kf_afs demo_flags" "pq_FilePath ?q = f" by (simp_all add: afs_flag(2)) (simp add: request_def)
  have sv: "served (the (demo_cluster N ''s1:50051'')) (pq_FilePath ?q) demo_file 0" unfolding demo_primary q option.sel using assms by (rule demo_serves)
  have r: "reaches_primary calm_machine pid nanos (split_on (CHR '','') (pq_AfsServers ?q)) ''s1:50051'' (demo_cluster N)" for pid nanos
    unfolding q by (rule demo_reaches)
  show "from_ProcessFile ?q demo_file (worker_stream (demo_worker N ?q))"
    unfolding from_ProcessFile_def demo_worker_def using r sv newWorkerServer_inv w1_good set_rev by blast
  have c: "demo_cluster N ''s1:50051'' = Some (the (demo_cluster N ''s1:50051''))" by (simp add: demo_primary)
  obtain msgs n rest where "demo_worker N ?q = (msgs, None, rest)" "answers (found_in demo_file) n msgs"
    using ProcessFile_calm [OF r c sv newWorkerServer_inv _ _ w1_good, of "\<lambda>_. None" rev 2 1 no_files 0]
    by (auto simp: demo_worker_def demo_file_def scan_number_file)
  then show "complete_stream (worker_stream (demo_worker N ?q))" using answers_complete by (simp add: worker_stream_def)
qed

theorem prime_finder_correct_witness:
  "\<exists>cl' now' out. coordinator_main (live_run 2) demo_flags no_files (demo_cluster 2) 0 = (None, cl', now') \<and>
    content_at cl' ''s1:50051'' ''primes.txt'' = Some (number_file out) \<and> sorted_wrt (<) out \<and> set out = {7}"
proof -
  let ?ns = "\<lambda>_. [4, 7, 7] :: u64 list"
  have two: "input_files 2 \<noteq> {}" by (simp add: input_files_def)
  have w: "connectToWorkers (re_dial (live_run 2)) (re_health (live_run 2)) (split_on (CHR '','') (kf_workers demo_flags)) = Inr demo_workers"
    unfolding live_run_sel by code_simp
  have runs: "runs_ProcessFile (live_run 2) (coordinator_config demo_flags) (\<lambda>f. number_file (?ns f)) 2 demo_workers"
    "\<forall>f \<in> input_files 2. solvable (live_run 2) (coordinator_config demo_flags) demo_workers f"
    using live_run_answers by (auto simp: runs_ProcessFile_def solvable_def demo_file_def demo_workers_def)
  have o: "good_name (kf_output demo_flags)" "kf_output demo_flags \<notin> set (leftovers demo_workers)" by code_simp+
  have i: "has_inputs (the (demo_cluster 2 ''s1:50051'')) (\<lambda>f. number_file (?ns f)) 1 2"
    using demo_inputs [of 2] by (simp add: demo_file_def)
  have P: "{n \<in> (\<Union>f \<in> input_files 2. set (?ns f)). is_prime n} = {7}" using two test_examples by auto
  have ex: "\<exists>f \<in> input_files 2. \<exists>n \<in> set (?ns f). is_prime n" using two test_examples by auto
  have l: "length demo_workers < 2 ^ 32" "arrives (re_sched (live_run 2))" "ranges (re_iter (live_run 2))"
    by (simp_all add: arrives_def ranges_def demo_workers_def)
  have x: "''s1:50051'' \<in> replicas ''s1:50051'' (demo_cluster 2)" by (simp add: replicas_def demo_primary)
  have rp: "reaches_primary (re_machine (live_run 2)) (re_pid (live_run 2)) (re_nanos (live_run 2))
      (split_on (CHR '','') (kf_afs demo_flags)) ''s1:50051'' (demo_cluster 2)"
    unfolding live_run_sel by (rule demo_reaches)
  obtain cl' now' out where "coordinator_main (live_run 2) demo_flags no_files (demo_cluster 2) 0 = (None, cl', now')"
      "\<forall>r \<in> replicas ''s1:50051'' (demo_cluster 2). content_at cl' r (kf_output demo_flags) = Some (number_file out)"
      "sorted_wrt (<) out" "set out = {n \<in> (\<Union>f \<in> input_files 2. set (?ns f)). is_prime n}"
    using prime_finder_correct [OF rp i _ _ demo_no_snapshot _ w l runs o ex, of no_files 0] by auto
  then show ?thesis using x P by (auto simp: demo_flags_def)
qed

end
